(* ===== verification/Prelude.thy ===== *)
theory Prelude
  imports Main "HOL-Library.Word" "HOL-Library.AList"
begin

unbundle bit_operations_syntax

text \<open>
  The vocabulary every component of the model shares:
  \<^item> the machine types of the Rust sources (\<open>u8\<close> to \<open>u32\<close>, \<open>Ipv4Addr\<close>, \<open>MacAddr\<close>,
    \<open>Instant\<close> and \<open>Duration\<close>);
  \<^item> outcomes: a computation that may panic is a value of \<open>panic + 'a\<close>;
  \<^item> slices, and the big-endian byte codecs \<open>to_be_bytes\<close> / \<open>from_be_bytes\<close>;
  \<^item> \<open>std::collections::HashMap\<close> as an association list with distinct keys, behind the
    interface locale \<open>hash_map_laws\<close>, which is interpreted once here and whose facts
    (\<open>hm.\<dots>\<close>) every table of the router uses.
\<close>

named_theorems outcome_simps
named_theorems wire_simps

section \<open>Machine types\<close>

type_synonym u8 = "8 word"
type_synonym u16 = "16 word"
type_synonym u32 = "32 word"
type_synonym bytes = "u8 list"

text \<open>\<open>std::net::Ipv4Addr\<close>: a 32-bit value; \<open>Ipv4Addr::new\<close> takes its four octets.\<close>

type_synonym ipv4 = "32 word"

definition ipv4_new :: "u8 \<Rightarrow> u8 \<Rightarrow> u8 \<Rightarrow> u8 \<Rightarrow> ipv4" where
  "ipv4_new a b c d =
     push_bit 24 (ucast a) OR push_bit 16 (ucast b) OR push_bit 8 (ucast c) OR ucast d"

definition ipv4_unspecified :: ipv4 where
  "ipv4_unspecified = 0"

definition ipv4_broadcast :: ipv4 where
  "ipv4_broadcast = 0xFFFFFFFF"

text \<open>\<open>pnet::util::MacAddr\<close>: six octets.\<close>

datatype mac = MacAddr u8 u8 u8 u8 u8 u8

fun mac_octets :: "mac \<Rightarrow> bytes" where
  "mac_octets (MacAddr a b c d e f) = [a, b, c, d, e, f]"

fun mac_of_octets :: "bytes \<Rightarrow> mac option" where
  "mac_of_octets [a, b, c, d, e, f] = Some (MacAddr a b c d e f)"
| "mac_of_octets _ = None"

definition mac_broadcast :: mac where
  "mac_broadcast = MacAddr 255 255 255 255 255 255"

lemma mac_of_octets_octets [simp]: "mac_of_octets (mac_octets m) = Some m"
  by (cases m) simp

lemma length_mac_octets [simp]: "length (mac_octets m) = 6"
  by (cases m) simp

lemma mac_of_octets_Some_iff: "mac_of_octets bs = Some m \<longleftrightarrow> bs = mac_octets m"
  by (cases bs rule: mac_of_octets.cases; cases m) auto

text \<open>
  \<open>std::time::Instant\<close> counts nanoseconds from an unspecified origin. \<open>Instant\<close>
  subtraction (\<open>elapsed\<close>) saturates at zero, as \<open>nat\<close> subtraction does.
\<close>

type_synonym instant = nat
type_synonym duration = nat

definition from_secs :: "nat \<Rightarrow> duration" where
  "from_secs n = n * 1000000000"

definition as_secs :: "duration \<Rightarrow> nat" where
  "as_secs d = d div 1000000000"

lemma as_secs_from_secs [simp]: "as_secs (from_secs n) = n"
  by (simp add: as_secs_def from_secs_def)

lemma from_secs_mono: "m \<le> n \<Longrightarrow> from_secs m \<le> from_secs n"
  by (simp add: from_secs_def)

section \<open>Outcomes: panics as values\<close>

datatype panic = SliceOutOfRange | IndexOutOfBounds | UnwrapOnNone | UnwrapOnErr

type_synonym 'a outcome = "panic + 'a"

definition obind :: "'e + 'a \<Rightarrow> ('a \<Rightarrow> 'e + 'b) \<Rightarrow> 'e + 'b" where
  "obind x f = (case x of Inl e \<Rightarrow> Inl e | Inr a \<Rightarrow> f a)"

lemma obind_Inl [simp, outcome_simps]: "obind (Inl e) f = Inl e"
  by (simp add: obind_def)

lemma obind_Inr [simp, outcome_simps]: "obind (Inr a) f = f a"
  by (simp add: obind_def)

lemma obind_eq_Inr_iff [outcome_simps]:
  "obind x f = Inr b \<longleftrightarrow> (\<exists>a. x = Inr a \<and> f a = Inr b)"
  by (cases x) auto

lemma obind_split:
  "P (obind x f) \<longleftrightarrow> (\<forall>e. x = Inl e \<longrightarrow> P (Inl e)) \<and> (\<forall>a. x = Inr a \<longrightarrow> P (f a))"
  by (cases x) auto

text \<open>\<open>x.unwrap()\<close>, \<open>&xs[..n]\<close> and \<open>xs[i] = v\<close>, each with its panic.\<close>

definition unwrap :: "'a option \<Rightarrow> 'a outcome" where
  "unwrap x = (case x of None \<Rightarrow> Inl UnwrapOnNone | Some a \<Rightarrow> Inr a)"

definition slice_to :: "'a list \<Rightarrow> nat \<Rightarrow> 'a list outcome" where
  "slice_to xs n = (if n \<le> length xs then Inr (take n xs) else Inl SliceOutOfRange)"

definition index_set :: "'a list \<Rightarrow> nat \<Rightarrow> 'a \<Rightarrow> 'a list outcome" where
  "index_set xs i v = (if i < length xs then Inr (xs[i := v]) else Inl IndexOutOfBounds)"

lemma unwrap_Some [simp, outcome_simps]: "unwrap (Some a) = Inr a"
  by (simp add: unwrap_def)

lemma slice_to_le [simp, outcome_simps]: "n \<le> length xs \<Longrightarrow> slice_to xs n = Inr (take n xs)"
  by (simp add: slice_to_def)

lemma slice_to_eq_Inr_iff [outcome_simps]:
  "slice_to xs n = Inr ys \<longleftrightarrow> n \<le> length xs \<and> ys = take n xs"
  by (auto simp: slice_to_def)

lemma index_set_lt [simp, outcome_simps]: "i < length xs \<Longrightarrow> index_set xs i v = Inr (xs[i := v])"
  by (simp add: index_set_def)

lemma find_first: "\<forall>x \<in> set xs. \<not> P x \<Longrightarrow> P a \<Longrightarrow> find P (xs @ a # ys) = Some a"
  by (induction xs) auto

lemma find_Some_split:
  "find P xs = Some a \<longleftrightarrow> (\<exists>before after. xs = before @ a # after \<and> P a \<and> (\<forall>x \<in> set before. \<not> P x))"
proof
  assume "find P xs = Some a"
  then show "\<exists>before after. xs = before @ a # after \<and> P a \<and> (\<forall>x \<in> set before. \<not> P x)"
  proof (induction xs)
    case (Cons x xs)
    then show ?case
      by (cases "P x") (fastforce, metis Cons_eq_appendI find.simps(2) set_ConsD)
  qed simp
qed (auto simp: find_first)

lemma length_takeWhile_eqI:
  assumes "k \<le> length xs" and "\<And>i. i < k \<Longrightarrow> P (xs ! i)" and "k < length xs \<Longrightarrow> \<not> P (xs ! k)"
  shows "length (takeWhile P xs) = k"
proof (rule antisym)
  show "length (takeWhile P xs) \<le> k"
  proof (rule ccontr)
    assume "\<not> length (takeWhile P xs) \<le> k"
    then have k: "k < length (takeWhile P xs)" by simp
    then have "P (takeWhile P xs ! k)" by (meson nth_mem set_takeWhileD)
    with k have "P (xs ! k)" by (simp add: takeWhile_nth)
    moreover have "k < length xs" using k length_takeWhile_le [of P xs] by linarith
    ultimately show False using assms(3) by simp
  qed
  show "k \<le> length (takeWhile P xs)"
    using assms(1,2) by (intro length_takeWhile_less_P_nth) auto
qed

lemma nth_takeWhile_holds: "i < length (takeWhile P xs) \<Longrightarrow> P (xs ! i)"
  by (metis nth_mem set_takeWhileD takeWhile_nth)

section \<open>Big-endian bytes\<close>

definition u16_to_be_bytes :: "u16 \<Rightarrow> bytes" where
  "u16_to_be_bytes w = [ucast (drop_bit 8 w), ucast w]"

definition u16_from_be_bytes :: "u8 \<Rightarrow> u8 \<Rightarrow> u16" where
  "u16_from_be_bytes a b = push_bit 8 (ucast a) OR ucast b"

definition u32_to_be_bytes :: "u32 \<Rightarrow> bytes" where
  "u32_to_be_bytes w =
     [ucast (drop_bit 24 w), ucast (drop_bit 16 w), ucast (drop_bit 8 w), ucast w]"

lemma u16_be_roundtrip [simp, wire_simps]:
  "u16_from_be_bytes (ucast (drop_bit 8 w)) (ucast w) = w"
  unfolding u16_from_be_bytes_def
  by (rule bit_word_eqI) (auto simp: bit_simps)

lemma u16_be_bytes_split [wire_simps]:
  "u16_to_be_bytes (u16_from_be_bytes a b) = [a, b]"
  unfolding u16_from_be_bytes_def u16_to_be_bytes_def
  by (auto intro!: bit_word_eqI simp: bit_simps impossible_bit)

lemma u32_be_roundtrip [simp, wire_simps]:
  "ipv4_new (ucast (drop_bit 24 w)) (ucast (drop_bit 16 w)) (ucast (drop_bit 8 w)) (ucast w) = w"
  unfolding ipv4_new_def
proof (rule bit_word_eqI)
  fix n
  assume "n < LENGTH(32)"
  then consider "n < 8" | "8 \<le> n" "n < 16" | "16 \<le> n" "n < 24" | "24 \<le> n" "n < 32"
    by fastforce
  then show "bit (push_bit 24 (ucast (ucast (drop_bit 24 w) :: u8)) OR
      push_bit 16 (ucast (ucast (drop_bit 16 w) :: u8)) OR
      push_bit 8 (ucast (ucast (drop_bit 8 w) :: u8)) OR ucast (ucast w :: u8) :: ipv4) n = bit w n"
    by cases (auto simp: bit_simps)
qed

section \<open>Hash maps\<close>

text \<open>
  \<open>std::collections::HashMap\<close>: at most one value per key, in an order the language does
  not specify. An association list with distinct keys is one such order; every law the
  components rely on is stated through lookups, so no result depends on the order.
\<close>

type_synonym ('k, 'v) hmap = "('k \<times> 'v) list"

definition hm_ok :: "('k, 'v) hmap \<Rightarrow> bool" where
  "hm_ok m \<longleftrightarrow> distinct (map fst m)"

definition hm_get :: "('k, 'v) hmap \<Rightarrow> 'k \<Rightarrow> 'v option" where
  "hm_get m k = map_of m k"

definition hm_insert :: "'k \<Rightarrow> 'v \<Rightarrow> ('k, 'v) hmap \<Rightarrow> ('k, 'v) hmap" where
  "hm_insert k v m = AList.update k v m"

definition hm_remove :: "'k \<Rightarrow> ('k, 'v) hmap \<Rightarrow> ('k, 'v) hmap" where
  "hm_remove k m = AList.delete k m"

definition hm_retain :: "('k \<Rightarrow> 'v \<Rightarrow> bool) \<Rightarrow> ('k, 'v) hmap \<Rightarrow> ('k, 'v) hmap" where
  "hm_retain P m = filter (\<lambda>(k, v). P k v) m"

definition hm_len :: "('k, 'v) hmap \<Rightarrow> nat" where
  "hm_len m = length m"

locale hash_map_laws =
  fixes ok :: "'m \<Rightarrow> bool"
    and empty :: "'m"
    and get :: "'m \<Rightarrow> 'k \<Rightarrow> 'v option"
    and insert :: "'k \<Rightarrow> 'v \<Rightarrow> 'm \<Rightarrow> 'm"
    and remove :: "'k \<Rightarrow> 'm \<Rightarrow> 'm"
    and retain :: "('k \<Rightarrow> 'v \<Rightarrow> bool) \<Rightarrow> 'm \<Rightarrow> 'm"
    and iter :: "'m \<Rightarrow> ('k \<times> 'v) list"
    and len :: "'m \<Rightarrow> nat"
  assumes ok_empty: "ok empty"
    and ok_insert: "ok m \<Longrightarrow> ok (insert k v m)"
    and ok_remove: "ok m \<Longrightarrow> ok (remove k m)"
    and ok_retain: "ok m \<Longrightarrow> ok (retain P m)"
    and get_empty: "get empty k = None"
    and get_insert: "ok m \<Longrightarrow> get (insert k v m) = (get m)(k \<mapsto> v)"
    and get_remove: "ok m \<Longrightarrow> get (remove k m) = (get m)(k := None)"
    and get_retain: "ok m \<Longrightarrow> get (retain P m) =
      (\<lambda>k. case get m k of None \<Rightarrow> None | Some v \<Rightarrow> if P k v then Some v else None)"
    and iter_get: "ok m \<Longrightarrow> set (iter m) = {(k, v). get m k = Some v}"
    and len_dom: "ok m \<Longrightarrow> len m = card (dom (get m))"
begin

lemma finite_dom: "ok m \<Longrightarrow> finite (dom (get m))"
proof -
  assume "ok m"
  then have "dom (get m) = fst ` set (iter m)"
    by (force simp: iter_get)
  then show ?thesis by simp
qed

lemma iter_any: "ok m \<Longrightarrow> list_ex (\<lambda>(k, v). P k v) (iter m) \<longleftrightarrow> (\<exists>k v. get m k = Some v \<and> P k v)"
  by (auto simp: list_ex_iff iter_get)

lemma values_ran: "ok m \<Longrightarrow> snd ` set (iter m) = ran (get m)"
  by (force simp: iter_get ran_def)

lemma get_retain_Some_iff:
  "ok m \<Longrightarrow> get (retain P m) k = Some v \<longleftrightarrow> get m k = Some v \<and> P k v"
  by (auto simp: get_retain split: option.splits)

lemma get_retain_None_iff:
  "ok m \<Longrightarrow> get (retain P m) k = None \<longleftrightarrow> (\<forall>v. get m k = Some v \<longrightarrow> \<not> P k v)"
  by (auto simp: get_retain split: option.splits)

lemma get_retain_ran: "ok m \<Longrightarrow> ran (get (retain P m)) \<subseteq> ran (get m)"
  by (auto simp: ran_def get_retain_Some_iff)

lemma len_insert: "ok m \<Longrightarrow> len (insert k v m) = (if get m k = None then Suc (len m) else len m)"
  by (simp add: len_dom ok_insert get_insert finite_dom domIff insert_absorb)

lemma len_insert_le: "ok m \<Longrightarrow> len (insert k v m) \<le> Suc (len m)"
  by (simp add: len_insert)

lemma len_remove_le: "ok m \<Longrightarrow> len (remove k m) \<le> len m"
  by (simp add: len_dom ok_remove get_remove finite_dom card_mono Diff_subset)

lemma len_retain_le: "ok m \<Longrightarrow> len (retain P m) \<le> len m"
  by (simp add: len_dom ok_retain)
    (rule card_mono, auto simp: finite_dom get_retain_Some_iff)

end

interpretation hm: hash_map_laws hm_ok "[]" hm_get hm_insert hm_remove hm_retain "\<lambda>m. m" hm_len
proof (unfold_locales, goal_cases)
  case (2 m k v) then show ?case by (simp add: hm_ok_def hm_insert_def distinct_update)
next
  case (3 m k) then show ?case by (simp add: hm_ok_def hm_remove_def distinct_delete)
next
  case (4 m P) then show ?case by (simp add: hm_ok_def hm_retain_def distinct_map_filter)
next
  case (6 m k v) then show ?case by (simp add: hm_get_def[abs_def] hm_insert_def update_conv')
next
  case (7 m k) then show ?case by (simp add: hm_get_def[abs_def] hm_remove_def delete_conv')
next
  case (8 m P) then show ?case
  proof (induction m)
    case (Cons e m)
    then have "hm_get m (fst e) = None"
      by (simp add: hm_ok_def hm_get_def map_of_eq_None_iff)
    with Cons show ?case
      by (auto simp: hm_ok_def hm_get_def[abs_def] hm_retain_def fun_eq_iff
          split: option.splits)
  qed (simp add: hm_get_def[abs_def] hm_retain_def)
next
  case (9 m) then show ?case
    by (auto simp: hm_ok_def hm_get_def[abs_def] map_of_eq_Some_iff)
next
  case (10 m) then show ?case
    by (simp add: hm_ok_def hm_get_def[abs_def] hm_len_def dom_map_of_conv_image_fst
        distinct_card[of "map fst m", simplified])
qed (simp_all add: hm_ok_def hm_get_def)

lemmas hm_ok_simps [simp] = hm.ok_empty hm.ok_insert hm.ok_remove hm.ok_retain
lemmas hm_get_simps = hm.get_empty hm.get_insert hm.get_remove hm.get_retain
lemmas hm_exec = hm_get_def hm_insert_def hm_remove_def hm_retain_def hm_len_def hm_ok_def

end
