(* ===== verification/Lease_Table.thy ===== *)
theory Lease_Table
  imports Prelude
begin

text \<open>
  The lease table of the LAN DHCP server, \<open>mod lease_table\<close> of
  \<open>src/services/dhcp_server.rs\<close>: the map from client MACs to leases, the index of
  allocated addresses, and the seven operations on them.

  \<open>retain\<close> and \<open>any\<close> read the clock once for every entry they visit, so
  \<open>evict_expired\<close> and \<open>is_ip_taken_by_other\<close> take the readings as a function from the
  entry's MAC; whatever order the hash map is walked in, some such function describes the
  readings that were made.

  The interface locale \<open>lease_store\<close> states what the DHCP handlers may rely on; the
  table is its interpretation \<open>lt\<close>.
\<close>

section \<open>Networks\<close>

text \<open>
  \<open>ipnet::Ipv4Net\<close> is not part of this repository. A value of it is a parameter of the
  model, given by what its methods answer: \<open>addr()\<close>, \<open>netmask()\<close>, the sequence
  \<open>hosts()\<close> yields, and \<open>contains(&ip)\<close>. \<open>net_documented\<close> is what the crate documents
  of them: the hosts lie in the network, and none is yielded twice.
\<close>

record ipv4_net =
  net_addr :: ipv4
  net_netmask :: ipv4
  net_hosts :: "ipv4 list"
  net_contains :: "ipv4 \<Rightarrow> bool"

definition net_documented :: "ipv4_net \<Rightarrow> bool" where
  "net_documented net \<longleftrightarrow>
     list_all (net_contains net) (net_hosts net) \<and> distinct (net_hosts net)"

section \<open>State and operations\<close>

record client_lease =
  lease_ip :: ipv4
  lease_expiry :: instant

record lease_table =
  by_mac :: "(mac, client_lease) hmap"
  allocated_ips :: "ipv4 set"

definition lease_table_new :: lease_table where
  "lease_table_new = \<lparr>by_mac = [], allocated_ips = {}\<rparr>"

definition lease_table_get :: "lease_table \<Rightarrow> mac \<Rightarrow> client_lease option" where
  "lease_table_get T m = hm_get (by_mac T) m"

definition lease_table_insert :: "mac \<Rightarrow> client_lease \<Rightarrow> lease_table \<Rightarrow> lease_table" where
  "lease_table_insert m l T =
     (let released = (case hm_get (by_mac T) m of
                        Some old \<Rightarrow> allocated_ips T - {lease_ip old}
                      | None \<Rightarrow> allocated_ips T)
      in T\<lparr>allocated_ips := insert (lease_ip l) released, by_mac := hm_insert m l (by_mac T)\<rparr>)"

definition lease_table_remove :: "mac \<Rightarrow> lease_table \<Rightarrow> client_lease option \<times> lease_table" where
  "lease_table_remove m T =
     (case hm_get (by_mac T) m of
        None \<Rightarrow> (None, T)
      | Some l \<Rightarrow> (Some l, T\<lparr>by_mac := hm_remove m (by_mac T),
                             allocated_ips := allocated_ips T - {lease_ip l}\<rparr>))"

definition is_ip_available :: "lease_table \<Rightarrow> ipv4 \<Rightarrow> bool" where
  "is_ip_available T a \<longleftrightarrow> a \<notin> allocated_ips T"

definition is_ip_taken_by_other :: "(mac \<Rightarrow> instant) \<Rightarrow> lease_table \<Rightarrow> ipv4 \<Rightarrow> mac \<Rightarrow> bool" where
  "is_ip_taken_by_other clk T a client_mac \<longleftrightarrow>
     list_ex (\<lambda>(m, l). lease_ip l = a \<and> lease_expiry l > clk m \<and> m \<noteq> client_mac) (by_mac T)"

definition evict_expired :: "(mac \<Rightarrow> instant) \<Rightarrow> lease_table \<Rightarrow> lease_table" where
  "evict_expired clk T =
     (let kept = hm_retain (\<lambda>m l. lease_expiry l > clk m) (by_mac T)
      in T\<lparr>by_mac := kept, allocated_ips := set (map (lease_ip \<circ> snd) kept)\<rparr>)"

definition next_available_ip ::
  "(mac \<Rightarrow> instant) \<Rightarrow> ipv4_net \<Rightarrow> ipv4 \<Rightarrow> lease_table \<Rightarrow> ipv4 option \<times> lease_table" where
  "next_available_ip clk net server_ip T =
     (let T' = evict_expired clk T
      in (find (\<lambda>a. a \<noteq> server_ip \<and> is_ip_available T' a) (net_hosts net), T'))"

section \<open>What the table means\<close>

text \<open>
  The abstract table is the partial map of leases. \<open>table_inv\<close> is the part of the
  documented agreement of map and index that every operation keeps: keys are unique, and an
  indexed address belongs to some lease. The converse is \<open>index_complete\<close>, which the
  operations keep only while no two entries share an address.
\<close>

definition leases_of :: "lease_table \<Rightarrow> mac \<Rightarrow> client_lease option" where
  "leases_of T = hm_get (by_mac T)"

definition leased_ips :: "(mac \<Rightarrow> client_lease option) \<Rightarrow> ipv4 set" where
  "leased_ips L = lease_ip ` ran L"

definition table_inv :: "lease_table \<Rightarrow> bool" where
  "table_inv T \<longleftrightarrow> hm_ok (by_mac T) \<and> allocated_ips T \<subseteq> leased_ips (leases_of T)"

definition index_complete :: "lease_table \<Rightarrow> bool" where
  "index_complete T \<longleftrightarrow> leased_ips (leases_of T) \<subseteq> allocated_ips T"

definition evicted :: "(mac \<Rightarrow> instant) \<Rightarrow> (mac \<Rightarrow> client_lease option) \<Rightarrow> mac \<Rightarrow> client_lease option" where
  "evicted clk L = (\<lambda>m. case L m of
     None \<Rightarrow> None | Some l \<Rightarrow> if lease_expiry l > clk m then Some l else None)"

text \<open>At time \<open>t\<close> no two clients hold unexpired leases of one address.\<close>

definition live_unique :: "instant \<Rightarrow> (mac \<Rightarrow> client_lease option) \<Rightarrow> bool" where
  "live_unique t L \<longleftrightarrow> (\<forall>m m' l l'. L m = Some l \<and> L m' = Some l' \<and> m \<noteq> m' \<and>
     lease_expiry l > t \<and> lease_expiry l' > t \<longrightarrow> lease_ip l \<noteq> lease_ip l')"

definition leases_within :: "(ipv4 \<Rightarrow> bool) \<Rightarrow> (mac \<Rightarrow> client_lease option) \<Rightarrow> bool" where
  "leases_within P L \<longleftrightarrow> (\<forall>m l. L m = Some l \<longrightarrow> P (lease_ip l))"

lemma leased_ips_iff: "a \<in> leased_ips L \<longleftrightarrow> (\<exists>m l. L m = Some l \<and> lease_ip l = a)"
  by (auto simp: leased_ips_def ran_def)

lemma evicted_Some_iff: "evicted clk L m = Some l \<longleftrightarrow> L m = Some l \<and> lease_expiry l > clk m"
  by (auto simp: evicted_def split: option.splits)

lemma evicted_le: "evicted clk L m = Some l \<Longrightarrow> L m = Some l"
  by (simp add: evicted_Some_iff)

lemma live_unique_mono: "live_unique t L \<Longrightarrow> t \<le> t' \<Longrightarrow> live_unique t' L"
  unfolding live_unique_def by (meson order_le_less_trans)

lemma live_unique_submap:
  assumes "live_unique t L" and "\<And>m l. L' m = Some l \<Longrightarrow> L m = Some l"
  shows "live_unique t L'"
  using assms unfolding live_unique_def by meson

lemma leases_within_submap:
  assumes "leases_within P L" and "\<And>m l. L' m = Some l \<Longrightarrow> L m = Some l"
  shows "leases_within P L'"
  using assms unfolding leases_within_def by meson

lemma live_unique_update:
  assumes "live_unique t L"
    and "\<And>m' l'. L m' = Some l' \<Longrightarrow> m' \<noteq> m \<Longrightarrow> lease_expiry l' > t \<Longrightarrow> lease_ip l' \<noteq> lease_ip l"
  shows "live_unique t (L(m \<mapsto> l))"
  using assms unfolding live_unique_def by (auto split: if_splits) metis+

lemma leases_within_update:
  "leases_within P L \<Longrightarrow> P (lease_ip l) \<Longrightarrow> leases_within P (L(m \<mapsto> l))"
  by (simp add: leases_within_def)

section \<open>The operations implement the partial map\<close>

lemma table_inv_ok: "table_inv T \<Longrightarrow> hm_ok (by_mac T)"
  by (simp add: table_inv_def)

lemma leases_of_insert:
  "table_inv T \<Longrightarrow> leases_of (lease_table_insert m l T) = (leases_of T)(m \<mapsto> l)"
  by (simp add: table_inv_def leases_of_def lease_table_insert_def Let_def hm.get_insert)

lemma leases_of_remove:
  "table_inv T \<Longrightarrow> leases_of (snd (lease_table_remove m T)) = (leases_of T)(m := None)"
  by (auto simp: table_inv_def leases_of_def lease_table_remove_def hm.get_remove fun_eq_iff
      split: option.splits)

lemma leases_of_evict:
  "table_inv T \<Longrightarrow> leases_of (evict_expired clk T) = evicted clk (leases_of T)"
  by (simp add: table_inv_def leases_of_def evict_expired_def Let_def evicted_def hm.get_retain)

lemma allocated_evict:
  assumes "table_inv T"
  shows "allocated_ips (evict_expired clk T) = leased_ips (leases_of (evict_expired clk T))"
proof -
  let ?kept = "hm_retain (\<lambda>m l. lease_expiry l > clk m) (by_mac T)"
  from assms have "hm_ok ?kept" by (simp add: table_inv_def)
  then have "snd ` set ?kept = ran (hm_get ?kept)" by (rule hm.values_ran)
  then have "lease_ip ` snd ` set ?kept = lease_ip ` ran (hm_get ?kept)" by (rule arg_cong)
  then show ?thesis
    by (simp add: evict_expired_def Let_def leases_of_def leased_ips_def image_image)
qed

lemma table_inv_new [simp]: "table_inv lease_table_new"
  by (simp add: table_inv_def lease_table_new_def)

lemma table_inv_insert: 
  assumes "table_inv T" shows "table_inv (lease_table_insert m l T)"
proof -
  have "allocated_ips (lease_table_insert m l T) \<subseteq> leased_ips ((leases_of T)(m \<mapsto> l))"
  proof
    fix a
    assume "a \<in> allocated_ips (lease_table_insert m l T)"
    with assms show "a \<in> leased_ips ((leases_of T)(m \<mapsto> l))"
      by (auto simp: lease_table_insert_def Let_def table_inv_def leased_ips_iff leases_of_def
          subset_iff split: option.splits) (metis option.distinct(1) option.inject)+
  qed
  moreover have "hm_ok (by_mac (lease_table_insert m l T))"
    using assms by (simp add: table_inv_def lease_table_insert_def Let_def)
  ultimately show ?thesis
    using assms by (simp add: table_inv_def [of "lease_table_insert m l T"] leases_of_insert)
qed

lemma table_inv_remove:
  assumes "table_inv T" shows "table_inv (snd (lease_table_remove m T))"
proof (cases "leases_of T m")
  case None
  with assms show ?thesis by (simp add: lease_table_remove_def leases_of_def)
next
  case (Some l)
  then have "allocated_ips (snd (lease_table_remove m T)) = allocated_ips T - {lease_ip l}"
    and "hm_ok (by_mac (snd (lease_table_remove m T)))"
    using assms by (simp_all add: lease_table_remove_def leases_of_def table_inv_def)
  moreover have "allocated_ips T - {lease_ip l} \<subseteq> leased_ips ((leases_of T)(m := None))"
  proof
    fix a
    assume a: "a \<in> allocated_ips T - {lease_ip l}"
    with assms obtain m' l' where "leases_of T m' = Some l'" "lease_ip l' = a"
      by (auto simp: table_inv_def leased_ips_iff subset_iff)
    with a Some show "a \<in> leased_ips ((leases_of T)(m := None))"
      by (auto simp: leased_ips_iff intro!: exI [of _ m'])
  qed
  ultimately show ?thesis
    using assms by (simp add: table_inv_def [of "snd _"] leases_of_remove)
qed

lemma table_inv_evict: "table_inv T \<Longrightarrow> table_inv (evict_expired clk T)"
  by (simp add: table_inv_def [of "evict_expired clk T"] allocated_evict)
    (simp add: evict_expired_def Let_def table_inv_def)

lemma taken_by_other_iff:
  "table_inv T \<Longrightarrow> is_ip_taken_by_other clk T a m \<longleftrightarrow>
     (\<exists>m' l. leases_of T m' = Some l \<and> m' \<noteq> m \<and> lease_ip l = a \<and> lease_expiry l > clk m')"
  unfolding is_ip_taken_by_other_def leases_of_def
  by (subst hm.iter_any) (auto simp: table_inv_def)

lemma next_available_ip_eq:
  "table_inv T \<Longrightarrow> next_available_ip clk net s T =
     (find (\<lambda>a. a \<noteq> s \<and> a \<notin> leased_ips (evicted clk (leases_of T))) (net_hosts net),
      evict_expired clk T)"
  by (simp add: next_available_ip_def Let_def is_ip_available_def allocated_evict leases_of_evict)

section \<open>The interface the handlers use\<close>

text \<open>
  \<open>lease_store\<close> fixes the operations the DHCP handlers call and assumes their laws over the
  partial map of leases; the readings \<open>clk\<close> of one call lie between the time before and the
  time after it. The conclusions are the preservation facts of the server's safety proof.
\<close>

locale lease_store =
  fixes inv :: "'s \<Rightarrow> bool"
    and leases :: "'s \<Rightarrow> mac \<Rightarrow> client_lease option"
    and put :: "mac \<Rightarrow> client_lease \<Rightarrow> 's \<Rightarrow> 's"
    and take_out :: "mac \<Rightarrow> 's \<Rightarrow> client_lease option \<times> 's"
    and taken :: "(mac \<Rightarrow> instant) \<Rightarrow> 's \<Rightarrow> ipv4 \<Rightarrow> mac \<Rightarrow> bool"
    and fresh :: "(mac \<Rightarrow> instant) \<Rightarrow> ipv4_net \<Rightarrow> ipv4 \<Rightarrow> 's \<Rightarrow> ipv4 option \<times> 's"
  assumes inv_put: "inv s \<Longrightarrow> inv (put m l s)"
    and inv_take_out: "inv s \<Longrightarrow> inv (snd (take_out m s))"
    and inv_fresh: "inv s \<Longrightarrow> inv (snd (fresh clk net a s))"
    and leases_put: "inv s \<Longrightarrow> leases (put m l s) = (leases s)(m \<mapsto> l)"
    and leases_take_out: "inv s \<Longrightarrow> leases (snd (take_out m s)) = (leases s)(m := None)"
    and leases_fresh: "inv s \<Longrightarrow> leases (snd (fresh clk net a s)) = evicted clk (leases s)"
    and taken_iff: "inv s \<Longrightarrow> taken clk s a m \<longleftrightarrow>
      (\<exists>m' l. leases s m' = Some l \<and> m' \<noteq> m \<and> lease_ip l = a \<and> lease_expiry l > clk m')"
    and fresh_eq: "inv s \<Longrightarrow> fst (fresh clk net a s) =
      find (\<lambda>h. h \<noteq> a \<and> h \<notin> leased_ips (evicted clk (leases s))) (net_hosts net)"
begin

lemma fresh_SomeD:
  assumes "inv s" and "fst (fresh clk net a s) = Some h"
  shows "h \<in> set (net_hosts net)" "h \<noteq> a" "h \<notin> leased_ips (leases (snd (fresh clk net a s)))"
  using assms by (auto simp: fresh_eq leases_fresh find_Some_iff)

lemma live_unique_grant:
  assumes "inv s" and "live_unique t (leases s)" and "t \<le> t'"
    and "\<And>m'. clk m' \<le> t'" and "\<not> taken clk s (lease_ip l) m"
  shows "live_unique t' (leases (put m l s))"
proof -
  have "live_unique t' (leases s)" using assms(2,3) by (rule live_unique_mono)
  then have "live_unique t' ((leases s)(m \<mapsto> l))"
  proof (rule live_unique_update)
    fix m' l'
    assume m': "leases s m' = Some l'" "m' \<noteq> m" "lease_expiry l' > t'"
    then have "lease_expiry l' > clk m'" using assms(4) by (meson le_less_trans)
    with m' assms(1,5) show "lease_ip l' \<noteq> lease_ip l" by (auto simp: taken_iff)
  qed
  with assms(1) show ?thesis by (simp add: leases_put)
qed

lemma live_unique_allocate:
  assumes "inv s" and "live_unique t (leases s)" and "t \<le> t'"
    and "fst (fresh clk net a s) = Some (lease_ip l)"
  shows "live_unique t' (leases (put m l (snd (fresh clk net a s))))"
proof -
  let ?s' = "snd (fresh clk net a s)"
  have "live_unique t (leases ?s')"
    using assms(1,2) by (auto simp: leases_fresh intro: live_unique_submap dest: evicted_le)
  then have "live_unique t' (leases ?s')" using assms(3) by (rule live_unique_mono)
  then have "live_unique t' ((leases ?s')(m \<mapsto> l))"
    by (rule live_unique_update)
      (use fresh_SomeD(3) [OF assms(1,4)] in \<open>auto simp: leased_ips_iff\<close>)
  with assms(1) show ?thesis by (simp add: leases_put inv_fresh)
qed

lemma live_unique_release:
  "inv s \<Longrightarrow> live_unique t (leases s) \<Longrightarrow> live_unique t (leases (snd (take_out m s)))"
  by (erule live_unique_submap) (auto simp: leases_take_out split: if_splits)

lemma live_unique_fresh:
  "inv s \<Longrightarrow> live_unique t (leases s) \<Longrightarrow> live_unique t (leases (snd (fresh clk net a s)))"
  by (erule live_unique_submap) (auto simp: leases_fresh dest: evicted_le)

lemma within_put:
  "inv s \<Longrightarrow> leases_within P (leases s) \<Longrightarrow> P (lease_ip l) \<Longrightarrow> leases_within P (leases (put m l s))"
  by (simp add: leases_put leases_within_update)

lemma within_release:
  "inv s \<Longrightarrow> leases_within P (leases s) \<Longrightarrow> leases_within P (leases (snd (take_out m s)))"
  by (erule leases_within_submap) (auto simp: leases_take_out split: if_splits)

lemma within_fresh:
  "inv s \<Longrightarrow> leases_within P (leases s) \<Longrightarrow> leases_within P (leases (snd (fresh clk net a s)))"
  by (erule leases_within_submap) (auto simp: leases_fresh dest: evicted_le)

lemma fresh_None_iff:
  "inv s \<Longrightarrow> fst (fresh clk net a s) = None \<longleftrightarrow>
     (\<forall>h \<in> set (net_hosts net). h = a \<or> h \<in> leased_ips (evicted clk (leases s)))"
  by (auto simp: fresh_eq find_None_iff)

end

interpretation lt: lease_store table_inv leases_of lease_table_insert lease_table_remove
  is_ip_taken_by_other next_available_ip
  by unfold_locales
    (simp_all add: table_inv_insert table_inv_remove table_inv_evict leases_of_insert
      leases_of_remove leases_of_evict taken_by_other_iff next_available_ip_eq)

section \<open>Properties\<close>

definition sample_lease_table :: lease_table where
  "sample_lease_table =
     lease_table_insert (MacAddr 2 0 0 0 0 1) \<lparr>lease_ip = 2, lease_expiry = 50\<rparr> lease_table_new"

lemma sample_lease_table_inv: "table_inv sample_lease_table"
  by (simp add: sample_lease_table_def lt.inv_put)

lemma leases_of_sample_lease_table:
  "leases_of sample_lease_table = [MacAddr 2 0 0 0 0 1 \<mapsto> \<lparr>lease_ip = 2, lease_expiry = 50\<rparr>]"
  by (simp add: sample_lease_table_def lt.leases_put)
    (simp add: leases_of_def lease_table_new_def hm.get_empty fun_eq_iff)



text \<open>
  Allocation after eviction: \<open>next_available_ip\<close> finds a host exactly when one is
  neither the server's address nor leased by a remaining entry; the host it finds is such a
  host and the first of them in the network's order; no entry of the table it leaves has it.
\<close>

theorem next_available_ip_first_free:
  assumes "table_inv T"
  shows "(fst (next_available_ip clk net s T) = None \<longleftrightarrow>
      (\<forall>h \<in> set (net_hosts net). h = s \<or> h \<in> leased_ips (evicted clk (leases_of T)))) \<and>
    (\<forall>h. fst (next_available_ip clk net s T) = Some h \<longleftrightarrow>
      (\<exists>before after. net_hosts net = before @ h # after \<and> h \<noteq> s \<and>
         h \<notin> leased_ips (evicted clk (leases_of T)) \<and>
         (\<forall>h' \<in> set before. h' = s \<or> h' \<in> leased_ips (evicted clk (leases_of T))))) \<and>
    (\<forall>h m l. fst (next_available_ip clk net s T) = Some h \<and>
      leases_of (snd (next_available_ip clk net s T)) m = Some l \<longrightarrow> lease_ip l \<noteq> h)"
proof (intro conjI allI impI)
  show "fst (next_available_ip clk net s T) = None \<longleftrightarrow>
      (\<forall>h \<in> set (net_hosts net). h = s \<or> h \<in> leased_ips (evicted clk (leases_of T)))"
    using assms by (rule lt.fresh_None_iff)
  show "fst (next_available_ip clk net s T) = Some h \<longleftrightarrow>
      (\<exists>before after. net_hosts net = before @ h # after \<and> h \<noteq> s \<and>
         h \<notin> leased_ips (evicted clk (leases_of T)) \<and>
         (\<forall>h' \<in> set before. h' = s \<or> h' \<in> leased_ips (evicted clk (leases_of T))))" for h
    unfolding lt.fresh_eq [OF assms] find_Some_split by auto
  show "lease_ip l \<noteq> h" if "fst (next_available_ip clk net s T) = Some h \<and>
      leases_of (snd (next_available_ip clk net s T)) m = Some l" for h m l
    using that lt.fresh_SomeD(3) [OF assms, of clk net s h] by (auto simp: leased_ips_iff)
qed

theorem next_available_ip_first_free_witness:
  "fst (next_available_ip (\<lambda>_. 10) \<lparr>net_addr = 1, net_netmask = 0, net_hosts = [1, 2, 3],
     net_contains = (\<lambda>_. True)\<rparr> 1 sample_lease_table) = Some 3"
proof -
  let ?net = "\<lparr>net_addr = 1, net_netmask = 0, net_hosts = [1, 2, 3], net_contains = (\<lambda>_. True)\<rparr>"
  have "net_hosts ?net = [1, 2] @ 3 # []" by simp
  moreover have "leased_ips (evicted (\<lambda>_. 10) (leases_of sample_lease_table)) = {2}"
    by (auto simp: leased_ips_iff evicted_Some_iff leases_of_sample_lease_table split: if_splits)
  ultimately have "\<exists>before after. net_hosts ?net = before @ 3 # after \<and> (3::ipv4) \<noteq> 1 \<and>
      3 \<notin> leased_ips (evicted (\<lambda>_. 10) (leases_of sample_lease_table)) \<and>
      (\<forall>h' \<in> set before. h' = 1 \<or> h' \<in> leased_ips (evicted (\<lambda>_. 10) (leases_of sample_lease_table)))"
    by (intro exI [of _ "[1, 2]"] exI [of _ "[]"]) simp
  with next_available_ip_first_free [OF sample_lease_table_inv] show ?thesis by blast
qed

text \<open>
  The documented agreement of map and index survives an insertion or removal for a
  client as long as no other client's entry has the address the client's entry had.
\<close>

theorem index_exact_unless_shared:
  assumes "table_inv T" and "index_complete T"
    and "\<And>old m' l'. leases_of T m = Some old \<Longrightarrow> leases_of T m' = Some l' \<Longrightarrow> m' \<noteq> m \<Longrightarrow>
           lease_ip l' \<noteq> lease_ip old"
  shows "allocated_ips (lease_table_insert m l T) =
      leased_ips (leases_of (lease_table_insert m l T)) \<and>
    allocated_ips (snd (lease_table_remove m T)) =
      leased_ips (leases_of (snd (lease_table_remove m T)))"
proof
  have complete: "\<And>m' l'. leases_of T m' = Some l' \<Longrightarrow> lease_ip l' \<in> allocated_ips T"
    using assms(2) by (auto simp: index_complete_def leased_ips_iff subset_iff)
  have "leased_ips ((leases_of T)(m \<mapsto> l)) \<subseteq> allocated_ips (lease_table_insert m l T)"
  proof
    fix a assume "a \<in> leased_ips ((leases_of T)(m \<mapsto> l))"
    then show "a \<in> allocated_ips (lease_table_insert m l T)"
      using assms(3) complete
      by (auto simp: leased_ips_iff lease_table_insert_def Let_def leases_of_def
          split: if_splits option.splits)
  qed
  with assms(1) table_inv_insert [OF assms(1), of m l]
  show "allocated_ips (lease_table_insert m l T) = leased_ips (leases_of (lease_table_insert m l T))"
    by (simp add: table_inv_def [of "lease_table_insert m l T"] leases_of_insert subset_antisym)
  have "leased_ips ((leases_of T)(m := None)) \<subseteq> allocated_ips (snd (lease_table_remove m T))"
  proof
    fix a assume "a \<in> leased_ips ((leases_of T)(m := None))"
    then show "a \<in> allocated_ips (snd (lease_table_remove m T))"
      using assms(3) complete
      by (auto simp: leased_ips_iff lease_table_remove_def leases_of_def
          split: if_splits option.splits)
  qed
  with assms(1) table_inv_remove [OF assms(1), of m]
  show "allocated_ips (snd (lease_table_remove m T)) =
      leased_ips (leases_of (snd (lease_table_remove m T)))"
    by (simp add: table_inv_def [of "snd _"] leases_of_remove subset_antisym)
qed

theorem index_exact_unless_shared_witness:
  "allocated_ips (snd (lease_table_remove (MacAddr 2 0 0 0 0 1) sample_lease_table)) =
     leased_ips (leases_of (snd (lease_table_remove (MacAddr 2 0 0 0 0 1) sample_lease_table)))"
proof (rule index_exact_unless_shared [THEN conjunct2, OF sample_lease_table_inv])
  show "index_complete sample_lease_table"
    unfolding index_complete_def leases_of_sample_lease_table
    by (auto simp: leased_ips_iff sample_lease_table_def lease_table_insert_def Let_def
        lease_table_new_def hm.get_empty split: if_splits)
qed (auto simp: leases_of_sample_lease_table split: if_splits)

end
