(* ===== verification/Dhcp_Message.thy ===== *)
theory Dhcp_Message
  imports Prelude
begin

text \<open>
  DHCP messages as the sources use them. The crate \<open>dhcproto\<close> is not part of this
  repository: a message is the record of what its accessors answer, its option set is the
  map keyed by option code that \<open>opts().get(code)\<close> and \<open>opts_mut().insert(opt)\<close> work on,
  and what the crate computes (the default message, \<open>set_chaddr\<close>, the wire codec) is the
  parameter record \<open>dhcproto\<close>.
\<close>

section \<open>Messages and options\<close>

datatype opcode = BootRequest | BootReply | UnknownOpcode u8

datatype message_type =
    Discover | Offer | Request | Decline | Ack | Nak | Release | Inform | OtherMessageType u8

datatype option_code =
    SubnetMaskCode | RouterCode | DomainNameServerCode | RequestedIpAddressCode
  | AddressLeaseTimeCode | MessageTypeCode | ServerIdentifierCode | ParameterRequestListCode
  | OtherCode u8

datatype dhcp_option =
    SubnetMask ipv4
  | Router "ipv4 list"
  | DomainNameServer "ipv4 list"
  | RequestedIpAddress ipv4
  | AddressLeaseTime u32
  | MessageType message_type
  | ServerIdentifier ipv4
  | ParameterRequestList "option_code list"
  | OtherOption u8 bytes

fun option_code_of :: "dhcp_option \<Rightarrow> option_code" where
  "option_code_of (SubnetMask _) = SubnetMaskCode"
| "option_code_of (Router _) = RouterCode"
| "option_code_of (DomainNameServer _) = DomainNameServerCode"
| "option_code_of (RequestedIpAddress _) = RequestedIpAddressCode"
| "option_code_of (AddressLeaseTime _) = AddressLeaseTimeCode"
| "option_code_of (MessageType _) = MessageTypeCode"
| "option_code_of (ServerIdentifier _) = ServerIdentifierCode"
| "option_code_of (ParameterRequestList _) = ParameterRequestListCode"
| "option_code_of (OtherOption c _) = OtherCode c"

text \<open>
  The flags field is represented by what \<open>flags().broadcast()\<close> answers, the only bit of it
  the sources look at or set.
\<close>

record dhcp_message =
  msg_opcode :: opcode
  msg_hlen :: u8
  msg_xid :: u32
  msg_broadcast :: bool
  msg_ciaddr :: ipv4
  msg_yiaddr :: ipv4
  msg_siaddr :: ipv4
  msg_giaddr :: ipv4
  msg_chaddr :: bytes
  msg_opts :: "(option_code, dhcp_option) hmap"

definition opts_get :: "dhcp_message \<Rightarrow> option_code \<Rightarrow> dhcp_option option" where
  "opts_get d c = hm_get (msg_opts d) c"

definition opts_insert :: "dhcp_option \<Rightarrow> dhcp_message \<Rightarrow> dhcp_message" where
  "opts_insert opt d = d\<lparr>msg_opts := hm_insert (option_code_of opt) opt (msg_opts d)\<rparr>"

record dhcproto =
  message_default :: dhcp_message
  set_chaddr :: "bytes \<Rightarrow> dhcp_message \<Rightarrow> dhcp_message"
  message_encode :: "dhcp_message \<Rightarrow> string + bytes"
  message_decode :: "bytes \<Rightarrow> dhcp_message option"

text \<open>
  What the sources rely on: a default message has no options, and \<open>set_chaddr\<close> stores the
  address and its length and nothing else.
\<close>

definition dhcproto_documented :: "dhcproto \<Rightarrow> bool" where
  "dhcproto_documented dp \<longleftrightarrow>
     msg_opts (message_default dp) = [] \<and>
     (\<forall>bs d. length bs \<le> 16 \<longrightarrow>
        set_chaddr dp bs d = d\<lparr>msg_chaddr := bs, msg_hlen := of_nat (length bs)\<rparr>)"

text \<open>
  The pattern both services use to read the message type: the option must be present under
  its code and be of the matching variant.
\<close>

definition message_type_of :: "dhcp_message \<Rightarrow> message_type option" where
  "message_type_of d = (case opts_get d MessageTypeCode of
     Some (MessageType mtype) \<Rightarrow> Some mtype
   | _ \<Rightarrow> None)"

section \<open>Option lookups\<close>

lemma opts_get_insert:
  "hm_ok (msg_opts d) \<Longrightarrow>
     opts_get (opts_insert opt d) c = (if c = option_code_of opt then Some opt else opts_get d c)"
  by (simp add: opts_get_def opts_insert_def hm.get_insert)

lemma opts_insert_ok [simp]: "hm_ok (msg_opts d) \<Longrightarrow> hm_ok (msg_opts (opts_insert opt d))"
  by (simp add: opts_insert_def)

lemma opts_insert_fields [simp]:
  "msg_opcode (opts_insert opt d) = msg_opcode d"
  "msg_hlen (opts_insert opt d) = msg_hlen d"
  "msg_xid (opts_insert opt d) = msg_xid d"
  "msg_broadcast (opts_insert opt d) = msg_broadcast d"
  "msg_ciaddr (opts_insert opt d) = msg_ciaddr d"
  "msg_yiaddr (opts_insert opt d) = msg_yiaddr d"
  "msg_siaddr (opts_insert opt d) = msg_siaddr d"
  "msg_giaddr (opts_insert opt d) = msg_giaddr d"
  "msg_chaddr (opts_insert opt d) = msg_chaddr d"
  by (simp_all add: opts_insert_def)

lemma dhcproto_default_opts [simp]:
  "dhcproto_documented dp \<Longrightarrow> msg_opts (message_default dp) = []"
  by (simp add: dhcproto_documented_def)

lemma dhcproto_set_chaddr:
  "dhcproto_documented dp \<Longrightarrow> length bs \<le> 16 \<Longrightarrow>
     set_chaddr dp bs d = d\<lparr>msg_chaddr := bs, msg_hlen := of_nat (length bs)\<rparr>"
  by (simp add: dhcproto_documented_def)

end
