(* ===== verification/Packet.thy ===== *)
theory Packet
  imports Dhcp_Message
begin

text \<open>
  Raw frames: \<open>build_raw_packet\<close> of \<open>src/packet.rs\<close> and \<open>parse_dhcp_payload\<close> of
  \<open>src/services/utils.rs\<close>.

  The packet views of the crate \<open>pnet\<close> are not part of this repository; they are the
  parameter record \<open>pnet\<close>. For each of the three layers it holds the minimum packet size,
  the header fields read from a buffer (\<open>view\<close>), a header written into a buffer in place
  (\<open>put\<close>; a setter is \<open>put\<close> of the view with one field replaced), the payload slice and
  the buffer whose payload slice was overwritten (what \<open>payload_mut()\<close> gives access to).
  \<open>pnet_documented\<close> collects what the crate documents of them.
\<close>

section \<open>The packet views of pnet\<close>

record eth_header =
  eth_destination :: mac
  eth_source :: mac
  eth_ethertype :: u16

record ip_header =
  ip_version :: "4 word"
  ip_header_length :: "4 word"
  ip_total_length :: u16
  ip_ttl :: u8
  ip_protocol :: u8
  ip_checksum :: u16
  ip_source :: ipv4
  ip_destination :: ipv4

record udp_header =
  udp_source :: u16
  udp_destination :: u16
  udp_length :: u16
  udp_checksum :: u16

record pnet =
  eth_min :: nat
  eth_view :: "bytes \<Rightarrow> eth_header"
  eth_put :: "eth_header \<Rightarrow> bytes \<Rightarrow> bytes"
  eth_payload :: "bytes \<Rightarrow> bytes"
  eth_payload_put :: "bytes \<Rightarrow> bytes \<Rightarrow> bytes"
  ip_min :: nat
  ip_view :: "bytes \<Rightarrow> ip_header"
  ip_put :: "ip_header \<Rightarrow> bytes \<Rightarrow> bytes"
  ip_payload :: "bytes \<Rightarrow> bytes"
  ip_payload_put :: "bytes \<Rightarrow> bytes \<Rightarrow> bytes"
  ipv4_checksum :: "bytes \<Rightarrow> u16"
  udp_min :: nat
  udp_view :: "bytes \<Rightarrow> udp_header"
  udp_put :: "udp_header \<Rightarrow> bytes \<Rightarrow> bytes"
  udp_payload :: "bytes \<Rightarrow> bytes"
  udp_set_payload :: "bytes \<Rightarrow> bytes \<Rightarrow> bytes option"

text \<open>\<open>XPacket::new(buf)\<close> answers \<open>None\<close> for a buffer below the minimum size.\<close>

definition eth_new :: "pnet \<Rightarrow> bytes \<Rightarrow> bytes option" where
  "eth_new pn b = (if eth_min pn \<le> length b then Some b else None)"

definition ip_new :: "pnet \<Rightarrow> bytes \<Rightarrow> bytes option" where
  "ip_new pn b = (if ip_min pn \<le> length b then Some b else None)"

definition udp_new :: "pnet \<Rightarrow> bytes \<Rightarrow> bytes option" where
  "udp_new pn b = (if udp_min pn \<le> length b then Some b else None)"

definition eth_documented :: "pnet \<Rightarrow> bool" where
  "eth_documented pn \<longleftrightarrow> eth_min pn = 14 \<and>
     (\<forall>b. 14 \<le> length b \<longrightarrow>
        length (eth_payload pn b) = length b - 14 \<and>
        (\<forall>h. eth_view pn (eth_put pn h b) = h \<and>
             length (eth_put pn h b) = length b \<and>
             eth_payload pn (eth_put pn h b) = eth_payload pn b) \<and>
        (\<forall>q. length q = length (eth_payload pn b) \<longrightarrow>
             eth_payload pn (eth_payload_put pn q b) = q \<and>
             eth_view pn (eth_payload_put pn q b) = eth_view pn b \<and>
             length (eth_payload_put pn q b) = length b))"

definition ip_documented :: "pnet \<Rightarrow> bool" where
  "ip_documented pn \<longleftrightarrow> ip_min pn = 20 \<and>
     (\<forall>b. 20 \<le> length b \<longrightarrow>
        (ip_header_length (ip_view pn b) = 5 \<and>
         20 \<le> unat (ip_total_length (ip_view pn b)) \<and>
         unat (ip_total_length (ip_view pn b)) \<le> length b \<longrightarrow>
           length (ip_payload pn b) = unat (ip_total_length (ip_view pn b)) - 20) \<and>
        (\<forall>h. ip_view pn (ip_put pn h b) = h \<and>
             length (ip_put pn h b) = length b \<and>
             (ip_header_length h = ip_header_length (ip_view pn b) \<and>
              ip_total_length h = ip_total_length (ip_view pn b) \<longrightarrow>
                ip_payload pn (ip_put pn h b) = ip_payload pn b)) \<and>
        (\<forall>q. length q = length (ip_payload pn b) \<longrightarrow>
             ip_payload pn (ip_payload_put pn q b) = q \<and>
             ip_view pn (ip_payload_put pn q b) = ip_view pn b \<and>
             length (ip_payload_put pn q b) = length b))"

definition udp_documented :: "pnet \<Rightarrow> bool" where
  "udp_documented pn \<longleftrightarrow> udp_min pn = 8 \<and>
     (\<forall>b. 8 \<le> length b \<longrightarrow>
        length (udp_payload pn b) = length b - 8 \<and>
        (\<forall>h. udp_view pn (udp_put pn h b) = h \<and>
             length (udp_put pn h b) = length b \<and>
             udp_payload pn (udp_put pn h b) = udp_payload pn b) \<and>
        (\<forall>q. length q = length (udp_payload pn b) \<longrightarrow>
             (\<exists>b'. udp_set_payload pn q b = Some b' \<and> udp_payload pn b' = q \<and>
                   udp_view pn b' = udp_view pn b \<and> length b' = length b)))"

definition pnet_documented :: "pnet \<Rightarrow> bool" where
  "pnet_documented pn \<longleftrightarrow> eth_documented pn \<and> ip_documented pn \<and> udp_documented pn"

section \<open>Setters\<close>

definition eth_set :: "pnet \<Rightarrow> (eth_header \<Rightarrow> eth_header) \<Rightarrow> bytes \<Rightarrow> bytes" where
  "eth_set pn f b = eth_put pn (f (eth_view pn b)) b"

definition ip_set :: "pnet \<Rightarrow> (ip_header \<Rightarrow> ip_header) \<Rightarrow> bytes \<Rightarrow> bytes" where
  "ip_set pn f b = ip_put pn (f (ip_view pn b)) b"

definition udp_set :: "pnet \<Rightarrow> (udp_header \<Rightarrow> udp_header) \<Rightarrow> bytes \<Rightarrow> bytes" where
  "udp_set pn f b = udp_put pn (f (udp_view pn b)) b"

definition ethertype_ipv4 :: u16 where "ethertype_ipv4 = 0x0800"
definition protocol_udp :: u8 where "protocol_udp = 17"

section \<open>Building a frame\<close>

text \<open>The UDP block: written into the payload slice of the IP packet.\<close>

definition write_udp :: "pnet \<Rightarrow> u16 \<Rightarrow> u16 \<Rightarrow> bytes \<Rightarrow> bytes \<Rightarrow> bytes outcome" where
  "write_udp pn src_port dest_port payload b =
     obind (unwrap (udp_new pn b)) (\<lambda>udp.
       let udp = udp_set pn (\<lambda>h. h\<lparr>udp_source := src_port\<rparr>) udp;
           udp = udp_set pn (\<lambda>h. h\<lparr>udp_destination := dest_port\<rparr>) udp;
           udp = udp_set pn (\<lambda>h. h\<lparr>udp_length := of_nat (udp_min pn + length payload)\<rparr>) udp
       in unwrap (udp_set_payload pn payload udp))"

text \<open>
  The IP block: header fields, then the UDP block in its payload. That block is an argument, as
  the integration test builds its frames the same way with another one.
\<close>

definition write_ip :: "pnet \<Rightarrow> (bytes \<Rightarrow> bytes outcome) \<Rightarrow> ipv4 \<Rightarrow> ipv4 \<Rightarrow> bytes \<Rightarrow> bytes \<Rightarrow> bytes outcome" where
  "write_ip pn udp_block src_ip dest_ip payload b =
     obind (unwrap (ip_new pn b)) (\<lambda>ip.
       let ip = ip_set pn (\<lambda>h. h\<lparr>ip_version := 4\<rparr>) ip;
           ip = ip_set pn (\<lambda>h. h\<lparr>ip_header_length := of_nat (ip_min pn div 4)\<rparr>) ip;
           ip = ip_set pn (\<lambda>h. h\<lparr>ip_total_length :=
                  of_nat (ip_min pn + udp_min pn + length payload)\<rparr>) ip;
           ip = ip_set pn (\<lambda>h. h\<lparr>ip_ttl := 64\<rparr>) ip;
           ip = ip_set pn (\<lambda>h. h\<lparr>ip_protocol := protocol_udp\<rparr>) ip;
           ip = ip_set pn (\<lambda>h. h\<lparr>ip_source := src_ip\<rparr>) ip;
           ip = ip_set pn (\<lambda>h. h\<lparr>ip_destination := dest_ip\<rparr>) ip
       in obind (udp_block (ip_payload pn ip)) (\<lambda>udp.
            Inr (ip_payload_put pn udp ip)))"

text \<open>The checksum block: a second pass over the frame just written.\<close>

definition write_checksum :: "pnet \<Rightarrow> bytes \<Rightarrow> bytes outcome" where
  "write_checksum pn buf =
     obind (unwrap (eth_new pn buf)) (\<lambda>eth.
     obind (unwrap (ip_new pn (eth_payload pn eth))) (\<lambda>ip.
       let checksum = ipv4_checksum pn ip
       in Inr (eth_payload_put pn (ip_set pn (\<lambda>h. h\<lparr>ip_checksum := checksum\<rparr>) ip) eth)))"

definition build_packet ::
  "pnet \<Rightarrow> (bytes \<Rightarrow> bytes outcome) \<Rightarrow> mac \<Rightarrow> mac \<Rightarrow> ipv4 \<Rightarrow> ipv4 \<Rightarrow> bytes \<Rightarrow> bytes outcome" where
  "build_packet pn udp_block src_mac dest_mac src_ip dest_ip payload =
     (let total_len = eth_min pn + ip_min pn + udp_min pn + length payload;
          buf = replicate total_len 0
      in obind (unwrap (eth_new pn buf)) (\<lambda>eth.
           let eth = eth_set pn (\<lambda>h. h\<lparr>eth_destination := dest_mac\<rparr>) eth;
               eth = eth_set pn (\<lambda>h. h\<lparr>eth_source := src_mac\<rparr>) eth;
               eth = eth_set pn (\<lambda>h. h\<lparr>eth_ethertype := ethertype_ipv4\<rparr>) eth
           in obind (write_ip pn udp_block src_ip dest_ip payload (eth_payload pn eth))
                (\<lambda>ip. write_checksum pn (eth_payload_put pn ip eth))))"

definition build_raw_packet ::
  "pnet \<Rightarrow> mac \<Rightarrow> mac \<Rightarrow> ipv4 \<Rightarrow> ipv4 \<Rightarrow> u16 \<Rightarrow> u16 \<Rightarrow> bytes \<Rightarrow> bytes outcome" where
  "build_raw_packet pn src_mac dest_mac src_ip dest_ip src_port dest_port payload =
     build_packet pn (write_udp pn src_port dest_port payload) src_mac dest_mac src_ip dest_ip payload"

section \<open>Parsing a frame\<close>

definition parse_dhcp_payload :: "pnet \<Rightarrow> dhcproto \<Rightarrow> bytes \<Rightarrow> u16 \<Rightarrow> dhcp_message option" where
  "parse_dhcp_payload pn dp buf expected_port =
     (case eth_new pn buf of None \<Rightarrow> None | Some eth_pkt \<Rightarrow>
      if eth_ethertype (eth_view pn eth_pkt) \<noteq> ethertype_ipv4 then None
      else (case ip_new pn (eth_payload pn eth_pkt) of None \<Rightarrow> None | Some ip_pkt \<Rightarrow>
      if ip_protocol (ip_view pn ip_pkt) \<noteq> protocol_udp then None
      else (case udp_new pn (ip_payload pn ip_pkt) of None \<Rightarrow> None | Some udp_pkt \<Rightarrow>
      if udp_destination (udp_view pn udp_pkt) \<noteq> expected_port then None
      else message_decode dp (udp_payload pn udp_pkt))))"

section \<open>Setter laws\<close>

lemma eth_min_14 [simp]: "pnet_documented pn \<Longrightarrow> eth_min pn = 14"
  by (simp add: pnet_documented_def eth_documented_def)

lemma ip_min_20 [simp]: "pnet_documented pn \<Longrightarrow> ip_min pn = 20"
  by (simp add: pnet_documented_def ip_documented_def)

lemma udp_min_8 [simp]: "pnet_documented pn \<Longrightarrow> udp_min pn = 8"
  by (simp add: pnet_documented_def udp_documented_def)

lemma eth_set_laws [wire_simps]:
  assumes "pnet_documented pn" and "14 \<le> length b"
  shows "eth_view pn (eth_set pn f b) = f (eth_view pn b)"
    and "length (eth_set pn f b) = length b"
    and "eth_payload pn (eth_set pn f b) = eth_payload pn b"
    and "length (eth_payload pn b) = length b - 14"
  using assms by (auto simp: eth_set_def pnet_documented_def eth_documented_def)

lemma eth_payload_put_laws [wire_simps]:
  assumes "pnet_documented pn" and "14 \<le> length b" and "length q = length b - 14"
  shows "eth_payload pn (eth_payload_put pn q b) = q"
    and "eth_view pn (eth_payload_put pn q b) = eth_view pn b"
    and "length (eth_payload_put pn q b) = length b"
  using assms by (auto simp: pnet_documented_def eth_documented_def)

lemma ip_set_laws [wire_simps]:
  assumes "pnet_documented pn" and "20 \<le> length b"
  shows "ip_view pn (ip_set pn f b) = f (ip_view pn b)"
    and "length (ip_set pn f b) = length b"
  using assms by (auto simp: ip_set_def pnet_documented_def ip_documented_def)

lemma ip_set_payload_law:
  assumes "pnet_documented pn" and "20 \<le> length b"
    and "ip_header_length (f (ip_view pn b)) = ip_header_length (ip_view pn b)"
    and "ip_total_length (f (ip_view pn b)) = ip_total_length (ip_view pn b)"
  shows "ip_payload pn (ip_set pn f b) = ip_payload pn b"
  using assms by (auto simp: ip_set_def pnet_documented_def ip_documented_def)

lemma ip_payload_length:
  assumes "pnet_documented pn" and "20 \<le> length b"
    and "ip_header_length (ip_view pn b) = 5"
    and "unat (ip_total_length (ip_view pn b)) = length b"
  shows "length (ip_payload pn b) = length b - 20"
  using assms by (auto simp: pnet_documented_def ip_documented_def)

lemma ip_payload_put_laws [wire_simps]:
  assumes "pnet_documented pn" and "20 \<le> length b" and "length q = length (ip_payload pn b)"
  shows "ip_payload pn (ip_payload_put pn q b) = q"
    and "ip_view pn (ip_payload_put pn q b) = ip_view pn b"
    and "length (ip_payload_put pn q b) = length b"
  using assms by (auto simp: pnet_documented_def ip_documented_def)

lemma udp_set_laws [wire_simps]:
  assumes "pnet_documented pn" and "8 \<le> length b"
  shows "udp_view pn (udp_set pn f b) = f (udp_view pn b)"
    and "length (udp_set pn f b) = length b"
    and "udp_payload pn (udp_set pn f b) = udp_payload pn b"
    and "length (udp_payload pn b) = length b - 8"
  using assms by (auto simp: udp_set_def pnet_documented_def udp_documented_def)

lemma udp_set_payload_law:
  assumes "pnet_documented pn" and "8 \<le> length b" and "length q = length b - 8"
  obtains b' where "udp_set_payload pn q b = Some b'" "udp_payload pn b' = q"
    "udp_view pn b' = udp_view pn b" "length b' = length b"
  using assms unfolding pnet_documented_def udp_documented_def by metis

section \<open>What the blocks write\<close>

definition carries_udp :: "pnet \<Rightarrow> u16 \<Rightarrow> u16 \<Rightarrow> bytes \<Rightarrow> bytes \<Rightarrow> bool" where
  "carries_udp pn src_port dest_port payload u \<longleftrightarrow>
     length u = 8 + length payload \<and> udp_payload pn u = payload \<and>
     udp_source (udp_view pn u) = src_port \<and> udp_destination (udp_view pn u) = dest_port \<and>
     udp_length (udp_view pn u) = of_nat (8 + length payload)"

definition carries_ip :: "pnet \<Rightarrow> ipv4 \<Rightarrow> ipv4 \<Rightarrow> u16 \<Rightarrow> u16 \<Rightarrow> bytes \<Rightarrow> bytes \<Rightarrow> bool" where
  "carries_ip pn src_ip dest_ip src_port dest_port payload i \<longleftrightarrow>
     length i = 28 + length payload \<and>
     ip_version (ip_view pn i) = 4 \<and> ip_header_length (ip_view pn i) = 5 \<and>
     unat (ip_total_length (ip_view pn i)) = length i \<and>
     ip_ttl (ip_view pn i) = 64 \<and> ip_protocol (ip_view pn i) = protocol_udp \<and>
     ip_source (ip_view pn i) = src_ip \<and> ip_destination (ip_view pn i) = dest_ip \<and>
     carries_udp pn src_port dest_port payload (ip_payload pn i)"

lemma write_udp_ok:
  assumes pn: "pnet_documented pn" and len: "length b = 8 + length payload"
  shows "\<exists>u. write_udp pn src_port dest_port payload b = Inr u \<and>
             carries_udp pn src_port dest_port payload u"
proof -
  define b3 where "b3 = udp_set pn (\<lambda>h. h\<lparr>udp_length := of_nat (udp_min pn + length payload)\<rparr>)
    (udp_set pn (\<lambda>h. h\<lparr>udp_destination := dest_port\<rparr>)
      (udp_set pn (\<lambda>h. h\<lparr>udp_source := src_port\<rparr>) b))"
  have b3: "length b3 = length b"
    "udp_source (udp_view pn b3) = src_port" "udp_destination (udp_view pn b3) = dest_port"
    "udp_length (udp_view pn b3) = of_nat (8 + length payload)"
    using pn len by (simp_all add: b3_def wire_simps)
  with len have "8 \<le> length b3" "length payload = length b3 - 8" by simp_all
  from udp_set_payload_law [OF pn this] obtain u where u: "udp_set_payload pn payload b3 = Some u"
    "udp_payload pn u = payload" "udp_view pn u = udp_view pn b3" "length u = length b3"
    by blast
  with pn len b3 have "write_udp pn src_port dest_port payload b = Inr u"
    by (simp add: write_udp_def udp_new_def Let_def b3_def)
  with u b3 len show ?thesis by (simp add: carries_udp_def)
qed

lemma write_ip_ok:
  assumes pn: "pnet_documented pn" and len: "length b = 28 + length payload"
    and fits: "length payload \<le> 65507"
    and udp: "\<And>b. length b = 8 + length payload \<Longrightarrow>
      \<exists>u. udp_block b = Inr u \<and> carries_udp pn src_port dest_port payload u"
  shows "\<exists>i. write_ip pn udp_block src_ip dest_ip payload b = Inr i \<and>
             carries_ip pn src_ip dest_ip src_port dest_port payload i"
proof -
  let ?set = "ip_set pn"
  define b3 where "b3 = ?set (\<lambda>h. h\<lparr>ip_total_length := of_nat (ip_min pn + udp_min pn + length payload)\<rparr>)
    (?set (\<lambda>h. h\<lparr>ip_header_length := of_nat (ip_min pn div 4)\<rparr>) (?set (\<lambda>h. h\<lparr>ip_version := 4\<rparr>) b))"
  define b7 where "b7 = ?set (\<lambda>h. h\<lparr>ip_destination := dest_ip\<rparr>) (?set (\<lambda>h. h\<lparr>ip_source := src_ip\<rparr>)
    (?set (\<lambda>h. h\<lparr>ip_protocol := protocol_udp\<rparr>) (?set (\<lambda>h. h\<lparr>ip_ttl := 64\<rparr>) b3)))"
  have len3: "length b3 = length b" using pn len by (simp add: b3_def wire_simps)
  have total: "unat (of_nat (28 + length payload) :: u16) = 28 + length payload"
    using fits by (simp add: unat_of_nat take_bit_eq_mod del: of_nat_add)
  have view: "ip_version (ip_view pn b7) = 4" "ip_header_length (ip_view pn b7) = 5"
    "unat (ip_total_length (ip_view pn b7)) = length b" "ip_ttl (ip_view pn b7) = 64"
    "ip_protocol (ip_view pn b7) = protocol_udp" "ip_source (ip_view pn b7) = src_ip"
    "ip_destination (ip_view pn b7) = dest_ip"
    using pn len total by (simp_all add: b7_def b3_def wire_simps)
  have len7: "length b7 = length b" using pn len len3 by (simp add: b7_def wire_simps)
  then have lenp: "length (ip_payload pn b7) = 8 + length payload"
    using pn len view ip_payload_length [of pn b7] by simp
  from udp [OF lenp] obtain u where
    u: "udp_block (ip_payload pn b7) = Inr u"
    and cu: "carries_udp pn src_port dest_port payload u" by blast
  have "write_ip pn udp_block src_ip dest_ip payload b = Inr (ip_payload_put pn u b7)"
    using pn len u by (simp add: write_ip_def ip_new_def Let_def b7_def b3_def)
  moreover have "carries_ip pn src_ip dest_ip src_port dest_port payload (ip_payload_put pn u b7)"
    using pn len len7 lenp view cu by (simp add: carries_ip_def wire_simps carries_udp_def)
  ultimately show ?thesis by blast
qed

lemma write_checksum_ok:
  assumes pn: "pnet_documented pn" and len: "14 \<le> length b"
    and ip: "carries_ip pn src_ip dest_ip src_port dest_port payload (eth_payload pn b)"
  shows "\<exists>b'. write_checksum pn b = Inr b' \<and> length b' = length b \<and>
              eth_view pn b' = eth_view pn b \<and>
              ip_checksum (ip_view pn (eth_payload pn b')) = ipv4_checksum pn (eth_payload pn b) \<and>
              carries_ip pn src_ip dest_ip src_port dest_port payload (eth_payload pn b')"
proof -
  let ?ip = "eth_payload pn b"
  let ?ip' = "ip_set pn (\<lambda>h. h\<lparr>ip_checksum := ipv4_checksum pn ?ip\<rparr>) ?ip"
  have l: "20 \<le> length ?ip" "length ?ip = length b - 14"
    using ip pn len by (simp_all add: carries_ip_def wire_simps)
  then have "write_checksum pn b = Inr (eth_payload_put pn ?ip' b)"
    using pn len by (simp add: write_checksum_def eth_new_def ip_new_def)
  moreover have "ip_payload pn ?ip' = ip_payload pn ?ip"
    using pn l by (simp add: ip_set_payload_law)
  ultimately show ?thesis
    using pn len ip l by (simp add: wire_simps carries_ip_def)
qed

lemma build_packet_ok:
  assumes pn: "pnet_documented pn" and fits: "length payload \<le> 65507"
    and udp: "\<And>b. length b = 8 + length payload \<Longrightarrow>
      \<exists>u. udp_block b = Inr u \<and> carries_udp pn src_port dest_port payload u"
  shows "\<exists>frame. build_packet pn udp_block src_mac dest_mac src_ip dest_ip payload
           = Inr frame \<and> length frame = 42 + length payload \<and>
         eth_view pn frame = \<lparr>eth_destination = dest_mac, eth_source = src_mac,
                              eth_ethertype = ethertype_ipv4\<rparr> \<and>
         carries_ip pn src_ip dest_ip src_port dest_port payload (eth_payload pn frame)"
proof -
  let ?b = "replicate (42 + length payload) 0"
  define b3 where "b3 = eth_set pn (\<lambda>h. h\<lparr>eth_ethertype := ethertype_ipv4\<rparr>)
    (eth_set pn (\<lambda>h. h\<lparr>eth_source := src_mac\<rparr>) (eth_set pn (\<lambda>h. h\<lparr>eth_destination := dest_mac\<rparr>) ?b))"
  have b3: "length b3 = 42 + length payload"
    "eth_view pn b3 = \<lparr>eth_destination = dest_mac, eth_source = src_mac,
                       eth_ethertype = ethertype_ipv4\<rparr>"
    using pn by (simp_all add: b3_def wire_simps)
  then have "length (eth_payload pn b3) = 28 + length payload" using pn by (simp add: wire_simps)
  from write_ip_ok [where udp_block = udp_block, OF pn this fits udp] obtain i where
    i: "write_ip pn udp_block src_ip dest_ip payload (eth_payload pn b3) = Inr i"
    and ci: "carries_ip pn src_ip dest_ip src_port dest_port payload i" by blast
  let ?b4 = "eth_payload_put pn i b3"
  have b4: "eth_payload pn ?b4 = i" "eth_view pn ?b4 = eth_view pn b3" "length ?b4 = length b3"
    using pn b3 ci by (simp_all add: wire_simps carries_ip_def)
  moreover have "build_packet pn udp_block src_mac dest_mac src_ip dest_ip payload
      = write_checksum pn ?b4"
    using pn i by (simp add: build_packet_def eth_new_def Let_def b3_def)
  ultimately show ?thesis
    using write_checksum_ok [OF pn, of ?b4 src_ip dest_ip src_port dest_port payload] ci b3 by auto
qed

lemma build_raw_packet_ok:
  assumes pn: "pnet_documented pn" and fits: "length payload \<le> 65507"
  shows "\<exists>frame. build_raw_packet pn src_mac dest_mac src_ip dest_ip src_port dest_port payload
           = Inr frame \<and> length frame = 42 + length payload \<and>
         eth_view pn frame = \<lparr>eth_destination = dest_mac, eth_source = src_mac,
                              eth_ethertype = ethertype_ipv4\<rparr> \<and>
         carries_ip pn src_ip dest_ip src_port dest_port payload (eth_payload pn frame)"
  unfolding build_raw_packet_def by (rule build_packet_ok [OF assms]) (rule write_udp_ok [OF pn])

section \<open>Frames parse back\<close>

lemma parse_carried:
  assumes pn: "pnet_documented pn" and len: "14 \<le> length frame"
    and ty: "eth_ethertype (eth_view pn frame) = ethertype_ipv4"
    and ip: "carries_ip pn src_ip dest_ip src_port dest_port payload (eth_payload pn frame)"
  shows "parse_dhcp_payload pn dp frame port =
           (if port = dest_port then message_decode dp payload else None)"
  using assms by (simp add: parse_dhcp_payload_def eth_new_def ip_new_def udp_new_def
      carries_ip_def carries_udp_def)

text \<open>
  C29: \<open>build_raw_packet\<close> does not panic on a payload that fits a UDP datagram: the frame has
  42 header bytes, carries the given MACs, a version 4 header of 20 bytes whose total length
  is exact and whose checksum is the one computed over the header just written, and
  \<open>parse_dhcp_payload\<close> on the destination port reads the payload back (on any other port,
  nothing).
\<close>

theorem build_raw_packet_roundtrip:
  assumes "pnet_documented pn" and "length payload \<le> 65507"
  shows "\<exists>frame. build_raw_packet pn src_mac dest_mac src_ip dest_ip src_port dest_port payload
           = Inr frame \<and>
         length frame = 42 + length payload \<and>
         eth_source (eth_view pn frame) = src_mac \<and>
         eth_destination (eth_view pn frame) = dest_mac \<and>
         ip_source (ip_view pn (eth_payload pn frame)) = src_ip \<and>
         ip_destination (ip_view pn (eth_payload pn frame)) = dest_ip \<and>
         unat (ip_total_length (ip_view pn (eth_payload pn frame))) = 28 + length payload \<and>
         (\<forall>port. parse_dhcp_payload pn dp frame port =
            (if port = dest_port then message_decode dp payload else None))"
proof -
  from build_raw_packet_ok [OF assms] obtain frame where
    f: "build_raw_packet pn src_mac dest_mac src_ip dest_ip src_port dest_port payload = Inr frame"
      "length frame = 42 + length payload"
      "eth_view pn frame = \<lparr>eth_destination = dest_mac, eth_source = src_mac,
                            eth_ethertype = ethertype_ipv4\<rparr>"
    and ip: "carries_ip pn src_ip dest_ip src_port dest_port payload (eth_payload pn frame)"
    by blast
  have "\<forall>port. parse_dhcp_payload pn dp frame port =
      (if port = dest_port then message_decode dp payload else None)"
    using f ip parse_carried [OF assms(1) _ _ ip] by simp
  with f ip show ?thesis by (simp add: carries_ip_def)
qed

end
