(* ===== verification/Reference_Libs.thy ===== *)
theory Reference_Libs
  imports Packet
begin

text \<open>
  One concrete value for each third-party parameter of the model, used by the witnesses: it
  shows that what is assumed of the crates can hold. \<open>pnet_wire\<close> reads and writes the
  header layouts of Ethernet II, RFC 791 and RFC 768 byte by byte and satisfies
  \<open>pnet_documented\<close>; \<open>scripted_dhcproto f\<close> is a codec that decodes the one-byte payload \<open>x\<close> to the
  message \<open>f x\<close> and satisfies \<open>dhcproto_documented\<close>. No property of the router is stated
  about these values only.
\<close>

section \<open>Byte access\<close>

definition u16_at :: "bytes \<Rightarrow> nat \<Rightarrow> u16" where
  "u16_at b i = u16_from_be_bytes (b ! i) (b ! (i + 1))"

definition u32_at :: "bytes \<Rightarrow> nat \<Rightarrow> u32" where
  "u32_at b i = ipv4_new (b ! i) (b ! (i + 1)) (b ! (i + 2)) (b ! (i + 3))"

definition mac_at :: "bytes \<Rightarrow> nat \<Rightarrow> mac" where
  "mac_at b i = MacAddr (b ! i) (b ! (i + 1)) (b ! (i + 2)) (b ! (i + 3)) (b ! (i + 4)) (b ! (i + 5))"

definition nibbles :: "4 word \<Rightarrow> 4 word \<Rightarrow> u8" where
  "nibbles hi lo = push_bit 4 (ucast hi) OR ucast lo"

lemma nibbles_hi [simp]: "ucast (drop_bit 4 (nibbles hi lo)) = hi"
  unfolding nibbles_def by (rule bit_word_eqI) (auto simp: bit_simps impossible_bit)

lemma nibbles_lo [simp]: "ucast (nibbles hi lo) = lo"
  unfolding nibbles_def by (rule bit_word_eqI) (auto simp: bit_simps)

section \<open>The three layers\<close>

definition wire_eth_view :: "bytes \<Rightarrow> eth_header" where
  "wire_eth_view b =
     \<lparr>eth_destination = mac_at b 0, eth_source = mac_at b 6, eth_ethertype = u16_at b 12\<rparr>"

definition wire_eth_put :: "eth_header \<Rightarrow> bytes \<Rightarrow> bytes" where
  "wire_eth_put h b = mac_octets (eth_destination h) @ mac_octets (eth_source h) @
     u16_to_be_bytes (eth_ethertype h) @ drop 14 b"

definition wire_ip_view :: "bytes \<Rightarrow> ip_header" where
  "wire_ip_view b =
     \<lparr>ip_version = ucast (drop_bit 4 (b ! 0)), ip_header_length = ucast (b ! 0),
      ip_total_length = u16_at b 2, ip_ttl = b ! 8, ip_protocol = b ! 9,
      ip_checksum = u16_at b 10, ip_source = u32_at b 12, ip_destination = u32_at b 16\<rparr>"

definition wire_ip_put :: "ip_header \<Rightarrow> bytes \<Rightarrow> bytes" where
  "wire_ip_put h b =
     [nibbles (ip_version h) (ip_header_length h), b ! 1] @ u16_to_be_bytes (ip_total_length h) @
     [b ! 4, b ! 5, b ! 6, b ! 7, ip_ttl h, ip_protocol h] @ u16_to_be_bytes (ip_checksum h) @
     u32_to_be_bytes (ip_source h) @ u32_to_be_bytes (ip_destination h) @ drop 20 b"

definition wire_ip_start :: "bytes \<Rightarrow> nat" where
  "wire_ip_start b = max 20 (4 * unat (ip_header_length (wire_ip_view b)))"

definition wire_ip_payload :: "bytes \<Rightarrow> bytes" where
  "wire_ip_payload b =
     take (unat (ip_total_length (wire_ip_view b)) - 4 * unat (ip_header_length (wire_ip_view b)))
       (drop (wire_ip_start b) b)"

definition wire_ip_payload_put :: "bytes \<Rightarrow> bytes \<Rightarrow> bytes" where
  "wire_ip_payload_put q b =
     take (wire_ip_start b) b @ q @ drop (wire_ip_start b + length q) b"

fun sum_words :: "bytes \<Rightarrow> nat" where
  "sum_words (a # b # bs) = unat (u16_from_be_bytes a b) + sum_words bs"
| "sum_words [a] = unat (u16_from_be_bytes a 0)"
| "sum_words [] = 0"

definition wire_ipv4_checksum :: "bytes \<Rightarrow> u16" where
  "wire_ipv4_checksum b =
     (let header = take (wire_ip_start b) b;
          s = sum_words (take 10 header @ drop 12 header);
          s = s mod 65536 + s div 65536;
          s = s mod 65536 + s div 65536
      in NOT (of_nat s))"

definition wire_udp_view :: "bytes \<Rightarrow> udp_header" where
  "wire_udp_view b =
     \<lparr>udp_source = u16_at b 0, udp_destination = u16_at b 2, udp_length = u16_at b 4,
      udp_checksum = u16_at b 6\<rparr>"

definition wire_udp_put :: "udp_header \<Rightarrow> bytes \<Rightarrow> bytes" where
  "wire_udp_put h b = u16_to_be_bytes (udp_source h) @ u16_to_be_bytes (udp_destination h) @
     u16_to_be_bytes (udp_length h) @ u16_to_be_bytes (udp_checksum h) @ drop 8 b"

definition wire_udp_set_payload :: "bytes \<Rightarrow> bytes \<Rightarrow> bytes option" where
  "wire_udp_set_payload q b =
     (if length q + 8 \<le> length b then Some (take 8 b @ q @ drop (8 + length q) b) else None)"

definition pnet_wire :: pnet where
  "pnet_wire =
     \<lparr>eth_min = 14, eth_view = wire_eth_view, eth_put = wire_eth_put, eth_payload = drop 14,
      eth_payload_put = (\<lambda>q b. take 14 b @ q),
      ip_min = 20, ip_view = wire_ip_view, ip_put = wire_ip_put, ip_payload = wire_ip_payload,
      ip_payload_put = wire_ip_payload_put, ipv4_checksum = wire_ipv4_checksum,
      udp_min = 8, udp_view = wire_udp_view, udp_put = wire_udp_put, udp_payload = drop 8,
      udp_set_payload = wire_udp_set_payload\<rparr>"

lemma wire_eth_documented: "eth_documented pnet_wire"
proof -
  have view_put: "wire_eth_view (wire_eth_put h b) = h" for h b
    by (cases "eth_destination h"; cases "eth_source h")
      (simp add: wire_eth_view_def wire_eth_put_def mac_at_def u16_at_def u16_to_be_bytes_def)
  have frame: "wire_eth_view (take 14 b @ q) = wire_eth_view b" if "14 \<le> length b" for b q
    using that by (simp add: wire_eth_view_def mac_at_def u16_at_def nth_append)
  show ?thesis
    by (simp add: eth_documented_def pnet_wire_def view_put frame)
      (auto simp: wire_eth_put_def u16_to_be_bytes_def)
qed

lemma wire_udp_documented: "udp_documented pnet_wire"
proof -
  have view_put: "wire_udp_view (wire_udp_put h b) = h" for h b
    by (simp add: wire_udp_view_def wire_udp_put_def u16_at_def u16_to_be_bytes_def)
  have frame: "wire_udp_view (take 8 b @ q) = wire_udp_view b" if "8 \<le> length b" for b q
    using that by (simp add: wire_udp_view_def u16_at_def nth_append)
  show ?thesis
    by (simp add: udp_documented_def pnet_wire_def view_put wire_udp_set_payload_def frame)
      (auto simp: wire_udp_put_def u16_to_be_bytes_def)
qed

text \<open>An IPv4 header is written and read back, and only the first 20 bytes change.\<close>

lemma wire_ip_view_put [simp]: "wire_ip_view (wire_ip_put h b) = h"
  by (simp add: wire_ip_view_def wire_ip_put_def u16_at_def u32_at_def u16_to_be_bytes_def
      u32_to_be_bytes_def)

lemma length_wire_ip_put [simp]: "20 \<le> length b \<Longrightarrow> length (wire_ip_put h b) = length b"
  by (simp add: wire_ip_put_def u16_to_be_bytes_def u32_to_be_bytes_def)

lemma drop_wire_ip_put:
  assumes "20 \<le> n"
  shows "drop n (wire_ip_put h b) = drop n b"
proof -
  have "drop n (wire_ip_put h b) = drop (n - 20) (drop 20 (wire_ip_put h b))"
    using assms by simp
  also have "drop 20 (wire_ip_put h b) = drop 20 b"
    by (simp add: wire_ip_put_def u16_to_be_bytes_def u32_to_be_bytes_def)
  finally show ?thesis using assms by simp
qed

lemma wire_ip_start_ge [simp]: "20 \<le> wire_ip_start b"
  by (simp add: wire_ip_start_def)

lemma wire_ip_payload_of_put:
  "ip_header_length h = ip_header_length (wire_ip_view b) \<Longrightarrow>
     ip_total_length h = ip_total_length (wire_ip_view b) \<Longrightarrow>
     wire_ip_payload (wire_ip_put h b) = wire_ip_payload b"
  by (simp add: wire_ip_payload_def wire_ip_start_def drop_wire_ip_put)

lemma wire_ip_view_payload_put:
  assumes "20 \<le> length b"
  shows "wire_ip_view (wire_ip_payload_put q b) = wire_ip_view b"
proof -
  have "wire_ip_payload_put q b ! i = b ! i" if "i < 20" for i
    using that assms wire_ip_start_ge [of b]
    by (simp add: wire_ip_payload_put_def nth_append del: wire_ip_start_ge)
  then show ?thesis by (simp add: wire_ip_view_def u16_at_def u32_at_def)
qed

lemma wire_ip_payload_put:
  assumes l: "20 \<le> length b" and q: "length q = length (wire_ip_payload b)"
  shows "wire_ip_payload (wire_ip_payload_put q b) = q \<and>
    length (wire_ip_payload_put q b) = length b"
proof -
  let ?s = "wire_ip_start b"
  let ?n = "unat (ip_total_length (wire_ip_view b)) - 4 * unat (ip_header_length (wire_ip_view b))"
  let ?b' = "wire_ip_payload_put q b"
  have lq: "length q = min ?n (length b - ?s)"
    using q by (simp add: wire_ip_payload_def min.commute)
  have "wire_ip_start ?b' = ?s" by (simp add: wire_ip_start_def wire_ip_view_payload_put [OF l])
  then have pay: "wire_ip_payload ?b' = take ?n (drop ?s ?b')"
    by (simp add: wire_ip_payload_def wire_ip_view_payload_put [OF l])
  show ?thesis
  proof (cases "?s \<le> length b")
    case True
    then have "drop ?s ?b' = q @ drop (?s + length q) b" by (simp add: wire_ip_payload_put_def)
    with pay lq have "wire_ip_payload ?b' = q" by (auto simp: min_def split: if_splits)
    moreover have "length ?b' = length b"
      using True lq by (simp add: wire_ip_payload_put_def)
    ultimately show ?thesis ..
  next
    case False
    with lq have "q = []" by simp
    with False pay show ?thesis by (simp add: wire_ip_payload_put_def)
  qed
qed

lemma length_wire_ip_payload:
  "ip_header_length (wire_ip_view b) = 5 \<Longrightarrow> unat (ip_total_length (wire_ip_view b)) \<le> length b \<Longrightarrow>
     length (wire_ip_payload b) = unat (ip_total_length (wire_ip_view b)) - 20"
  by (simp add: wire_ip_payload_def wire_ip_start_def)

lemma wire_ip_documented: "ip_documented pnet_wire"
  by (simp add: ip_documented_def pnet_wire_def wire_ip_payload_of_put length_wire_ip_payload
      wire_ip_view_payload_put wire_ip_payload_put)

lemma pnet_wire_documented: "pnet_documented pnet_wire"
  by (simp add: pnet_documented_def wire_eth_documented wire_ip_documented wire_udp_documented)

section \<open>A scripted codec\<close>

definition blank_message :: dhcp_message where
  "blank_message =
     \<lparr>msg_opcode = BootRequest, msg_hlen = 6, msg_xid = 0, msg_broadcast = False, msg_ciaddr = 0,
      msg_yiaddr = 0, msg_siaddr = 0, msg_giaddr = 0, msg_chaddr = replicate 6 0, msg_opts = []\<rparr>"

definition scripted_dhcproto :: "(u8 \<Rightarrow> dhcp_message) \<Rightarrow> dhcproto" where
  "scripted_dhcproto f =
     \<lparr>message_default = blank_message,
      set_chaddr = (\<lambda>bs m. m\<lparr>msg_chaddr := bs, msg_hlen := of_nat (length bs)\<rparr>),
      message_encode = (\<lambda>m. Inr [0]),
      message_decode = (\<lambda>bs. case bs of [x] \<Rightarrow> Some (f x) | _ \<Rightarrow> None)\<rparr>"

lemma scripted_dhcproto_documented: "dhcproto_documented (scripted_dhcproto f)"
  by (simp add: dhcproto_documented_def scripted_dhcproto_def blank_message_def)

section \<open>A broadcast frame to the server port\<close>

definition sample_frame :: "mac \<Rightarrow> u8 \<Rightarrow> bytes" where
  "sample_frame m x = mac_octets mac_broadcast @ mac_octets m @ [8, 0] @
     [0x45, 0, 0, 29, 0, 0, 0, 0, 64, 17, 0, 0, 0, 0, 0, 0, 255, 255, 255, 255] @
     [0, 68, 0, 67, 0, 9, 0, 0] @ [x]"

lemma length_sample_frame [simp]: "length (sample_frame m x) = 43"
  by (simp add: sample_frame_def)

lemma sample_frame_source: "eth_source (eth_view pnet_wire (sample_frame m x)) = m"
  by (cases m) (simp add: sample_frame_def pnet_wire_def wire_eth_view_def mac_at_def
      mac_broadcast_def)

lemma sample_frame_parses:
  "parse_dhcp_payload pnet_wire (scripted_dhcproto f) (sample_frame m x) 67 = Some (f x)"
proof -
  let ?f = "sample_frame m x"
  have "drop 14 ?f = [0x45, 0, 0, 29, 0, 0, 0, 0, 64, 17, 0, 0, 0, 0, 0, 0, 255, 255, 255, 255,
      0, 68, 0, 67, 0, 9, 0, 0, x]"
    by (cases m) (simp add: sample_frame_def mac_broadcast_def)
  moreover have "eth_ethertype (wire_eth_view ?f) = ethertype_ipv4"
    by (cases m) (simp add: sample_frame_def mac_broadcast_def wire_eth_view_def u16_at_def
        u16_from_be_bytes_def ethertype_ipv4_def)
  ultimately show ?thesis
    by (simp add: parse_dhcp_payload_def pnet_wire_def eth_new_def ip_new_def udp_new_def
        wire_ip_view_def protocol_udp_def wire_ip_payload_def wire_ip_start_def u16_at_def
        u16_from_be_bytes_def wire_udp_view_def scripted_dhcproto_def)
qed

section \<open>Frames built with these libraries\<close>

theorem build_raw_packet_roundtrip_witness:
  "\<exists>frame. build_raw_packet pnet_wire (MacAddr 2 0 0 0 0 1) mac_broadcast (ipv4_new 192 168 1 1)
       ipv4_broadcast 67 68 [7] = Inr frame \<and> length frame = 43 \<and>
     parse_dhcp_payload pnet_wire (scripted_dhcproto (\<lambda>_. blank_message)) frame 68 =
       Some blank_message"
proof -
  obtain frame where "build_raw_packet pnet_wire (MacAddr 2 0 0 0 0 1) mac_broadcast
      (ipv4_new 192 168 1 1) ipv4_broadcast 67 68 [7] = Inr frame" "length frame = 42 + length [7 :: u8]"
    "\<forall>port. parse_dhcp_payload pnet_wire (scripted_dhcproto (\<lambda>_. blank_message)) frame port =
      (if port = 68 then message_decode (scripted_dhcproto (\<lambda>_. blank_message)) [7] else None)"
    using build_raw_packet_roundtrip [OF pnet_wire_documented, of "[7]" "MacAddr 2 0 0 0 0 1"
        mac_broadcast "ipv4_new 192 168 1 1" ipv4_broadcast 67 68
        "scripted_dhcproto (\<lambda>_. blank_message)"] by auto
  then show ?thesis by (simp add: scripted_dhcproto_def)
qed

end
