(* ===== verification/Dhcp_Server.thy ===== *)
theory Dhcp_Server
  imports Lease_Table Reference_Libs
begin

text \<open>
  The LAN DHCP server, \<open>src/services/dhcp_server.rs\<close>: the message handlers over the lease
  table, \<open>process_incoming_packet\<close>, and the outer loop of \<open>start_dhcp_server\<close> with
  \<open>run_server_loop\<close> as a state machine whose events are what the outside supplies (the
  results of socket setup and of reads, and the clock readings made while a packet is
  handled).

  A handler answers the frames it hands to \<open>send_raw_packet\<close> and the table it leaves; log
  lines are not modelled. The third-party crates are the parameter \<open>libs\<close>.
\<close>

section \<open>Configuration and parameters\<close>

record libs =
  lib_pnet :: pnet
  lib_dhcproto :: dhcproto

record server_config =
  cfg_server_ip :: ipv4
  cfg_subnet_mask :: ipv4
  cfg_server_mac :: mac
  cfg_net :: ipv4_net

definition LAN_LEASE_SECS :: u32 where "LAN_LEASE_SECS = 3600"
definition SERVER_PORT :: u16 where "SERVER_PORT = 67"
definition CLIENT_PORT :: u16 where "CLIENT_PORT = 68"

text \<open>
  The clock readings of one handler: \<open>rd_entries\<close> those made by the closures over the
  table's entries, \<open>rd_stamp\<close> the one a new lease's expiry is counted from.
\<close>

record readings =
  rd_entries :: "mac \<Rightarrow> instant"
  rd_stamp :: instant

definition new_lease :: "readings \<Rightarrow> ipv4 \<Rightarrow> client_lease" where
  "new_lease rd a = \<lparr>lease_ip = a, lease_expiry = rd_stamp rd + from_secs (unat LAN_LEASE_SECS)\<rparr>"

section \<open>Replies\<close>

definition get_dest_mac_ip :: "bool \<Rightarrow> mac \<Rightarrow> ipv4 \<Rightarrow> mac \<times> ipv4" where
  "get_dest_mac_ip broadcast client_mac leased_ip =
     (if broadcast then (mac_broadcast, ipv4_broadcast) else (client_mac, leased_ip))"

text \<open>The message \<open>build_dhcp_reply_payload\<close> fills in, and its encoding.\<close>

definition reply_message ::
  "libs \<Rightarrow> message_type \<Rightarrow> dhcp_message \<Rightarrow> ipv4 \<Rightarrow> server_config \<Rightarrow> dhcp_message" where
  "reply_message E msg_type dhcp leased_ip config =
     (let reply = message_default (lib_dhcproto E);
          reply = reply\<lparr>msg_opcode := BootReply\<rparr>;
          reply = reply\<lparr>msg_xid := msg_xid dhcp\<rparr>;
          reply = reply\<lparr>msg_broadcast := msg_broadcast dhcp\<rparr>;
          reply = reply\<lparr>msg_yiaddr := leased_ip\<rparr>;
          reply = reply\<lparr>msg_siaddr := cfg_server_ip config\<rparr>;
          reply = set_chaddr (lib_dhcproto E) (msg_chaddr dhcp) reply;
          reply = opts_insert (MessageType msg_type) reply;
          reply = opts_insert (ServerIdentifier (cfg_server_ip config)) reply;
          reply = opts_insert (SubnetMask (cfg_subnet_mask config)) reply;
          reply = opts_insert (Router [cfg_server_ip config]) reply;
          reply = opts_insert (DomainNameServer [cfg_server_ip config]) reply
      in opts_insert (AddressLeaseTime LAN_LEASE_SECS) reply)"

definition build_dhcp_reply_payload ::
  "libs \<Rightarrow> message_type \<Rightarrow> dhcp_message \<Rightarrow> ipv4 \<Rightarrow> server_config \<Rightarrow> string + bytes" where
  "build_dhcp_reply_payload E msg_type dhcp leased_ip config =
     (case message_encode (lib_dhcproto E) (reply_message E msg_type dhcp leased_ip config) of
        Inl e \<Rightarrow> Inl (''Failed to encode DHCP reply: '' @ e)
      | Inr payload \<Rightarrow> Inr payload)"

text \<open>
  The tail \<open>handle_dhcp_discover\<close> and \<open>handle_dhcp_request\<close> share: build the payload,
  address it, frame it, send it.
\<close>

definition send_reply ::
  "libs \<Rightarrow> server_config \<Rightarrow> message_type \<Rightarrow> dhcp_message \<Rightarrow> mac \<Rightarrow> ipv4 \<Rightarrow> bytes list outcome" where
  "send_reply E config msg_type dhcp client_mac leased_ip =
     (case build_dhcp_reply_payload E msg_type dhcp leased_ip config of
        Inl e \<Rightarrow> Inr []
      | Inr payload \<Rightarrow>
          (let (dest_mac, dest_ip) = get_dest_mac_ip (msg_broadcast dhcp) client_mac leased_ip
           in obind (build_raw_packet (lib_pnet E) (cfg_server_mac config) dest_mac
                (cfg_server_ip config) dest_ip SERVER_PORT CLIENT_PORT payload)
              (\<lambda>frame. Inr [frame])))"

definition nak_message :: "libs \<Rightarrow> dhcp_message \<Rightarrow> server_config \<Rightarrow> dhcp_message" where
  "nak_message E dhcp config =
     (let nak = message_default (lib_dhcproto E);
          nak = nak\<lparr>msg_opcode := BootReply\<rparr>;
          nak = nak\<lparr>msg_xid := msg_xid dhcp\<rparr>;
          nak = set_chaddr (lib_dhcproto E) (msg_chaddr dhcp) nak;
          nak = opts_insert (MessageType Nak) nak
      in opts_insert (ServerIdentifier (cfg_server_ip config)) nak)"

definition send_dhcp_nak ::
  "libs \<Rightarrow> dhcp_message \<Rightarrow> mac \<Rightarrow> server_config \<Rightarrow> bytes list outcome" where
  "send_dhcp_nak E dhcp client_mac config =
     (case message_encode (lib_dhcproto E) (nak_message E dhcp config) of
        Inl e \<Rightarrow> Inr []
      | Inr payload \<Rightarrow>
          (let (dest_mac, dest_ip) =
                 get_dest_mac_ip (msg_broadcast dhcp) client_mac ipv4_broadcast
           in obind (build_raw_packet (lib_pnet E) (cfg_server_mac config) dest_mac
                (cfg_server_ip config) dest_ip SERVER_PORT CLIENT_PORT payload)
              (\<lambda>frame. Inr [frame])))"

section \<open>Handlers\<close>

definition handle_dhcp_decline :: "mac \<Rightarrow> lease_table \<Rightarrow> lease_table" where
  "handle_dhcp_decline client_mac T = snd (lease_table_remove client_mac T)"

definition handle_dhcp_release :: "mac \<Rightarrow> lease_table \<Rightarrow> lease_table" where
  "handle_dhcp_release client_mac T = snd (lease_table_remove client_mac T)"

definition handle_dhcp_discover ::
  "libs \<Rightarrow> readings \<Rightarrow> server_config \<Rightarrow> dhcp_message \<Rightarrow> mac \<Rightarrow> lease_table \<Rightarrow>
     (bytes list \<times> lease_table) outcome" where
  "handle_dhcp_discover E rd config dhcp client_mac T =
     (let reply = (\<lambda>leased_ip T. obind (send_reply E config Offer dhcp client_mac leased_ip)
                                   (\<lambda>out. Inr (out, T)))
      in case lease_table_get T client_mac of
           Some existing \<Rightarrow> reply (lease_ip existing) T
         | None \<Rightarrow>
             (case next_available_ip (rd_entries rd) (cfg_net config) (cfg_server_ip config) T of
                (None, T') \<Rightarrow> Inr ([], T')
              | (Some a, T') \<Rightarrow> reply a (lease_table_insert client_mac (new_lease rd a) T')))"

definition validate_requested_ip ::
  "(mac \<Rightarrow> instant) \<Rightarrow> ipv4 \<Rightarrow> mac \<Rightarrow> server_config \<Rightarrow> lease_table \<Rightarrow> bool" where
  "validate_requested_ip clk leased_ip client_mac config T =
     (if leased_ip = cfg_server_ip config \<or> \<not> net_contains (cfg_net config) leased_ip then False
      else \<not> is_ip_taken_by_other clk T leased_ip client_mac)"

text \<open>The address a DHCPREQUEST asks for: option 50 if present, else the sender's lease.\<close>

definition requested_ip :: "dhcp_message \<Rightarrow> mac \<Rightarrow> lease_table \<Rightarrow> ipv4 option" where
  "requested_ip dhcp client_mac T =
     (let requested_ip_opt = (case opts_get dhcp RequestedIpAddressCode of
                                Some (RequestedIpAddress a) \<Rightarrow> Some a
                              | _ \<Rightarrow> None)
      in case requested_ip_opt of
           Some req_ip \<Rightarrow> Some req_ip
         | None \<Rightarrow> (case lease_table_get T client_mac of
                     Some existing \<Rightarrow> Some (lease_ip existing)
                   | None \<Rightarrow> None))"

definition handle_dhcp_request ::
  "libs \<Rightarrow> readings \<Rightarrow> server_config \<Rightarrow> dhcp_message \<Rightarrow> mac \<Rightarrow> lease_table \<Rightarrow>
     (bytes list \<times> lease_table) outcome" where
  "handle_dhcp_request E rd config dhcp client_mac T =
     (case requested_ip dhcp client_mac T of
        None \<Rightarrow> Inr ([], T)
      | Some leased_ip \<Rightarrow>
          if \<not> validate_requested_ip (rd_entries rd) leased_ip client_mac config T
          then obind (send_dhcp_nak E dhcp client_mac config) (\<lambda>out. Inr (out, T))
          else (let T' = lease_table_insert client_mac (new_lease rd leased_ip) T
                in obind (send_reply E config Ack dhcp client_mac leased_ip)
                     (\<lambda>out. Inr (out, T'))))"

section \<open>One packet\<close>

definition dispatch ::
  "libs \<Rightarrow> readings \<Rightarrow> server_config \<Rightarrow> dhcp_message \<Rightarrow> mac \<Rightarrow> message_type \<Rightarrow> lease_table \<Rightarrow>
     (bytes list \<times> lease_table) outcome" where
  "dispatch E rd config dhcp client_mac msg_type T =
     (case msg_type of
        Discover \<Rightarrow> handle_dhcp_discover E rd config dhcp client_mac T
      | Request \<Rightarrow> handle_dhcp_request E rd config dhcp client_mac T
      | Decline \<Rightarrow> Inr ([], handle_dhcp_decline client_mac T)
      | Release \<Rightarrow> Inr ([], handle_dhcp_release client_mac T)
      | _ \<Rightarrow> Inr ([], T))"

definition process_incoming_packet ::
  "libs \<Rightarrow> readings \<Rightarrow> server_config \<Rightarrow> nat \<Rightarrow> bytes \<Rightarrow> lease_table \<Rightarrow>
     (bytes list \<times> lease_table) outcome" where
  "process_incoming_packet E rd config bytes_read buf T =
     obind (slice_to buf bytes_read) (\<lambda>pkt.
     case parse_dhcp_payload (lib_pnet E) (lib_dhcproto E) pkt SERVER_PORT of
       None \<Rightarrow> Inr ([], T)
     | Some dhcp \<Rightarrow>
         if msg_opcode dhcp \<noteq> BootRequest then Inr ([], T)
         else obind (slice_to (msg_chaddr dhcp) (unat (msg_hlen dhcp))) (\<lambda>chaddr.
           case mac_of_octets chaddr of
             None \<Rightarrow> Inr ([], T)
           | Some client_mac \<Rightarrow>
               (case eth_new (lib_pnet E) pkt of
                  None \<Rightarrow> Inr ([], T)
                | Some eth \<Rightarrow>
                    (let src_mac = eth_source (eth_view (lib_pnet E) eth)
                     in if msg_giaddr dhcp = ipv4_unspecified \<and> src_mac \<noteq> client_mac
                        then Inr ([], T)
                        else (case message_type_of dhcp of
                                Some mtype \<Rightarrow> dispatch E rd config dhcp client_mac mtype T
                              | None \<Rightarrow> Inr ([], T))))))"

section \<open>The server loop\<close>

datatype server_error = MacAddressError string | RawSocketError string | AsyncSocketError string

text \<open>
  \<open>setup_server_socket\<close>, from the results of its three calls; the first component lists the
  descriptors it closes on the way out.
\<close>

definition setup_server_socket ::
  "string + mac \<Rightarrow> string + int \<Rightarrow> string + unit \<Rightarrow> int list \<times> (server_error + mac \<times> int)" where
  "setup_server_socket mac_res raw_res async_res =
     (case mac_res of
        Inl e \<Rightarrow> ([], Inl (MacAddressError e))
      | Inr m \<Rightarrow>
          (case raw_res of
             Inl e \<Rightarrow> ([], Inl (RawSocketError e))
           | Inr raw_fd \<Rightarrow>
               (case async_res of
                  Inl e \<Rightarrow> ([raw_fd], Inl (AsyncSocketError e))
                | Inr _ \<Rightarrow> ([], Inr (m, raw_fd)))))"

datatype server_phase =
    SettingUp
  | Serving server_config int bytes

record server_state =
  sv_phase :: server_phase
  sv_leases :: lease_table
  sv_open_fds :: "int set"

datatype server_event =
    Setup "string + mac" "string + int" "string + unit"
  | Received readings bytes
  | ReadFailed string

definition BUF_LEN :: nat where "BUF_LEN = 2048"

definition start_dhcp_server :: "(string \<Rightarrow> ipv4_net option) \<Rightarrow> string \<Rightarrow> (ipv4_net \<times> server_state) option" where
  "start_dhcp_server parse_net lan_ip =
     (case parse_net lan_ip of
        None \<Rightarrow> None
      | Some net \<Rightarrow> Some (net, \<lparr>sv_phase = SettingUp, sv_leases = lease_table_new, sv_open_fds = {}\<rparr>))"

text \<open>
  One step of the two nested loops. A frame is read into the front of the buffer (at most
  its 2048 bytes), a read error closes the socket and goes back to setting up, and the lease
  table lives on across restarts of the loop.
\<close>

fun server_step :: "libs \<Rightarrow> ipv4_net \<Rightarrow> server_event \<Rightarrow> server_state \<Rightarrow>
    (bytes list \<times> server_state) outcome" where
  "server_step E net (Setup mac_res raw_res async_res) s =
     (case sv_phase s of
        SettingUp \<Rightarrow>
          (let opened = (case (mac_res, raw_res) of (Inr _, Inr fd) \<Rightarrow> {fd} | _ \<Rightarrow> {})
           in case setup_server_socket mac_res raw_res async_res of
                (closed, Inl e) \<Rightarrow>
                  Inr ([], s\<lparr>sv_open_fds := (sv_open_fds s \<union> opened) - set closed\<rparr>)
              | (closed, Inr (m, raw_fd)) \<Rightarrow>
                  Inr ([], s\<lparr>sv_phase := Serving
                         \<lparr>cfg_server_ip = net_addr net, cfg_subnet_mask = net_netmask net,
                          cfg_server_mac = m, cfg_net = net\<rparr> raw_fd (replicate BUF_LEN 0),
                       sv_open_fds := (sv_open_fds s \<union> opened) - set closed\<rparr>))
      | Serving _ _ _ \<Rightarrow> Inr ([], s))"
| "server_step E net (Received rd frame) s =
     (case sv_phase s of
        SettingUp \<Rightarrow> Inr ([], s)
      | Serving config fd buf \<Rightarrow>
          (let n = min (length frame) (length buf);
               buf' = take n frame @ drop n buf
           in obind (process_incoming_packet E rd config n buf' (sv_leases s)) (\<lambda>(out, T').
                Inr (out, s\<lparr>sv_phase := Serving config fd buf', sv_leases := T'\<rparr>))))"
| "server_step E net (ReadFailed e) s =
     (case sv_phase s of
        SettingUp \<Rightarrow> Inr ([], s)
      | Serving config fd buf \<Rightarrow>
          Inr ([], s\<lparr>sv_phase := SettingUp, sv_open_fds := sv_open_fds s - {fd}\<rparr>))"

text \<open>The readings of a packet handled between \<open>t\<close> and \<open>t'\<close>.\<close>

fun event_between :: "instant \<Rightarrow> instant \<Rightarrow> server_event \<Rightarrow> bool" where
  "event_between t t' (Received rd frame) \<longleftrightarrow>
     (\<forall>m. t \<le> rd_entries rd m \<and> rd_entries rd m \<le> t') \<and> t \<le> rd_stamp rd \<and> rd_stamp rd \<le> t'"
| "event_between t t' _ \<longleftrightarrow> True"

inductive server_reachable :: "libs \<Rightarrow> ipv4_net \<Rightarrow> server_state \<Rightarrow> instant \<Rightarrow> bool"
  for E net where
  start: "server_reachable E net
            \<lparr>sv_phase = SettingUp, sv_leases = lease_table_new, sv_open_fds = {}\<rparr> t"
| step: "server_reachable E net s t \<Longrightarrow> t \<le> t' \<Longrightarrow> event_between t t' ev \<Longrightarrow>
         server_step E net ev s = Inr (out, s') \<Longrightarrow> server_reachable E net s' t'"

section \<open>Table transitions\<close>

text \<open>
  Every packet moves the lease table by one of five transitions on behalf of one client.
  The safety proofs below are case analyses of this relation, over the laws \<open>lt\<close>.
\<close>

inductive lease_step ::
  "server_config \<Rightarrow> readings \<Rightarrow> mac \<Rightarrow> lease_table \<Rightarrow> lease_table \<Rightarrow> bool" for config rd client where
  keep: "lease_step config rd client T T"
| release: "lease_step config rd client T (snd (lease_table_remove client T))"
| exhausted: "fst (next_available_ip (rd_entries rd) (cfg_net config) (cfg_server_ip config) T) = None \<Longrightarrow>
    lease_step config rd client T
      (snd (next_available_ip (rd_entries rd) (cfg_net config) (cfg_server_ip config) T))"
| allocate: "fst (next_available_ip (rd_entries rd) (cfg_net config) (cfg_server_ip config) T) = Some a \<Longrightarrow>
    lease_step config rd client T (lease_table_insert client (new_lease rd a)
      (snd (next_available_ip (rd_entries rd) (cfg_net config) (cfg_server_ip config) T)))"
| grant: "validate_requested_ip (rd_entries rd) a client config T \<Longrightarrow>
    lease_step config rd client T (lease_table_insert client (new_lease rd a) T)"

lemma handle_discover_step:
  assumes "handle_dhcp_discover E rd config dhcp client T = Inr (out, T')"
  shows "lease_step config rd client T T'"
proof (cases "lease_table_get T client")
  case (Some l)
  with assms have "T' = T" by (auto simp: handle_dhcp_discover_def outcome_simps)
  then show ?thesis by (simp add: lease_step.keep)
next
  case None
  let ?n = "next_available_ip (rd_entries rd) (cfg_net config) (cfg_server_ip config) T"
  obtain x U where n: "?n = (x, U)" by (cases ?n)
  show ?thesis
  proof (cases x)
    case None
    with assms n \<open>lease_table_get T client = None\<close> have "T' = snd ?n"
      by (simp add: handle_dhcp_discover_def)
    moreover from n None have "fst ?n = None" by simp
    ultimately show ?thesis by (simp add: lease_step.exhausted)
  next
    case (Some a)
    with assms n \<open>lease_table_get T client = None\<close>
    have "T' = lease_table_insert client (new_lease rd a) (snd ?n)"
      by (auto simp: handle_dhcp_discover_def outcome_simps)
    moreover from n Some have "fst ?n = Some a" by simp
    ultimately show ?thesis by (simp add: lease_step.allocate)
  qed
qed

lemma handle_request_step:
  assumes "handle_dhcp_request E rd config dhcp client T = Inr (out, T')"
  shows "lease_step config rd client T T'"
  using assms
  by (auto simp: handle_dhcp_request_def Let_def outcome_simps split: option.splits if_splits
      intro: lease_step.keep lease_step.grant)

lemma dispatch_step:
  "dispatch E rd config dhcp client mt T = Inr (out, T') \<Longrightarrow> lease_step config rd client T T'"
  by (auto simp: dispatch_def handle_dhcp_decline_def handle_dhcp_release_def
      intro: lease_step.keep lease_step.release handle_discover_step handle_request_step
      split: message_type.splits)

text \<open>What \<open>process_incoming_packet\<close> checked before it dispatched, or else nothing happened.\<close>

lemma process_disj:
  assumes "process_incoming_packet E rd config n buf T = Inr (out, T')"
  shows "(out = [] \<and> T' = T) \<or>
    (\<exists>dhcp client mt.
       parse_dhcp_payload (lib_pnet E) (lib_dhcproto E) (take n buf) SERVER_PORT = Some dhcp \<and>
       msg_opcode dhcp = BootRequest \<and>
       (msg_giaddr dhcp = ipv4_unspecified \<longrightarrow>
          eth_source (eth_view (lib_pnet E) (take n buf)) = client) \<and>
       dispatch E rd config dhcp client mt T = Inr (out, T'))"
proof -
  let ?pkt = "take n buf"
  have n: "n \<le> length buf"
    using assms by (auto simp: process_incoming_packet_def slice_to_def split: if_splits)
  show ?thesis
  proof (cases "parse_dhcp_payload (lib_pnet E) (lib_dhcproto E) ?pkt SERVER_PORT")
    case None
    with assms n show ?thesis by (simp add: process_incoming_packet_def)
  next
    case (Some dhcp)
    note p = this
    show ?thesis
    proof (cases "msg_opcode dhcp = BootRequest")
      case False
      with assms n p show ?thesis by (simp add: process_incoming_packet_def)
    next
      case True
      with assms n p obtain ch where
        "slice_to (msg_chaddr dhcp) (unat (msg_hlen dhcp)) = Inr ch"
        by (auto simp: process_incoming_packet_def outcome_simps)
      with assms n p True show ?thesis
        by (cases "mac_of_octets ch"; cases "message_type_of dhcp")
          (auto simp: process_incoming_packet_def eth_new_def Let_def split: if_splits)
    qed
  qed
qed

lemmas process_cases = process_disj [THEN disjE, consumes 1, case_names ignored dispatched]

lemma process_step:
  assumes "process_incoming_packet E rd config n buf T = Inr (out, T')"
  shows "\<exists>client. lease_step config rd client T T'"
  using process_disj [OF assms] by (auto intro: dispatch_step lease_step.keep)

section \<open>Invariants of the table\<close>

lemma lease_step_inv: "lease_step config rd client T T' \<Longrightarrow> table_inv T \<Longrightarrow> table_inv T'"
  by (cases rule: lease_step.cases)
    (auto intro: lt.inv_put lt.inv_take_out lt.inv_fresh)

lemma lease_step_live_unique:
  assumes "lease_step config rd client T T'" and inv: "table_inv T"
    and "live_unique t (leases_of T)" and "t \<le> t'" and "\<And>m. rd_entries rd m \<le> t'"
  shows "live_unique t' (leases_of T')"
  using assms(1)
proof (cases rule: lease_step.cases)
  case keep
  with assms show ?thesis by (auto intro: live_unique_mono)
next
  case release
  with assms show ?thesis by (auto intro: live_unique_mono lt.live_unique_release)
next
  case exhausted
  with assms show ?thesis by (auto intro: live_unique_mono lt.live_unique_fresh)
next
  case (allocate a)
  with assms show ?thesis
    by (auto intro!: lt.live_unique_allocate simp: new_lease_def)
next
  case (grant a)
  then have "\<not> is_ip_taken_by_other (rd_entries rd) T (lease_ip (new_lease rd a)) client"
    by (simp add: validate_requested_ip_def new_lease_def split: if_splits)
  with assms(3-5) inv have "live_unique t' (leases_of (lease_table_insert client (new_lease rd a) T))"
    by (rule_tac lt.live_unique_grant)
  with grant show ?thesis by simp
qed

lemma lease_step_within:
  assumes "lease_step config rd client T T'" and inv: "table_inv T"
    and net: "net_documented (cfg_net config)"
    and within: "leases_within (\<lambda>a. net_contains (cfg_net config) a \<and> a \<noteq> cfg_server_ip config)
          (leases_of T)" (is "leases_within ?P _")
  shows "leases_within (\<lambda>a. net_contains (cfg_net config) a \<and> a \<noteq> cfg_server_ip config)
          (leases_of T')"
  using assms(1)
proof (cases rule: lease_step.cases)
  case (allocate a)
  with inv have "a \<in> set (net_hosts (cfg_net config))" "a \<noteq> cfg_server_ip config"
    by (auto dest: lt.fresh_SomeD)
  with net have "?P (lease_ip (new_lease rd a))"
    by (auto simp: net_documented_def list_all_iff new_lease_def)
  with allocate inv within show ?thesis
    by (auto intro!: lt.within_put lt.within_fresh lt.inv_fresh)
next
  case (grant a)
  then have "?P (lease_ip (new_lease rd a))"
    by (auto simp: validate_requested_ip_def new_lease_def split: if_splits)
  with grant inv within show ?thesis by (auto intro!: lt.within_put)
qed (use inv within in \<open>auto intro: lt.within_release lt.within_fresh\<close>)

text \<open>A step for one client leaves every other client's lease, or evicts it once expired.\<close>

lemma lease_step_frame:
  assumes "lease_step config rd client T T'" and "table_inv T" and "m \<noteq> client"
  shows "leases_of T' m = leases_of T m \<or>
         leases_of T' m = None \<and> (\<exists>l. leases_of T m = Some l \<and> lease_expiry l \<le> rd_entries rd m)"
  using assms
  by (cases rule: lease_step.cases)
    (auto simp: lt.leases_take_out lt.leases_fresh lt.leases_put lt.inv_fresh evicted_def
      split: option.splits)

section \<open>Invariants of the server\<close>

lemma server_step_lease:
  assumes "server_step E net ev s = Inr (out, s')"
  shows "sv_leases s' = sv_leases s \<or>
    (\<exists>rd frame config fd buf client. ev = Received rd frame \<and> sv_phase s = Serving config fd buf \<and>
       lease_step config rd client (sv_leases s) (sv_leases s'))"
proof (cases ev)
  case (Received rd frame)
  with assms show ?thesis
    by (auto simp: outcome_simps Let_def split: server_phase.splits dest!: process_step)
qed (use assms in \<open>auto simp: Let_def split: server_phase.splits sum.splits prod.splits\<close>)

definition phase_ok :: "ipv4_net \<Rightarrow> server_state \<Rightarrow> bool" where
  "phase_ok net s \<longleftrightarrow> (case sv_phase s of
      SettingUp \<Rightarrow> sv_open_fds s = {}
    | Serving config fd buf \<Rightarrow> sv_open_fds s = {fd} \<and> length buf = BUF_LEN \<and>
        cfg_net config = net \<and> cfg_server_ip config = net_addr net \<and>
        cfg_subnet_mask config = net_netmask net)"

lemma server_step_phase:
  assumes "server_step E net ev s = Inr (out, s')" and "phase_ok net s"
  shows "phase_ok net s'"
  using assms
  by (cases ev) (auto simp: phase_ok_def outcome_simps Let_def setup_server_socket_def
      split: server_phase.splits sum.splits prod.splits)

lemma server_reachable_phase: "server_reachable E net s t \<Longrightarrow> phase_ok net s"
  by (induction rule: server_reachable.induct) (auto simp: phase_ok_def [of _ "\<lparr>sv_phase = _, sv_leases = _, sv_open_fds = _\<rparr>"] intro: server_step_phase)

lemma server_reachable_inv: "server_reachable E net s t \<Longrightarrow> table_inv (sv_leases s)"
  by (induction rule: server_reachable.induct)
    (auto dest!: server_step_lease intro: lease_step_inv)

lemma event_between_entries: "event_between t t' (Received rd frame) \<Longrightarrow> rd_entries rd m \<le> t'"
  by simp

lemma server_reachable_live_unique:
  "server_reachable E net s t \<Longrightarrow> live_unique t (leases_of (sv_leases s))"
proof (induction rule: server_reachable.induct)
  case (start t)
  show ?case by (simp add: live_unique_def leases_of_def lease_table_new_def hm.get_empty)
next
  case (step s t t' ev out s')
  from server_step_lease [OF step.hyps(4)] show ?case
  proof
    assume "sv_leases s' = sv_leases s"
    with step show ?thesis by (auto intro: live_unique_mono)
  next
    assume "\<exists>rd frame config fd buf client. ev = Received rd frame \<and>
      sv_phase s = Serving config fd buf \<and> lease_step config rd client (sv_leases s) (sv_leases s')"
    then obtain rd frame config client where ev: "ev = Received rd frame"
      and ls: "lease_step config rd client (sv_leases s) (sv_leases s')" by blast
    from step.hyps(3) ev have "\<And>m. rd_entries rd m \<le> t'" by simp
    with ls step show ?thesis
      by (blast intro: lease_step_live_unique server_reachable_inv)
  qed
qed

lemma server_reachable_within:
  assumes "server_reachable E net s t" and net: "net_documented net"
  shows "leases_within (\<lambda>a. net_contains net a \<and> a \<noteq> net_addr net) (leases_of (sv_leases s))"
  using assms(1)
proof (induction rule: server_reachable.induct)
  case (start t)
  show ?case by (simp add: leases_within_def leases_of_def lease_table_new_def hm.get_empty)
next
  case (step s t t' ev out s')
  from server_step_lease [OF step.hyps(4)] show ?case
  proof (elim disjE exE conjE)
    fix rd frame config fd buf client
    assume ph: "sv_phase s = Serving config fd buf"
      and ls: "lease_step config rd client (sv_leases s) (sv_leases s')"
    from server_reachable_phase [OF step.hyps(1)] ph
    have "cfg_net config = net" "cfg_server_ip config = net_addr net"
      by (simp_all add: phase_ok_def)
    with lease_step_within [OF ls server_reachable_inv [OF step.hyps(1)]] net step.IH
    show ?thesis by simp
  qed (use step.IH in simp)
qed

section \<open>Replies that are sent\<close>

text \<open>A message the codec encodes into a payload that fits one datagram.\<close>

definition sendable :: "libs \<Rightarrow> dhcp_message \<Rightarrow> bool" where
  "sendable E d \<longleftrightarrow> (case message_encode (lib_dhcproto E) d of
     Inl e \<Rightarrow> False | Inr payload \<Rightarrow> length payload \<le> 65507)"

text \<open>\<open>carries E d frame\<close>: a client parsing \<open>frame\<close> on port 68 decodes the encoding of \<open>d\<close>.\<close>

definition carries :: "libs \<Rightarrow> server_config \<Rightarrow> mac \<times> ipv4 \<Rightarrow> dhcp_message \<Rightarrow> bytes \<Rightarrow> bool" where
  "carries E config dest d frame \<longleftrightarrow>
     (\<exists>payload. message_encode (lib_dhcproto E) d = Inr payload \<and>
        parse_dhcp_payload (lib_pnet E) (lib_dhcproto E) frame CLIENT_PORT =
          message_decode (lib_dhcproto E) payload \<and>
        eth_source (eth_view (lib_pnet E) frame) = cfg_server_mac config \<and>
        eth_destination (eth_view (lib_pnet E) frame) = fst dest \<and>
        ip_source (ip_view (lib_pnet E) (eth_payload (lib_pnet E) frame)) = cfg_server_ip config \<and>
        ip_destination (ip_view (lib_pnet E) (eth_payload (lib_pnet E) frame)) = snd dest)"

lemma frame_carries:
  assumes "pnet_documented (lib_pnet E)" and "message_encode (lib_dhcproto E) d = Inr payload"
    and "length payload \<le> 65507"
  shows "\<exists>frame. build_raw_packet (lib_pnet E) (cfg_server_mac config) (fst dest)
      (cfg_server_ip config) (snd dest) SERVER_PORT CLIENT_PORT payload = Inr frame \<and>
    carries E config dest d frame"
proof -
  from build_raw_packet_ok [OF assms(1,3)] obtain frame where
    f: "build_raw_packet (lib_pnet E) (cfg_server_mac config) (fst dest)
      (cfg_server_ip config) (snd dest) SERVER_PORT CLIENT_PORT payload = Inr frame"
      "length frame = 42 + length payload"
      "eth_view (lib_pnet E) frame = \<lparr>eth_destination = fst dest,
         eth_source = cfg_server_mac config, eth_ethertype = ethertype_ipv4\<rparr>"
    and ip: "carries_ip (lib_pnet E) (cfg_server_ip config) (snd dest) SERVER_PORT CLIENT_PORT
         payload (eth_payload (lib_pnet E) frame)" by blast
  then show ?thesis
    using assms parse_carried [OF assms(1) _ _ ip] by (auto simp: carries_def carries_ip_def)
qed

lemma send_reply_ok:
  assumes "pnet_documented (lib_pnet E)" and "sendable E (reply_message E mt dhcp a config)"
  shows "\<exists>frame. send_reply E config mt dhcp client a = Inr [frame] \<and>
    carries E config (get_dest_mac_ip (msg_broadcast dhcp) client a)
      (reply_message E mt dhcp a config) frame"
proof -
  from assms(2) obtain payload where
    p: "message_encode (lib_dhcproto E) (reply_message E mt dhcp a config) = Inr payload"
    and l: "length payload \<le> 65507" by (auto simp: sendable_def split: sum.splits)
  from frame_carries [OF assms(1) p l, of config "get_dest_mac_ip (msg_broadcast dhcp) client a"]
  show ?thesis
    using p by (auto simp: send_reply_def build_dhcp_reply_payload_def split: prod.splits)
qed

lemma send_nak_ok:
  assumes "pnet_documented (lib_pnet E)" and "sendable E (nak_message E dhcp config)"
  shows "\<exists>frame. send_dhcp_nak E dhcp client config = Inr [frame] \<and>
    carries E config (get_dest_mac_ip (msg_broadcast dhcp) client ipv4_broadcast)
      (nak_message E dhcp config) frame"
proof -
  from assms(2) obtain payload where
    p: "message_encode (lib_dhcproto E) (nak_message E dhcp config) = Inr payload"
    and l: "length payload \<le> 65507" by (auto simp: sendable_def split: sum.splits)
  from frame_carries [OF assms(1) p l, of config
      "get_dest_mac_ip (msg_broadcast dhcp) client ipv4_broadcast"]
  show ?thesis
    using p by (auto simp: send_dhcp_nak_def split: prod.splits)
qed

lemma validate_iff:
  "table_inv T \<Longrightarrow> validate_requested_ip clk a client config T \<longleftrightarrow>
     a \<noteq> cfg_server_ip config \<and> net_contains (cfg_net config) a \<and>
     (\<forall>m l. leases_of T m = Some l \<and> m \<noteq> client \<and> lease_ip l = a \<longrightarrow> lease_expiry l \<le> clk m)"
  by (auto simp: validate_requested_ip_def lt.taken_iff not_less)

section \<open>A sample run\<close>

text \<open>
  Concrete values the witnesses share: a network with one assignable host, two clients, the
  crates instantiated by \<open>Reference_Libs\<close>, and a script of the messages the payload bytes
  stand for.
\<close>

definition sample_net :: ipv4_net where
  "sample_net = \<lparr>net_addr = 1, net_netmask = 0xFFFFFFFC, net_hosts = [1, 2],
                 net_contains = (\<lambda>a. a \<le> 3)\<rparr>"

definition client_a :: mac where "client_a = MacAddr 2 0 0 0 0 1"
definition client_b :: mac where "client_b = MacAddr 2 0 0 0 0 2"

definition sample_message :: "message_type \<Rightarrow> mac \<Rightarrow> ipv4 \<Rightarrow> dhcp_message" where
  "sample_message mt m a = blank_message\<lparr>msg_chaddr := mac_octets m,
     msg_opts := [(MessageTypeCode, MessageType mt), (RequestedIpAddressCode, RequestedIpAddress a)]\<rparr>"

definition sample_script :: "u8 \<Rightarrow> dhcp_message" where
  "sample_script x =
     (if x = 1 then sample_message Request client_a 2
      else if x = 2 then sample_message Request client_b 3
      else if x = 3 then sample_message Request client_b 2
      else if x = 4 then sample_message Release client_a 0
      else sample_message Discover client_a 0)"

definition sample_libs :: libs where
  "sample_libs = \<lparr>lib_pnet = pnet_wire, lib_dhcproto = scripted_dhcproto sample_script\<rparr>"

definition sample_config :: server_config where
  "sample_config = \<lparr>cfg_server_ip = 1, cfg_subnet_mask = 0xFFFFFFFC,
     cfg_server_mac = MacAddr 2 0 0 0 0 9, cfg_net = sample_net\<rparr>"

definition readings_at :: "instant \<Rightarrow> readings" where
  "readings_at t = \<lparr>rd_entries = (\<lambda>_. t), rd_stamp = t\<rparr>"

lemma readings_at_simps [simp]:
  "rd_entries (readings_at t) m = t" "rd_stamp (readings_at t) = t"
  by (simp_all add: readings_at_def)

lemma clients_differ [simp]: "client_a \<noteq> client_b" "client_b \<noteq> client_a"
  by (simp_all add: client_a_def client_b_def)

lemma sample_message_simps [simp]:
  "msg_opcode (sample_message mt m a) = BootRequest"
  "msg_hlen (sample_message mt m a) = 6"
  "msg_chaddr (sample_message mt m a) = mac_octets m"
  "msg_giaddr (sample_message mt m a) = 0"
  "message_type_of (sample_message mt m a) = Some mt"
  "requested_ip (sample_message mt m a) m' T = Some a"
  by (simp_all add: sample_message_def blank_message_def message_type_of_def opts_get_def
      requested_ip_def hm_exec)

lemma sample_net_documented: "net_documented sample_net"
  by (simp add: net_documented_def sample_net_def)

lemma sample_libs_pnet [simp]: "pnet_documented (lib_pnet sample_libs)"
  by (simp add: sample_libs_def pnet_wire_documented)

lemma sample_libs_dhcproto [simp]: "dhcproto_documented (lib_dhcproto sample_libs)"
  by (simp add: sample_libs_def scripted_dhcproto_documented)

lemma sample_sendable [simp]: "sendable sample_libs msg"
  by (simp add: sendable_def sample_libs_def scripted_dhcproto_def)

lemma sample_parse:
  "parse_dhcp_payload (lib_pnet sample_libs) (lib_dhcproto sample_libs) (sample_frame m x) SERVER_PORT
     = Some (sample_script x)"
  by (simp add: sample_libs_def SERVER_PORT_def sample_frame_parses)

text \<open>A frame from \<open>m\<close> whose byte stands for a message of \<open>m\<close> is dispatched on its type.\<close>

lemma sample_process:
  assumes "sample_script x = sample_message mt m a" and "43 \<le> length buf"
    and "take 43 buf = sample_frame m x"
  shows "process_incoming_packet sample_libs rd config 43 buf T =
         dispatch sample_libs rd config (sample_message mt m a) m mt T"
proof -
  have "eth_min (lib_pnet sample_libs) = 14" by simp
  moreover have "eth_source (eth_view (lib_pnet sample_libs) (sample_frame m x)) = m"
    by (simp add: sample_libs_def sample_frame_source)
  ultimately show ?thesis
    using assms sample_parse [of m x] by (simp add: process_incoming_packet_def eth_new_def)
qed

lemma sample_grant:
  assumes "validate_requested_ip (rd_entries rd) a m config T"
  shows "\<exists>out. dispatch sample_libs rd config (sample_message Request m a) m Request T =
         Inr (out, lease_table_insert m (new_lease rd a) T)"
  using send_reply_ok [of sample_libs Ack "sample_message Request m a" a config m] assms
  by (auto simp: dispatch_def handle_dhcp_request_def)

lemma sample_validate:
  "table_inv T \<Longrightarrow> validate_requested_ip (rd_entries (readings_at t)) a m sample_config T \<longleftrightarrow>
     a \<noteq> 1 \<and> a \<le> 3 \<and>
     (\<forall>m' l. leases_of T m' = Some l \<and> m' \<noteq> m \<and> lease_ip l = a \<longrightarrow> lease_expiry l \<le> t)"
  by (simp add: validate_iff sample_config_def sample_net_def)

definition sample_at :: "server_state \<Rightarrow> instant \<Rightarrow> lease_table \<Rightarrow> bool" where
  "sample_at s t T \<longleftrightarrow> server_reachable sample_libs sample_net s t \<and> sv_leases s = T \<and>
     (\<exists>buf. sv_phase s = Serving sample_config 5 buf)"

lemma sample_at_start: "\<exists>s. sample_at s t lease_table_new"
proof -
  let ?ev = "Setup (Inr (MacAddr 2 0 0 0 0 9)) (Inr 5) (Inr ())"
  let ?s = "\<lparr>sv_phase = Serving sample_config 5 (replicate BUF_LEN 0),
     sv_leases = lease_table_new, sv_open_fds = {5}\<rparr>"
  have "server_step sample_libs sample_net ?ev
      \<lparr>sv_phase = SettingUp, sv_leases = lease_table_new, sv_open_fds = {}\<rparr> = Inr ([], ?s)"
    by (simp add: setup_server_socket_def sample_config_def sample_net_def)
  from server_reachable.step [OF server_reachable.start _ _ this, of t t]
  show ?thesis by (auto simp: sample_at_def intro!: exI [of _ ?s])
qed

lemma sample_received:
  assumes r: "server_reachable sample_libs sample_net s t"
    and s: "sv_phase s = Serving sample_config 5 buf"
    and x: "sample_script x = sample_message mt m a"
    and d: "dispatch sample_libs (readings_at t') sample_config (sample_message mt m a) m mt (sv_leases s) =
      Inr (out, T')"
  shows "server_step sample_libs sample_net (Received (readings_at t') (sample_frame m x)) s =
    Inr (out, s\<lparr>sv_phase := Serving sample_config 5 (sample_frame m x @ drop 43 buf), sv_leases := T'\<rparr>)"
proof -
  from server_reachable_phase [OF r] s have l: "length buf = 2048"
    by (simp add: phase_ok_def BUF_LEN_def)
  from x l d have "process_incoming_packet sample_libs (readings_at t') sample_config 43
      (sample_frame m x @ drop 43 buf) (sv_leases s) = Inr (out, T')"
    by (simp add: sample_process)
  with s l show ?thesis by (simp add: min_def)
qed

lemma sample_at_step:
  assumes at: "sample_at s t T" and x: "sample_script x = sample_message mt m a"
    and d: "dispatch sample_libs (readings_at t') sample_config (sample_message mt m a) m mt T = Inr (out, T')"
    and t: "t \<le> t'"
  shows "\<exists>s'. sample_at s' t' T'"
proof -
  from at obtain buf where r: "server_reachable sample_libs sample_net s t"
    and s: "sv_phase s = Serving sample_config 5 buf" "sv_leases s = T" by (auto simp: sample_at_def)
  from server_reachable.step [OF r t _ sample_received [OF r s(1) x d [folded s(2)]]] t show ?thesis
    by (auto simp: sample_at_def)
qed

text \<open>Client \<open>a\<close> is granted the host 2 at time 7.\<close>

definition sample_table :: lease_table where
  "sample_table = lease_table_insert client_a (new_lease (readings_at 7) 2) lease_table_new"

lemma sample_table_inv [simp]: "table_inv sample_table"
  by (simp add: sample_table_def lt.inv_put)

lemma leases_of_new [simp]: "leases_of lease_table_new m = None"
  by (simp add: leases_of_def lease_table_new_def hm.get_empty)

lemma leases_of_sample:
  "leases_of sample_table = [client_a \<mapsto> new_lease (readings_at 7) 2]"
  by (simp add: sample_table_def lt.leases_put fun_eq_iff)

lemma sample_at_table: "\<exists>s. sample_at s 7 sample_table"
proof -
  obtain s where at: "sample_at s 7 lease_table_new" using sample_at_start by blast
  have "validate_requested_ip (rd_entries (readings_at 7)) 2 client_a sample_config lease_table_new"
    by (simp add: sample_validate)
  from sample_grant [OF this] obtain out where
    "dispatch sample_libs (readings_at 7) sample_config (sample_message Request client_a 2) client_a
       Request lease_table_new = Inr (out, sample_table)" by (auto simp: sample_table_def)
  from sample_at_step [OF at _ this, of 1] show ?thesis by (simp add: sample_script_def)
qed

section \<open>Properties\<close>

text \<open>
  C1: no two clients ever hold unexpired leases of the same address: in every state the
  server reaches, at the time it has reached, two MACs whose leases have not expired are
  leased different addresses. (The documented agreement of map and index does not always
  hold, see \<open>lease_index_loses_live_address\<close>; this safety property does.)
\<close>

theorem server_never_double_leases:
  assumes "server_reachable E net s t"
    and "leases_of (sv_leases s) m = Some l" and "leases_of (sv_leases s) m' = Some l'"
    and "m \<noteq> m'" and "t < lease_expiry l" and "t < lease_expiry l'"
  shows "lease_ip l \<noteq> lease_ip l'"
  using server_reachable_live_unique [OF assms(1)] assms(2-6) unfolding live_unique_def by blast

theorem server_never_double_leases_witness:
  "\<exists>s l l'. server_reachable sample_libs sample_net s 8 \<and>
     leases_of (sv_leases s) client_a = Some l \<and> leases_of (sv_leases s) client_b = Some l' \<and>
     8 < lease_expiry l \<and> 8 < lease_expiry l' \<and> lease_ip l \<noteq> lease_ip l'"
proof -
  let ?T = "lease_table_insert client_b (new_lease (readings_at 8) 3) sample_table"
  obtain s where at: "sample_at s 7 sample_table" using sample_at_table by blast
  have "validate_requested_ip (rd_entries (readings_at 8)) 3 client_b sample_config sample_table"
    by (simp add: sample_validate leases_of_sample new_lease_def)
  from sample_grant [OF this] obtain out where
    "dispatch sample_libs (readings_at 8) sample_config (sample_message Request client_b 3) client_b
       Request sample_table = Inr (out, ?T)" by blast
  from sample_at_step [OF at _ this, of 2] obtain s' where at': "sample_at s' 8 ?T"
    by (auto simp: sample_script_def)
  then have r: "server_reachable sample_libs sample_net s' 8" and T: "sv_leases s' = ?T"
    by (simp_all add: sample_at_def)
  have a: "leases_of (sv_leases s') client_a = Some (new_lease (readings_at 7) 2)"
    and b: "leases_of (sv_leases s') client_b = Some (new_lease (readings_at 8) 3)"
    by (simp_all add: T lt.leases_put leases_of_sample)
  have live: "8 < lease_expiry (new_lease (readings_at 7) 2)" "8 < lease_expiry (new_lease (readings_at 8) 3)"
    by (simp_all add: new_lease_def LAN_LEASE_SECS_def from_secs_def)
  from server_never_double_leases [OF r a b clients_differ(1) live] r a b live show ?thesis by blast
qed

text \<open>
  Every address the server has leased, by offer or by acknowledgement, lies in the
  configured network and is not the server's own, whatever addresses clients ask for.
\<close>

theorem server_leases_in_subnet:
  assumes "server_reachable E net s t" and "net_documented net"
    and "leases_of (sv_leases s) m = Some l"
  shows "net_contains net (lease_ip l) \<and> lease_ip l \<noteq> net_addr net"
  using server_reachable_within [OF assms(1,2)] assms(3) by (simp add: leases_within_def)

theorem server_leases_in_subnet_witness:
  "\<exists>s l. server_reachable sample_libs sample_net s 7 \<and>
     leases_of (sv_leases s) client_a = Some l \<and>
     net_contains sample_net (lease_ip l) \<and> lease_ip l \<noteq> net_addr sample_net"
proof -
  obtain s where r: "server_reachable sample_libs sample_net s 7" and T: "sv_leases s = sample_table"
    using sample_at_table by (auto simp: sample_at_def)
  from T have l: "leases_of (sv_leases s) client_a = Some (new_lease (readings_at 7) 2)"
    by (simp add: leases_of_sample)
  from server_leases_in_subnet [OF r sample_net_documented l] r l show ?thesis by blast
qed

text \<open>
  C13: an unrelayed packet can change only the lease of the MAC that sent it. Any other
  client's lease is the one it was, or was dropped because it had expired.
\<close>

theorem unrelayed_packet_affects_only_sender:
  assumes "process_incoming_packet E rd config n buf T = Inr (out, T')" and "table_inv T"
    and "parse_dhcp_payload (lib_pnet E) (lib_dhcproto E) (take n buf) SERVER_PORT = Some dhcp"
    and "msg_giaddr dhcp = ipv4_unspecified"
    and "m \<noteq> eth_source (eth_view (lib_pnet E) (take n buf))"
  shows "leases_of T' m = leases_of T m \<or>
         leases_of T' m = None \<and> (\<exists>l. leases_of T m = Some l \<and> lease_expiry l \<le> rd_entries rd m)"
  using assms(1)
proof (cases rule: process_cases)
  case dispatched
  with assms(3-5) obtain client mt where
    "dispatch E rd config dhcp client mt T = Inr (out, T')" "m \<noteq> client" by auto
  with assms(2) show ?thesis using lease_step_frame [OF dispatch_step] by blast
qed simp

theorem unrelayed_packet_affects_only_sender_witness:
  "\<exists>out T'. process_incoming_packet sample_libs (readings_at 7) sample_config 43
       (sample_frame client_a 1) lease_table_new = Inr (out, T') \<and>
     leases_of T' client_a = Some (new_lease (readings_at 7) 2) \<and>
     (leases_of T' client_b = leases_of lease_table_new client_b \<or>
      leases_of T' client_b = None \<and> (\<exists>l. leases_of lease_table_new client_b = Some l \<and>
        lease_expiry l \<le> rd_entries (readings_at 7) client_b))"
proof -
  have x: "sample_script 1 = sample_message Request client_a 2" by (simp add: sample_script_def)
  have "validate_requested_ip (rd_entries (readings_at 7)) 2 client_a sample_config lease_table_new"
    by (simp add: sample_validate)
  from sample_grant [OF this] obtain out where
    p: "process_incoming_packet sample_libs (readings_at 7) sample_config 43 (sample_frame client_a 1)
      lease_table_new = Inr (out, sample_table)"
    by (auto simp: sample_process [OF x] sample_table_def)
  have parsed: "parse_dhcp_payload (lib_pnet sample_libs) (lib_dhcproto sample_libs)
      (take 43 (sample_frame client_a 1)) SERVER_PORT = Some (sample_message Request client_a 2)"
    by (simp add: sample_parse x)
  have gi: "msg_giaddr (sample_message Request client_a 2) = ipv4_unspecified"
    by (simp add: ipv4_unspecified_def)
  have src: "client_b \<noteq> eth_source (eth_view (lib_pnet sample_libs) (take 43 (sample_frame client_a 1)))"
    by (simp add: sample_libs_def sample_frame_source)
  from unrelayed_packet_affects_only_sender [OF p table_inv_new parsed gi src] p
  show ?thesis by (auto simp: leases_of_sample)
qed



text \<open>
  A DHCPDISCOVER from a client without a lease, while some host of the network is neither
  the server nor leased (once the expired leases are evicted), is answered by exactly one
  DHCPOFFER. The offered address is the first such host, and the table afterwards is the old
  one with the expired leases evicted and this address leased to the client for 3600 seconds.
\<close>

theorem discover_offers_first_free_host:
  assumes "pnet_documented (lib_pnet E)" and "table_inv T" and "leases_of T client = None"
    and "net_hosts (cfg_net config) = before @ a # after"
    and "\<forall>h \<in> set before. h = cfg_server_ip config \<or>
           h \<in> leased_ips (evicted (rd_entries rd) (leases_of T))"
    and "a \<noteq> cfg_server_ip config" and "a \<notin> leased_ips (evicted (rd_entries rd) (leases_of T))"
    and "sendable E (reply_message E Offer dhcp a config)"
  shows "\<exists>frame T'. handle_dhcp_discover E rd config dhcp client T = Inr ([frame], T') \<and>
    carries E config (get_dest_mac_ip (msg_broadcast dhcp) client a)
      (reply_message E Offer dhcp a config) frame \<and>
    leases_of T' = (evicted (rd_entries rd) (leases_of T))
      (client \<mapsto> \<lparr>lease_ip = a, lease_expiry = rd_stamp rd + from_secs 3600\<rparr>)"
proof -
  let ?n = "next_available_ip (rd_entries rd) (cfg_net config) (cfg_server_ip config) T"
  have "fst ?n = Some a"
    using assms(4-7) by (simp add: lt.fresh_eq [OF assms(2)] find_first)
  then obtain T1 where n: "?n = (Some a, T1)" by (cases ?n) auto
  with lt.leases_fresh [OF assms(2)] lt.inv_fresh [OF assms(2)]
  have T1: "leases_of T1 = evicted (rd_entries rd) (leases_of T)" "table_inv T1"
    by (metis snd_conv)+
  from assms(3) have "lease_table_get T client = None"
    by (simp add: lease_table_get_def leases_of_def)
  with n send_reply_ok [OF assms(1,8), of client] T1 show ?thesis
    by (auto simp: handle_dhcp_discover_def lt.leases_put new_lease_def LAN_LEASE_SECS_def)
qed

theorem discover_offers_first_free_host_witness:
  "\<exists>frame T'. handle_dhcp_discover sample_libs (readings_at 7) sample_config
      (sample_message Discover client_a 0) client_a lease_table_new = Inr ([frame], T') \<and>
    carries sample_libs sample_config (get_dest_mac_ip False client_a 2)
      (reply_message sample_libs Offer (sample_message Discover client_a 0) 2 sample_config) frame \<and>
    leases_of T' = [client_a \<mapsto> \<lparr>lease_ip = 2, lease_expiry = 7 + from_secs 3600\<rparr>]"
proof -
  let ?L = "evicted (rd_entries (readings_at 7)) (leases_of lease_table_new)"
  have empty: "?L = Map.empty" by (simp add: evicted_def fun_eq_iff)
  have hosts: "net_hosts (cfg_net sample_config) = [1] @ 2 # []"
    by (simp add: sample_config_def sample_net_def)
  have before: "\<forall>h \<in> set [1]. h = cfg_server_ip sample_config \<or> h \<in> leased_ips ?L"
    by (simp add: sample_config_def)
  have ne: "(2::ipv4) \<noteq> cfg_server_ip sample_config" by (simp add: sample_config_def)
  have free: "2 \<notin> leased_ips ?L" by (simp add: leased_ips_iff empty)
  have bc: "msg_broadcast (sample_message Discover client_a 0) = False"
    by (simp add: sample_message_def blank_message_def)
  from discover_offers_first_free_host [OF sample_libs_pnet table_inv_new leases_of_new hosts before
      ne free sample_sendable, of "sample_message Discover client_a 0"]
  show ?thesis unfolding empty bc by simp
qed

text \<open>
  what an offer or acknowledgement says: it is a BOOTREPLY with the request's transaction
  id, broadcast flag and hardware address, \<open>yiaddr\<close> is the leased address, the server's own
  address is named as server, router and resolver, the mask is the network's, and the
  announced lease time is the 3600 seconds the table records.
\<close>

theorem reply_message_contents:
  assumes "dhcproto_documented (lib_dhcproto E)" and "length (msg_chaddr dhcp) \<le> 16"
  shows "let r = reply_message E mt dhcp a config in
    msg_opcode r = BootReply \<and> msg_xid r = msg_xid dhcp \<and>
    msg_broadcast r = msg_broadcast dhcp \<and> msg_chaddr r = msg_chaddr dhcp \<and>
    msg_yiaddr r = a \<and> msg_siaddr r = cfg_server_ip config \<and>
    message_type_of r = Some mt \<and>
    opts_get r ServerIdentifierCode = Some (ServerIdentifier (cfg_server_ip config)) \<and>
    opts_get r SubnetMaskCode = Some (SubnetMask (cfg_subnet_mask config)) \<and>
    opts_get r RouterCode = Some (Router [cfg_server_ip config]) \<and>
    opts_get r DomainNameServerCode = Some (DomainNameServer [cfg_server_ip config]) \<and>
    (\<exists>secs. opts_get r AddressLeaseTimeCode = Some (AddressLeaseTime secs) \<and>
       lease_expiry (new_lease rd a) = rd_stamp rd + from_secs (unat secs))"
  using assms by (simp add: reply_message_def Let_def dhcproto_set_chaddr message_type_of_def
      opts_get_insert new_lease_def)

theorem reply_message_contents_witness:
  "msg_yiaddr (reply_message sample_libs Ack (sample_message Request client_a 2) 2 sample_config) = 2 \<and>
   msg_chaddr (reply_message sample_libs Ack (sample_message Request client_a 2) 2 sample_config) =
     mac_octets client_a"
  using reply_message_contents [OF sample_libs_dhcproto, of "sample_message Request client_a 2"
      Ack 2 sample_config "readings_at 7"]
  by (simp add: Let_def)



text \<open>
  The raw socket of the server is never leaked: while the socket is being set up no
  descriptor is open (a descriptor whose \<open>AsyncFd\<close> registration failed is closed), and while
  packets are served exactly the current one is.
\<close>

theorem server_holds_one_descriptor:
  assumes "server_reachable E net s t"
  shows "sv_open_fds s = (case sv_phase s of SettingUp \<Rightarrow> {} | Serving config fd buf \<Rightarrow> {fd})"
  using server_reachable_phase [OF assms] by (simp add: phase_ok_def split: server_phase.splits)

theorem server_holds_one_descriptor_witness:
  "\<exists>s. server_reachable sample_libs sample_net s 7 \<and> sv_open_fds s = {5}"
proof -
  obtain s buf where r: "server_reachable sample_libs sample_net s 7"
    and ph: "sv_phase s = Serving sample_config 5 buf"
    using sample_at_table by (auto simp: sample_at_def)
  from server_holds_one_descriptor [OF r] ph r show ?thesis by auto
qed

text \<open>
  The index of allocated addresses can lose an address that is under an unexpired lease,
  contrary to the documentation of \<open>LeaseTable\<close>: when a client's lease has expired but was
  not evicted, another client is granted its address, and a DHCPRELEASE of the first client
  removes the address from the index. (A run of the server through its handlers.)
\<close>

theorem lease_index_loses_live_address:
  "\<exists>s t l. server_reachable sample_libs sample_net s t \<and>
     leases_of (sv_leases s) client_b = Some l \<and> t < lease_expiry l \<and>
     is_ip_available (sv_leases s) (lease_ip l)"
proof -
  let ?t = "from_secs 3600 + 8"
  let ?T = "lease_table_insert client_b (new_lease (readings_at ?t) 2) sample_table"
  obtain s where at: "sample_at s 7 sample_table" using sample_at_table by blast
  have "validate_requested_ip (rd_entries (readings_at ?t)) 2 client_b sample_config sample_table"
    by (simp add: sample_validate leases_of_sample new_lease_def LAN_LEASE_SECS_def)
  from sample_grant [OF this] obtain out where
    "dispatch sample_libs (readings_at ?t) sample_config (sample_message Request client_b 2) client_b
       Request sample_table = Inr (out, ?T)" by blast
  from sample_at_step [OF at _ this, of 3] obtain s' where at': "sample_at s' ?t ?T"
    by (auto simp: sample_script_def from_secs_def)
  let ?U = "snd (lease_table_remove client_a ?T)"
  have "dispatch sample_libs (readings_at ?t) sample_config (sample_message Release client_a 0) client_a
       Release ?T = Inr ([], ?U)" by (simp add: dispatch_def handle_dhcp_release_def)
  from sample_at_step [OF at' _ this, of 4] obtain s'' where at'': "sample_at s'' ?t ?U"
    by (auto simp: sample_script_def)
  have inv: "table_inv ?T" by (simp add: lt.inv_put)
  have "leases_of ?U client_b = Some (new_lease (readings_at ?t) 2)"
    by (simp add: lt.leases_take_out [OF inv] lt.leases_put)
  moreover have "is_ip_available ?U 2"
  proof -
    have "leases_of ?T client_a = Some (new_lease (readings_at 7) 2)"
      by (simp add: lt.leases_put leases_of_sample)
    then show ?thesis
      by (simp add: is_ip_available_def lease_table_remove_def leases_of_def new_lease_def)
  qed
  moreover have "?t < lease_expiry (new_lease (readings_at ?t) 2)"
    by (simp add: new_lease_def LAN_LEASE_SECS_def from_secs_def)
  ultimately show ?thesis
    using at'' by (auto simp: sample_at_def new_lease_def
        intro!: exI [of _ s''] exI [of _ ?t] exI [of _ "new_lease (readings_at ?t) 2"])
qed

text \<open>
  The re-offer of a DHCPDISCOVER does not look at the expiry of the stored lease: a
  client whose lease of an address is still stored is offered that address even when the
  lease has expired and the address is under another client's unexpired lease. (The REQUEST
  that follows is refused, \<open>server_never_double_leases\<close>.)
\<close>

theorem discover_reoffers_stored_lease:
  assumes "pnet_documented (lib_pnet E)" and "leases_of T client = Some l"
    and "sendable E (reply_message E Offer dhcp (lease_ip l) config)"
  shows "\<exists>frame. handle_dhcp_discover E rd config dhcp client T = Inr ([frame], T) \<and>
    carries E config (get_dest_mac_ip (msg_broadcast dhcp) client (lease_ip l))
      (reply_message E Offer dhcp (lease_ip l) config) frame"
proof -
  from assms(2) have "lease_table_get T client = Some l"
    by (simp add: lease_table_get_def leases_of_def)
  with send_reply_ok [OF assms(1,3), of client] show ?thesis
    by (auto simp: handle_dhcp_discover_def)
qed

theorem discover_reoffers_stored_lease_witness:
  "\<exists>T frame. leases_of T client_a = Some \<lparr>lease_ip = 2, lease_expiry = 5\<rparr> \<and>
     leases_of T client_b = Some \<lparr>lease_ip = 2, lease_expiry = 50\<rparr> \<and>
     handle_dhcp_discover sample_libs (readings_at 10) sample_config
       (sample_message Discover client_a 0) client_a T = Inr ([frame], T) \<and>
     carries sample_libs sample_config (client_a, 2)
       (reply_message sample_libs Offer (sample_message Discover client_a 0) 2 sample_config) frame"
proof -
  let ?T = "lease_table_insert client_b \<lparr>lease_ip = 2, lease_expiry = 50\<rparr>
    (lease_table_insert client_a \<lparr>lease_ip = 2, lease_expiry = 5\<rparr> lease_table_new)"
  have a: "leases_of ?T client_a = Some \<lparr>lease_ip = 2, lease_expiry = 5\<rparr>"
    and b: "leases_of ?T client_b = Some \<lparr>lease_ip = 2, lease_expiry = 50\<rparr>"
    by (simp_all add: lt.leases_put lt.inv_put)
  have bc: "msg_broadcast (sample_message Discover client_a 0) = False"
    by (simp add: sample_message_def blank_message_def)
  from discover_reoffers_stored_lease [OF sample_libs_pnet a sample_sendable,
      of "readings_at 10" sample_config "sample_message Discover client_a 0"] a b bc
  show ?thesis by (auto simp: get_dest_mac_ip_def)
qed

end
