(* ===== verification/Raw_Socket.thy ===== *)
theory Raw_Socket
  imports Prelude
begin

text \<open>
  The helper functions for raw sockets of \<open>src/services/utils.rs\<close>: the hardware address of an
  interface, opening a packet socket bound to it, and the two loops that read and send a frame
  over a non-blocking descriptor. The answers of netlink, of the socket calls and of the runtime
  are arguments, one per call; the calls that create or close a descriptor are in the result.
\<close>

section \<open>The hardware address of an interface\<close>

text \<open>The attributes of a link; \<open>Address\<close> is the one the code looks at.\<close>

datatype link_attribute = Address bytes | OtherAttribute

record link_kernel =
  lk_connect :: "string option"
  lk_link :: "string \<Rightarrow> string + link_attribute list option"

fun attributes_mac :: "link_attribute list \<Rightarrow> mac option" where
  "attributes_mac [] = None"
| "attributes_mac (Address v # attrs) =
     (if length v = 6 then Some (MacAddr (v ! 0) (v ! 1) (v ! 2) (v ! 3) (v ! 4) (v ! 5))
      else attributes_mac attrs)"
| "attributes_mac (OtherAttribute # attrs) = attributes_mac attrs"

definition get_interface_mac :: "link_kernel \<Rightarrow> string \<Rightarrow> string + mac" where
  "get_interface_mac k ifname =
     (case lk_connect k of
        Some e \<Rightarrow> Inl (''Failed to open netlink connection: '' @ e)
      | None \<Rightarrow>
          (case lk_link k ifname of
             Inl e \<Rightarrow> Inl (''Netlink request failed: '' @ e)
           | Inr None \<Rightarrow> Inl (''Interface '' @ ifname @ '' not found'')
           | Inr (Some attributes) \<Rightarrow>
               (case attributes_mac attributes of
                  Some m \<Rightarrow> Inr m
                | None \<Rightarrow> Inl (''No hardware address attribute found for interface '' @ ifname))))"

lemma six_octets: "length v = 6 \<Longrightarrow> mac_octets (MacAddr (v ! 0) (v ! 1) (v ! 2) (v ! 3) (v ! 4) (v ! 5)) = v"
  by (auto simp: numeral_eq_Suc length_Suc_conv)

text \<open>The first six-octet address of the link is its hardware address.\<close>

definition is_hardware_address :: "link_attribute \<Rightarrow> bool" where
  "is_hardware_address a = (case a of Address v \<Rightarrow> length v = 6 | OtherAttribute \<Rightarrow> False)"

lemma attributes_mac_find:
  "attributes_mac attrs = Some m \<longleftrightarrow> find is_hardware_address attrs = Some (Address (mac_octets m))"
proof (induction attrs rule: attributes_mac.induct)
  case (2 v attrs)
  show ?case
  proof (cases "length v = 6")
    case True
    then have "MacAddr (v ! 0) (v ! 1) (v ! 2) (v ! 3) (v ! 4) (v ! 5) = m \<longleftrightarrow> v = mac_octets m"
      using six_octets [OF True] by (metis mac_of_octets_octets option.inject)
    with True show ?thesis by (simp add: is_hardware_address_def)
  qed (use 2 in \<open>simp add: is_hardware_address_def\<close>)
qed (simp_all add: is_hardware_address_def)

section \<open>Opening a raw socket\<close>

text \<open>\<open>libc::sockaddr_ll\<close>, the fields that are set; the others are zero.\<close>

record sockaddr_ll =
  sll_family :: u16
  sll_protocol :: u16
  sll_ifindex :: "32 word"

definition AF_PACKET :: u16 where "AF_PACKET = 17"
definition ETH_P_ALL :: u16 where "ETH_P_ALL = 3"

text \<open>\<open>u16::to_be\<close> swaps the bytes: every target of the build is little-endian.\<close>

definition u16_to_be :: "u16 \<Rightarrow> u16" where
  "u16_to_be x = push_bit 8 x OR drop_bit 8 x"

text \<open>
  The calls with an effect on descriptors, and the answers of the kernel: a descriptor or an
  error, and what the later calls on it say.
\<close>

datatype socket_call =
    CreateSocket int
  | SetNonblocking int
  | BindTo int sockaddr_ll
  | CloseSocket int

record socket_kernel =
  sk_socket :: "string + int"
  sk_nonblocking :: "string option"
  sk_nametoindex :: "string \<Rightarrow> u32"
  sk_bind :: "string option"

text \<open>
  An early return or the panic of \<open>CString::new(..).unwrap()\<close> drops the \<open>Socket\<close>, which closes
  its descriptor; on success \<open>into_raw_fd\<close> gives the descriptor away open.
\<close>

definition open_raw_socket ::
  "socket_kernel \<Rightarrow> string \<Rightarrow> socket_call list \<times> (string + int) outcome" where
  "open_raw_socket k ifname =
     (case sk_socket k of
        Inl e \<Rightarrow> ([], Inr (Inl (''socket(AF_PACKET) failed: '' @ e)))
      | Inr fd \<Rightarrow>
     case sk_nonblocking k of
        Some e \<Rightarrow> ([CreateSocket fd, SetNonblocking fd, CloseSocket fd],
                    Inr (Inl (''Failed to set nonblocking mode: '' @ e)))
      | None \<Rightarrow>
          if CHR 0x00 \<in> set ifname
          then ([CreateSocket fd, SetNonblocking fd, CloseSocket fd], Inl UnwrapOnErr)
          else (let if_index = sk_nametoindex k ifname
            in if if_index = 0
               then ([CreateSocket fd, SetNonblocking fd, CloseSocket fd],
                     Inr (Inl (''Interface not found: '' @ ifname)))
               else (let addr = \<lparr>sll_family = AF_PACKET, sll_protocol = u16_to_be ETH_P_ALL,
                                 sll_ifindex = if_index\<rparr>
                 in case sk_bind k of
                      Some e \<Rightarrow> ([CreateSocket fd, SetNonblocking fd, BindTo fd addr, CloseSocket fd],
                                  Inr (Inl (''bind(AF_PACKET) failed: '' @ e)))
                    | None \<Rightarrow> ([CreateSocket fd, SetNonblocking fd, BindTo fd addr], Inr (Inr fd)))))"

text \<open>The descriptors a list of calls leaves open.\<close>

fun descriptor_after :: "socket_call \<Rightarrow> int set \<Rightarrow> int set" where
  "descriptor_after (CreateSocket fd) fds = insert fd fds"
| "descriptor_after (CloseSocket fd) fds = fds - {fd}"
| "descriptor_after _ fds = fds"

definition open_after :: "socket_call list \<Rightarrow> int set \<Rightarrow> int set" where
  "open_after calls fds = fold descriptor_after calls fds"

lemma open_after_simps [simp]:
  "open_after [] fds = fds"
  "open_after (c # cs) fds = open_after cs (descriptor_after c fds)"
  "open_after (cs @ cs') fds = open_after cs' (open_after cs fds)"
  by (simp_all add: open_after_def)

lemma open_raw_socket_balance:
  assumes "\<And>fd. sk_socket k = Inr fd \<Longrightarrow> fd \<notin> fds"
  shows "open_after (fst (open_raw_socket k name)) fds =
    (case snd (open_raw_socket k name) of Inr (Inr fd) \<Rightarrow> insert fd fds | _ \<Rightarrow> fds)"
  using assms by (auto simp: open_raw_socket_def Let_def split: sum.split option.split)

lemma open_raw_socket_ok:
  "snd (open_raw_socket k name) = Inr (Inr fd) \<longleftrightarrow>
     sk_socket k = Inr fd \<and> sk_nonblocking k = None \<and> CHR 0x00 \<notin> set name \<and>
     sk_nametoindex k name \<noteq> 0 \<and> sk_bind k = None"
  by (auto simp: open_raw_socket_def Let_def split: sum.split option.split)

text \<open>C34: Opening a raw socket never leaks a descriptor: whichever call fails, and also if the
  interface's name cannot be a C string and the function panics, the descriptor it created is
  closed again; it succeeds exactly if every call does, and then the one descriptor it leaves
  open is non-blocking and bound to all protocols of the interface of that name, in this
  order.\<close>

theorem open_raw_socket_never_leaks:
  assumes "\<forall>fd. sk_socket k = Inr fd \<longrightarrow> fd \<notin> fds"
  shows "case open_raw_socket k name of (calls, res) \<Rightarrow>
      open_after calls fds = (case res of Inr (Inr fd) \<Rightarrow> insert fd fds | _ \<Rightarrow> fds)
    \<and> (\<forall>fd. res = Inr (Inr fd) \<longleftrightarrow> sk_socket k = Inr fd \<and> sk_nonblocking k = None \<and>
         CHR 0x00 \<notin> set name \<and> sk_nametoindex k name \<noteq> 0 \<and> sk_bind k = None)
    \<and> (\<forall>fd. res = Inr (Inr fd) \<longrightarrow> calls = [CreateSocket fd, SetNonblocking fd,
         BindTo fd \<lparr>sll_family = 17, sll_protocol = 0x0300, sll_ifindex = sk_nametoindex k name\<rparr>])"
proof -
  have balance: "open_after (fst (open_raw_socket k name)) fds =
      (case snd (open_raw_socket k name) of Inr (Inr fd) \<Rightarrow> insert fd fds | _ \<Rightarrow> fds)"
    using assms by (intro open_raw_socket_balance) blast
  have "fst (open_raw_socket k name) = [CreateSocket fd, SetNonblocking fd,
      BindTo fd \<lparr>sll_family = 17, sll_protocol = 0x0300, sll_ifindex = sk_nametoindex k name\<rparr>]"
    if "snd (open_raw_socket k name) = Inr (Inr fd)" for fd
    using that unfolding open_raw_socket_ok
    by (simp add: open_raw_socket_def Let_def AF_PACKET_def ETH_P_ALL_def u16_to_be_def)
  with balance open_raw_socket_ok [of k name] show ?thesis by (simp add: case_prod_beta)
qed

definition sample_socket_kernel :: socket_kernel where
  "sample_socket_kernel = \<lparr>sk_socket = Inr 7, sk_nonblocking = None,
     sk_nametoindex = (\<lambda>n. if n = ''eth1'' then 3 else 0), sk_bind = None\<rparr>"

theorem open_raw_socket_never_leaks_witness:
  "open_after (fst (open_raw_socket sample_socket_kernel ''eth9'')) {4} = {4}"
  using open_raw_socket_never_leaks [of sample_socket_kernel "{4}" "''eth9''"]
  by (simp add: sample_socket_kernel_def open_raw_socket_def)

section \<open>Reading a frame\<close>

text \<open>\<open>std::io::Error\<close> by the one kind the runtime looks at.\<close>

datatype io_error = WouldBlock | OtherIo string

text \<open>
  \<open>try_read_raw\<close>: \<open>recv\<close> copies the front of a frame into the buffer and drops the rest;
  \<open>AsyncFdReadyGuard::try_io\<close> turns \<open>WouldBlock\<close> into "not ready after all".
\<close>

definition try_read_raw :: "io_error + bytes \<Rightarrow> bytes \<Rightarrow> bytes \<times> (string + nat option)" where
  "try_read_raw res buf =
     (case res of
        Inr frame \<Rightarrow>
          (let n = min (length frame) (length buf) in (take n frame @ drop n buf, Inr (Some n)))
      | Inl (OtherIo e) \<Rightarrow> (buf, Inl e)
      | Inl WouldBlock \<Rightarrow> (buf, Inr None))"

text \<open>
  A turn of the loop: whether waiting for readiness failed, and the answer of \<open>recv\<close>. The
  result is \<open>None\<close> while the turns have not ended the loop.
\<close>

record read_turn =
  rt_ready :: "string option"
  rt_recv :: "io_error + bytes"

fun read_raw_packet :: "read_turn list \<Rightarrow> bytes \<Rightarrow> bytes \<times> (string + nat) option" where
  "read_raw_packet [] buf = (buf, None)"
| "read_raw_packet (t # ts) buf =
     (case rt_ready t of
        Some e \<Rightarrow> (buf, Some (Inl e))
      | None \<Rightarrow>
          (case try_read_raw (rt_recv t) buf of
             (buf', Inl e) \<Rightarrow> (buf', Some (Inl e))
           | (buf', Inr (Some n)) \<Rightarrow> (buf', Some (Inr n))
           | (buf', Inr None) \<Rightarrow> read_raw_packet ts buf'))"

definition not_ready :: "read_turn \<Rightarrow> bool" where
  "not_ready t \<longleftrightarrow> rt_ready t = None \<and> rt_recv t = Inl WouldBlock"

text \<open>What a blocking read of one frame, or of one error, would leave and answer.\<close>

definition blocking_read :: "string + bytes \<Rightarrow> bytes \<Rightarrow> bytes \<times> (string + nat)" where
  "blocking_read res buf =
     (case res of
        Inl e \<Rightarrow> (buf, Inl e)
      | Inr frame \<Rightarrow>
          (take (length buf) frame @ drop (length frame) buf, Inr (min (length frame) (length buf))))"

definition turn_result :: "read_turn \<Rightarrow> string + bytes" where
  "turn_result t =
     (case rt_ready t of
        Some e \<Rightarrow> Inl e
      | None \<Rightarrow> (case rt_recv t of Inr frame \<Rightarrow> Inr frame | Inl (OtherIo e) \<Rightarrow> Inl e
                             | Inl WouldBlock \<Rightarrow> Inl []))"

lemma read_raw_skip: "not_ready t \<Longrightarrow> read_raw_packet (t # ts) buf = read_raw_packet ts buf"
  by (simp add: not_ready_def try_read_raw_def)

lemma read_raw_ready:
  "\<not> not_ready t \<Longrightarrow> read_raw_packet (t # ts) buf =
     (fst (blocking_read (turn_result t) buf), Some (snd (blocking_read (turn_result t) buf)))"
  by (cases "rt_ready t"; cases "rt_recv t")
    (auto simp: not_ready_def try_read_raw_def blocking_read_def turn_result_def Let_def min_def
      split: io_error.splits)

lemma read_raw_packet_loop:
  "read_raw_packet ts buf =
     (case find (\<lambda>t. \<not> not_ready t) ts of
        None \<Rightarrow> (buf, None)
      | Some t \<Rightarrow> (case blocking_read (turn_result t) buf of (buf', res) \<Rightarrow> (buf', Some res)))"
proof (induction ts)
  case (Cons t ts)
  then show ?case
    by (cases "not_ready t") (simp_all add: read_raw_skip read_raw_ready case_prod_beta del: read_raw_packet.simps(2))
qed simp

text \<open>Reading a frame is a blocking read: the loop goes on exactly as long as the descriptor
  is not ready after all, without touching the buffer, and the first turn that is different
  decides as a blocking read would. A frame is copied to the front of the buffer as far as it
  goes, with the rest unchanged and the number of bytes copied as the result; an error of the
  readiness or of the read is the result and leaves the buffer.\<close>

theorem read_raw_packet_blocks_until_ready:
  "read_raw_packet ts buf =
     (case find (\<lambda>t. \<not> not_ready t) ts of
        None \<Rightarrow> (buf, None)
      | Some t \<Rightarrow> (case blocking_read (turn_result t) buf of (buf', res) \<Rightarrow> (buf', Some res)))"
  by (rule read_raw_packet_loop)

section \<open>Sending a frame\<close>

text \<open>\<open>try_write_raw\<close> and \<open>send_raw_packet\<close>; every error ends the loop silently. The result is
  the frames the kernel took, and whether the loop has ended.\<close>

definition try_write_raw :: "io_error + int \<Rightarrow> string + int option" where
  "try_write_raw res =
     (case res of Inr n \<Rightarrow> Inr (Some n) | Inl (OtherIo e) \<Rightarrow> Inl e | Inl WouldBlock \<Rightarrow> Inr None)"

record write_turn =
  wt_ready :: "string option"
  wt_send :: "io_error + int"

fun send_raw_packet :: "write_turn list \<Rightarrow> bytes \<Rightarrow> bytes list \<times> bool" where
  "send_raw_packet [] frame = ([], False)"
| "send_raw_packet (t # ts) frame =
     (case wt_ready t of
        Some e \<Rightarrow> ([], True)
      | None \<Rightarrow>
          (case try_write_raw (wt_send t) of
             Inr None \<Rightarrow> send_raw_packet ts frame
           | Inr (Some n) \<Rightarrow> ([frame], True)
           | Inl e \<Rightarrow> ([], True)))"

text \<open>A frame is sent at most once, and not at all only after an error.\<close>

definition not_writable :: "write_turn \<Rightarrow> bool" where
  "not_writable t \<longleftrightarrow> wt_ready t = None \<and> wt_send t = Inl WouldBlock"

lemma send_raw_packet_once:
  "send_raw_packet ts frame =
     (case find (\<lambda>t. \<not> not_writable t) ts of
        None \<Rightarrow> ([], False)
      | Some t \<Rightarrow> (if wt_ready t = None \<and> isl (wt_send t) = False then [frame] else [], True))"
proof (induction ts)
  case (Cons t ts)
  show ?case
  proof (cases "wt_ready t = None \<and> wt_send t = Inl WouldBlock")
    case True
    with Cons show ?thesis by (simp add: not_writable_def try_write_raw_def)
  next
    case False
    then show ?thesis
      by (cases "wt_ready t"; cases "wt_send t")
        (auto simp: not_writable_def try_write_raw_def split: io_error.split)
  qed
qed simp

end
