(* ===== verification/Machines.thy ===== *)
theory Machines
  imports Prelude
begin

text \<open>
  The machines of the services (the DHCP client, the tasks of the DNS forwarder, the loop of the
  DHCP server) have one shape: a function that takes an event and a state and answers outputs
  and the next state. This theory holds their common contract. \<open>machine_invariant\<close> is a machine
  with a property every event keeps; \<open>progress_machine\<close> adds what is left to do, a number no
  event raises while it is positive and every helpful event lowers; \<open>finishing_machine\<close> also
  stays at zero. \<open>simulation\<close> relates a step relation to the one of its specification. The
  theories of the services interpret the locales on their own steps.
\<close>

section \<open>Runs\<close>

text \<open>A run over a finite list of events, and the states along an endless schedule of events.\<close>

definition run_events :: "('e \<Rightarrow> 's \<Rightarrow> 'o \<times> 's) \<Rightarrow> 'e list \<Rightarrow> 's \<Rightarrow> 's" where
  "run_events step evs s = fold (\<lambda>ev s. snd (step ev s)) evs s"

primrec trajectory :: "('e \<Rightarrow> 's \<Rightarrow> 'o \<times> 's) \<Rightarrow> (nat \<Rightarrow> 'e) \<Rightarrow> 's \<Rightarrow> nat \<Rightarrow> 's" where
  "trajectory step evs s 0 = s"
| "trajectory step evs s (Suc n) = snd (step (evs n) (trajectory step evs s n))"

lemma run_events_simps [simp]:
  "run_events step [] s = s"
  "run_events step (ev # evs) s = run_events step evs (snd (step ev s))"
  "run_events step (evs @ evs') s = run_events step evs' (run_events step evs s)"
  by (simp_all add: run_events_def)

text \<open>What a run puts out.\<close>

fun run_outputs :: "('e \<Rightarrow> 's \<Rightarrow> 'o list \<times> 's) \<Rightarrow> 'e list \<Rightarrow> 's \<Rightarrow> 'o list" where
  "run_outputs step [] s = []"
| "run_outputs step (ev # evs) s = fst (step ev s) @ run_outputs step evs (snd (step ev s))"

lemma run_outputs_append [simp]:
  "run_outputs step (evs @ evs') s = run_outputs step evs s @ run_outputs step evs' (run_events step evs s)"
  by (induction evs arbitrary: s) simp_all

lemma trajectory_run: "trajectory step evs s n = run_events step (map evs [0..<n]) s"
  by (induction n) simp_all

lemma trajectory_add:
  "trajectory step evs s (n + k) = trajectory step (\<lambda>i. evs (n + i)) (trajectory step evs s n) k"
  by (induction k) simp_all

section \<open>Contracts\<close>

locale machine_invariant =
  fixes step :: "'e \<Rightarrow> 's \<Rightarrow> 'o \<times> 's" and inv :: "'s \<Rightarrow> bool"
  assumes inv_step: "inv s \<Longrightarrow> inv (snd (step ev s))"
begin

lemma inv_run: "inv s \<Longrightarrow> inv (run_events step evs s)"
  by (induction evs arbitrary: s) (simp_all add: inv_step)

lemma inv_trajectory: "inv s \<Longrightarrow> inv (trajectory step evs s n)"
  by (simp add: trajectory_run inv_run)

end

locale progress_machine = machine_invariant step inv
  for step :: "'e \<Rightarrow> 's \<Rightarrow> 'o \<times> 's" and inv :: "'s \<Rightarrow> bool" +
  fixes rank :: "'s \<Rightarrow> nat" and allowed :: "'s \<Rightarrow> 'e \<Rightarrow> bool" and helpful :: "'s \<Rightarrow> 'e \<Rightarrow> bool"
  assumes rank_le: "inv s \<Longrightarrow> 0 < rank s \<Longrightarrow> allowed s ev \<Longrightarrow> rank (snd (step ev s)) \<le> rank s"
    and rank_less: "inv s \<Longrightarrow> 0 < rank s \<Longrightarrow> helpful s ev \<Longrightarrow> rank (snd (step ev s)) < rank s"
begin

text \<open>A schedule that only has allowed events until the goal is reached, and is helpful again
  and again.\<close>

definition fair :: "(nat \<Rightarrow> 'e) \<Rightarrow> 's \<Rightarrow> bool" where
  "fair evs s \<longleftrightarrow> (\<forall>n. 0 < rank (trajectory step evs s n) \<longrightarrow>
     allowed (trajectory step evs s n) (evs n) \<and>
     (\<exists>m \<ge> n. helpful (trajectory step evs s m) (evs m)))"

lemma rank_stretch:
  assumes inv: "inv s" and fair: "fair evs s"
    and busy: "\<And>i. 0 < rank (trajectory step evs s i)"
  shows "rank (trajectory step evs s (n + k)) \<le> rank (trajectory step evs s n)"
proof (induction k)
  case (Suc k)
  have "rank (trajectory step evs s (Suc (n + k))) \<le> rank (trajectory step evs s (n + k))"
    using rank_le [OF inv_trajectory [OF inv] busy] fair busy by (simp add: fair_def)
  with Suc show ?case by simp
qed simp

theorem reaches_goal:
  assumes inv: "inv s" and fair: "fair evs s"
  shows "\<exists>n. rank (trajectory step evs s n) = 0"
proof (rule ccontr)
  assume "\<not> ?thesis"
  then have busy: "0 < rank (trajectory step evs s i)" for i by simp
  have down: "\<exists>m > n. rank (trajectory step evs s m) < rank (trajectory step evs s n)" for n
  proof -
    obtain k where k: "helpful (trajectory step evs s (n + k)) (evs (n + k))"
      using fair busy [of n] unfolding fair_def by (metis le_Suc_ex)
    have "rank (trajectory step evs s (Suc (n + k))) < rank (trajectory step evs s (n + k))"
      using rank_less [OF inv_trajectory [OF inv] busy k] by simp
    also have "\<dots> \<le> rank (trajectory step evs s n)"
      by (rule rank_stretch [OF inv fair busy])
    finally show ?thesis by (intro exI [of _ "Suc (n + k)"]) simp
  qed
  have "\<exists>m. rank (trajectory step evs s m) + n \<le> rank s" for n
  proof (induction n)
    case 0
    show ?case by (intro exI [of _ 0]) simp
  next
    case (Suc n)
    then obtain m where m: "rank (trajectory step evs s m) + n \<le> rank s" by blast
    from down [of m] obtain m' where
      "rank (trajectory step evs s m') < rank (trajectory step evs s m)" by blast
    with m show ?case by (intro exI [of _ m']) simp
  qed
  from this [of "Suc (rank s)"] show False by auto
qed

text \<open>In particular a run of helpful events, one for each unit of what is left, is enough.\<close>

lemma helpful_run:
  assumes "inv s" and "\<And>s. inv s \<Longrightarrow> 0 < rank s \<Longrightarrow> \<exists>ev. good ev \<and> helpful s ev"
  shows "\<exists>evs. length evs \<le> rank s \<and> (\<forall>ev \<in> set evs. good ev) \<and> rank (run_events step evs s) = 0"
  using assms(1)
proof (induction "rank s" arbitrary: s rule: less_induct)
  case less
  show ?case
  proof (cases "rank s = 0")
    case True
    then show ?thesis by (intro exI [of _ "[]"]) simp
  next
    case False
    then obtain ev where ev: "good ev" "helpful s ev" using assms(2) less.prems by blast
    have lt: "rank (snd (step ev s)) < rank s"
      using rank_less [OF less.prems _ ev(2)] False by simp
    obtain evs where "length evs \<le> rank (snd (step ev s))" "\<forall>ev \<in> set evs. good ev"
      "rank (run_events step evs (snd (step ev s))) = 0"
      using less.hyps [OF lt inv_step [OF less.prems]] by blast
    with ev(1) lt show ?thesis by (intro exI [of _ "ev # evs"]) auto
  qed
qed

end

locale finishing_machine = progress_machine step inv rank allowed helpful
  for step :: "'e \<Rightarrow> 's \<Rightarrow> 'o \<times> 's" and inv :: "'s \<Rightarrow> bool" and rank :: "'s \<Rightarrow> nat"
    and allowed :: "'s \<Rightarrow> 'e \<Rightarrow> bool" and helpful :: "'s \<Rightarrow> 'e \<Rightarrow> bool" +
  assumes rank_stays: "inv s \<Longrightarrow> rank s = 0 \<Longrightarrow> rank (snd (step ev s)) = 0"
begin

lemma stays_at_goal:
  "inv s \<Longrightarrow> rank (trajectory step evs s n) = 0 \<Longrightarrow> rank (trajectory step evs s (n + k)) = 0"
  by (induction k) (simp_all add: rank_stays inv_trajectory)

theorem finishes:
  assumes "inv s" and "fair evs s"
  shows "\<exists>n. \<forall>m \<ge> n. rank (trajectory step evs s m) = 0"
proof -
  obtain n where "rank (trajectory step evs s n) = 0" using reaches_goal [OF assms] by blast
  then show ?thesis
    by (intro exI [of _ n] allI impI) (metis assms(1) le_Suc_ex stays_at_goal)
qed

end

section \<open>Specifications\<close>

text \<open>
  A step relation implements another one if every step from a state with the invariant keeps it
  and is a step of the other, seen through an abstraction of the state. Then every state it
  reaches is, seen so, one the specification reaches, and what the specification keeps, it keeps.
\<close>

locale simulation =
  fixes start :: "'s \<Rightarrow> bool" and step :: "'s \<Rightarrow> 's \<Rightarrow> bool" and inv :: "'s \<Rightarrow> bool"
    and abs :: "'s \<Rightarrow> 'a" and spec_start :: "'a \<Rightarrow> bool" and spec_step :: "'a \<Rightarrow> 'a \<Rightarrow> bool"
  assumes start_inv: "start s \<Longrightarrow> inv s" and start_spec: "start s \<Longrightarrow> spec_start (abs s)"
    and step_inv: "inv s \<Longrightarrow> step s s' \<Longrightarrow> inv s'"
    and step_spec: "inv s \<Longrightarrow> step s s' \<Longrightarrow> spec_step (abs s) (abs s')"
begin

lemma run_inv: "step\<^sup>*\<^sup>* s s' \<Longrightarrow> inv s \<Longrightarrow> inv s'"
  by (induction rule: rtranclp_induct) (auto intro: step_inv)

lemma run_spec: "step\<^sup>*\<^sup>* s s' \<Longrightarrow> inv s \<Longrightarrow> spec_step\<^sup>*\<^sup>* (abs s) (abs s')"
proof (induction rule: rtranclp_induct)
  case (step s' s'')
  then have "spec_step (abs s') (abs s'')" by (blast intro: step_spec run_inv)
  with step show ?case by (simp add: rtranclp.rtrancl_into_rtrancl)
qed simp

theorem implements:
  "start s \<Longrightarrow> step\<^sup>*\<^sup>* s s' \<Longrightarrow> \<exists>a. spec_start a \<and> spec_step\<^sup>*\<^sup>* a (abs s')"
  using run_spec start_inv start_spec by blast

theorem spec_invariant:
  assumes "start s" and "step\<^sup>*\<^sup>* s s'" and "\<And>a. spec_start a \<Longrightarrow> P a"
    and "\<And>a a'. P a \<Longrightarrow> spec_step a a' \<Longrightarrow> P a'"
  shows "P (abs s')"
proof -
  have "spec_step\<^sup>*\<^sup>* (abs s) (abs s')" using assms(1,2) run_spec start_inv by blast
  then show ?thesis
    by (induction rule: rtranclp_induct) (auto intro: assms(3,4) start_spec [OF assms(1)])
qed

end

end
