(* ===== verification/Server_Socket.thy ===== *)
theory Server_Socket
  imports Dhcp_Server Raw_Socket Machines
begin

text \<open>
  The socket of the LAN DHCP server: \<open>setup_server_socket\<close> over the calls of \<open>Raw_Socket\<close>, the
  reads of \<open>run_server_loop\<close>, and the end of an iteration of \<open>start_dhcp_server\<close>. The state machine
  \<open>server_step\<close> takes the results of these calls as events; here the calls produce them.
\<close>

section \<open>Setting up\<close>

text \<open>\<open>async_error\<close> is the answer of \<open>AsyncFd::new\<close>.\<close>

definition setup_server_calls ::
  "link_kernel \<Rightarrow> socket_kernel \<Rightarrow> string option \<Rightarrow> string \<Rightarrow>
     socket_call list \<times> (server_error + mac \<times> int) outcome" where
  "setup_server_calls lk sk async_error lan_interface =
     (case get_interface_mac lk lan_interface of
        Inl e \<Rightarrow> ([], Inr (Inl (MacAddressError e)))
      | Inr m \<Rightarrow>
          (case open_raw_socket sk lan_interface of
             (calls, Inl p) \<Rightarrow> (calls, Inl p)
           | (calls, Inr (Inl e)) \<Rightarrow> (calls, Inr (Inl (RawSocketError e)))
           | (calls, Inr (Inr raw_fd)) \<Rightarrow>
               (case async_error of
                  Some e \<Rightarrow> (calls @ [CloseSocket raw_fd], Inr (Inl (AsyncSocketError e)))
                | None \<Rightarrow> (calls, Inr (Inr (m, raw_fd))))))"

text \<open>\<open>impl Display for ServerError\<close>.\<close>

fun server_error_display :: "server_error \<Rightarrow> string" where
  "server_error_display (MacAddressError e) = ''Failed to get MAC address: '' @ e"
| "server_error_display (RawSocketError e) = ''Failed to open raw socket: '' @ e"
| "server_error_display (AsyncSocketError e) = ''Failed to wrap raw socket in async fd: '' @ e"

definition async_result :: "string option \<Rightarrow> string + unit" where
  "async_result async_error = (case async_error of Some e \<Rightarrow> Inl e | None \<Rightarrow> Inr ())"

lemma setup_server_calls_balance:
  assumes "\<And>fd. sk_socket sk = Inr fd \<Longrightarrow> fd \<notin> fds"
  shows "open_after (fst (setup_server_calls lk sk ae lan)) fds =
    (case snd (setup_server_calls lk sk ae lan) of Inr (Inr (m, fd)) \<Rightarrow> insert fd fds | _ \<Rightarrow> fds)"
proof -
  have balance: "open_after (fst (open_raw_socket sk lan)) fds =
      (case snd (open_raw_socket sk lan) of Inr (Inr fd) \<Rightarrow> insert fd fds | _ \<Rightarrow> fds)"
    using assms by (rule open_raw_socket_balance)
  have fresh: "fd \<notin> fds" if "snd (open_raw_socket sk lan) = Inr (Inr fd)" for fd
    using that assms by (simp add: open_raw_socket_ok)
  show ?thesis
    using balance fresh
    by (cases "open_raw_socket sk lan"; cases "snd (open_raw_socket sk lan)")
      (auto simp: setup_server_calls_def split: sum.splits option.splits)
qed

text \<open>The results of the calls are an event of the server's machine.\<close>

lemma setup_server_calls_event:
  assumes "CHR 0x00 \<notin> set lan"
  shows "\<exists>raw_res. snd (open_raw_socket sk lan) = Inr raw_res \<and>
    snd (setup_server_calls lk sk ae lan) =
      Inr (snd (setup_server_socket (get_interface_mac lk lan) raw_res (async_result ae)))"
proof -
  obtain calls res where o: "open_raw_socket sk lan = (calls, res)" by (cases "open_raw_socket sk lan")
  moreover have "\<exists>raw_res. snd (open_raw_socket sk lan) = Inr raw_res"
    using assms by (auto simp: open_raw_socket_def Let_def split: sum.split option.split)
  ultimately obtain raw_res where "res = Inr raw_res" by auto
  with o show ?thesis
    by (auto simp: setup_server_calls_def setup_server_socket_def async_result_def
        split: sum.splits option.splits)
qed

text \<open>The server's set-up does what its state machine says: for every interface name the
  results of the calls are an event whose step from the set-up phase ends with exactly the
  descriptors open that the calls leave open, and it starts serving exactly if every call
  succeeded, with the hardware address of the interface and the descriptor of the socket; after
  any error the set of open descriptors is what it was.\<close>

theorem setup_implements_event:
  assumes "sv_phase s = SettingUp" and "CHR 0x00 \<notin> set lan"
    and "\<forall>fd. sk_socket sk = Inr fd \<longrightarrow> fd \<notin> sv_open_fds s"
  shows "\<exists>raw_res s'. snd (open_raw_socket sk lan) = Inr raw_res
    \<and> server_step E net (Setup (get_interface_mac lk lan) raw_res (async_result ae)) s = Inr ([], s')
    \<and> sv_open_fds s' = open_after (fst (setup_server_calls lk sk ae lan)) (sv_open_fds s)
    \<and> (case snd (setup_server_calls lk sk ae lan) of
         Inr (Inr (m, fd)) \<Rightarrow>
           get_interface_mac lk lan = Inr m \<and> sv_open_fds s' = insert fd (sv_open_fds s) \<and>
           sv_phase s' = Serving \<lparr>cfg_server_ip = net_addr net, cfg_subnet_mask = net_netmask net,
             cfg_server_mac = m, cfg_net = net\<rparr> fd (replicate 2048 0)
       | _ \<Rightarrow> s' = s)"
proof -
  obtain raw_res where raw: "snd (open_raw_socket sk lan) = Inr raw_res"
    and results: "snd (setup_server_calls lk sk ae lan) =
      Inr (snd (setup_server_socket (get_interface_mac lk lan) raw_res (async_result ae)))"
    using setup_server_calls_event [OF assms(2)] by blast
  have fresh: "fd \<notin> sv_open_fds s" if "raw_res = Inr fd" for fd
    using that raw assms(3) by (simp add: open_raw_socket_ok)
  have balance: "open_after (fst (setup_server_calls lk sk ae lan)) (sv_open_fds s) =
      (case snd (setup_server_calls lk sk ae lan) of
         Inr (Inr (m, fd)) \<Rightarrow> insert fd (sv_open_fds s) | _ \<Rightarrow> sv_open_fds s)"
    using assms(3) by (intro setup_server_calls_balance) blast
  show ?thesis
    unfolding balance results
    using raw fresh assms(1)
    by (cases "get_interface_mac lk lan"; cases raw_res; cases ae)
      (auto simp: setup_server_socket_def async_result_def BUF_LEN_def)
qed

definition sample_link_kernel :: link_kernel where
  "sample_link_kernel = \<lparr>lk_connect = None,
     lk_link = (\<lambda>n. Inr (Some [OtherAttribute, Address [2, 0, 0, 0, 0, 9]]))\<rparr>"

definition sample_setting_up :: server_state where
  "sample_setting_up = \<lparr>sv_phase = SettingUp, sv_leases = lease_table_new, sv_open_fds = {}\<rparr>"

theorem setup_implements_event_witness:
  "\<exists>s'. server_step sample_libs sample_net
       (Setup (Inr (MacAddr 2 0 0 0 0 9)) (Inr 7) (async_result None)) sample_setting_up = Inr ([], s')
     \<and> sv_open_fds s' = {7}"
proof -
  have "get_interface_mac sample_link_kernel ''eth1'' = Inr (MacAddr 2 0 0 0 0 9)"
    by (simp add: get_interface_mac_def sample_link_kernel_def)
  moreover have "snd (open_raw_socket sample_socket_kernel ''eth1'') = Inr (Inr 7)"
    by (simp add: open_raw_socket_ok) (simp add: sample_socket_kernel_def)
  ultimately show ?thesis
    using setup_implements_event [of sample_setting_up "''eth1''" sample_socket_kernel sample_libs
        sample_net sample_link_kernel None]
    by (auto simp: sample_setting_up_def setup_server_calls_def split: prod.splits)
qed

section \<open>Reading\<close>

text \<open>The event of one call of \<open>read_raw_packet\<close> that has ended, by the turn that ended it.\<close>

definition read_event :: "readings \<Rightarrow> read_turn \<Rightarrow> server_event" where
  "read_event rd t = (case turn_result t of Inl e \<Rightarrow> ReadFailed e | Inr frame \<Rightarrow> Received rd frame)"

text \<open>C23: One turn of \<open>run_server_loop\<close> is one event of the server's machine: the loop of
  \<open>read_raw_packet\<close> over the socket's answers ends with the first one that is ready, and the
  server's step for it handles exactly the bytes that read has put into the buffer, of which the
  part behind the frame is left over from earlier frames; while no answer is ready the server
  waits and its buffer keeps its contents.\<close>

theorem reads_drive_server:
  assumes "sv_phase s = Serving config fd buf"
  shows "case read_raw_packet ts buf of
      (buf', None) \<Rightarrow> buf' = buf \<and> (\<forall>t \<in> set ts. not_ready t)
    | (buf', Some (Inl e)) \<Rightarrow> (\<exists>t \<in> set ts. read_event rd t = ReadFailed e \<and>
        server_step E net (read_event rd t) s =
          Inr ([], s\<lparr>sv_phase := SettingUp, sv_open_fds := sv_open_fds s - {fd}\<rparr>))
    | (buf', Some (Inr n)) \<Rightarrow> n \<le> length buf \<and> length buf' = length buf \<and> drop n buf' = drop n buf \<and>
        (\<exists>t \<in> set ts. server_step E net (read_event rd t) s =
          obind (process_incoming_packet E rd config n buf' (sv_leases s)) (\<lambda>(out, T).
            Inr (out, s\<lparr>sv_phase := Serving config fd buf', sv_leases := T\<rparr>)))"
proof (cases "find (\<lambda>t. \<not> not_ready t) ts")
  case None
  then have "\<forall>t \<in> set ts. not_ready t" by (simp add: find_None_iff)
  with None show ?thesis by (simp add: read_raw_packet_loop)
next
  case (Some t)
  then have t: "t \<in> set ts" by (auto simp: find_Some_iff)
  show ?thesis
  proof (cases "turn_result t")
    case (Inl e)
    with assms t show ?thesis
      by (auto simp: read_raw_packet_loop Some blocking_read_def read_event_def intro!: bexI [of _ t])
  next
    case (Inr frame)
    define n where "n = min (length frame) (length buf)"
    have parts: "take (length buf) frame @ drop (length frame) buf = take n frame @ drop n buf"
      by (auto simp: n_def min_def)
    have "server_step E net (read_event rd t) s =
        obind (process_incoming_packet E rd config n (take n frame @ drop n buf) (sv_leases s)) (\<lambda>(out, T).
          Inr (out, s\<lparr>sv_phase := Serving config fd (take n frame @ drop n buf), sv_leases := T\<rparr>))"
      using assms by (simp add: read_event_def Inr n_def Let_def)
    with t show ?thesis
      by (auto simp: read_raw_packet_loop Some Inr blocking_read_def parts n_def intro!: bexI [of _ t])
  qed
qed

definition sample_serving :: server_state where
  "sample_serving = \<lparr>sv_phase = Serving sample_config 7 (replicate 2048 0),
     sv_leases = lease_table_new, sv_open_fds = {7}\<rparr>"

definition sample_reads :: "read_turn list" where
  "sample_reads = [\<lparr>rt_ready = None, rt_recv = Inl WouldBlock\<rparr>,
     \<lparr>rt_ready = None, rt_recv = Inl (OtherIo ''ENETDOWN'')\<rparr>]"

theorem reads_drive_server_witness:
  "\<exists>t \<in> set sample_reads. server_step sample_libs sample_net (read_event (readings_at 5) t) sample_serving =
     Inr ([], sample_serving\<lparr>sv_phase := SettingUp, sv_open_fds := {}\<rparr>)"
proof -
  have "read_raw_packet sample_reads (replicate 2048 0) = (replicate 2048 0, Some (Inl ''ENETDOWN''))"
    by (simp add: sample_reads_def try_read_raw_def)
  then show ?thesis
    using reads_drive_server [of sample_serving sample_config 7 "replicate 2048 0" sample_reads]
    by (fastforce simp: sample_serving_def)
qed

section \<open>The end of an iteration\<close>

text \<open>
  After \<open>run_server_loop\<close> returns, \<open>start_dhcp_server\<close> closes the descriptor, sleeps five seconds,
  and only then, at the end of the iteration, drops the \<open>AsyncFd\<close>, which takes its descriptor
  number out of the runtime's poll set. The poll set of the runtime (\<open>tokio\<close> over \<open>epoll\<close>) is a
  parameter: registering a descriptor, closing one, dropping its \<open>AsyncFd\<close>, and the descriptors
  it watches. \<open>others\<close> is what the other services do during the sleep.
\<close>

record 'k reactor =
  rx_register :: "int \<Rightarrow> 'k \<Rightarrow> 'k"
  rx_close :: "int \<Rightarrow> 'k \<Rightarrow> 'k"
  rx_drop :: "int \<Rightarrow> 'k \<Rightarrow> 'k"
  rx_watched :: "'k \<Rightarrow> int set"

definition reactor_documented :: "'k reactor \<Rightarrow> bool" where
  "reactor_documented R \<longleftrightarrow>
     (\<forall>fd k. rx_watched R (rx_register R fd k) = insert fd (rx_watched R k) \<and>
             rx_watched R (rx_close R fd k) = rx_watched R k - {fd} \<and>
             rx_watched R (rx_drop R fd k) = rx_watched R k - {fd})"

definition end_iteration :: "'k reactor \<Rightarrow> int \<Rightarrow> ('k \<Rightarrow> 'k) \<Rightarrow> 'k \<Rightarrow> 'k" where
  "end_iteration R raw_fd others k = rx_drop R raw_fd (others (rx_close R raw_fd k))"

text \<open>A restart of the DHCP server can deafen another service: the socket's number is free
  from the moment it is closed, but the server's \<open>AsyncFd\<close> gives its registration up only after
  the five seconds of sleep; a service that registers a new socket under the same number in
  between is no longer watched afterwards, although it never dropped or closed it. Had the
  \<open>AsyncFd\<close> been dropped before the close, every socket registered in the sleep would still be
  watched.\<close>

theorem restart_deafens_reused_descriptor:
  assumes "reactor_documented R"
  shows "fd \<notin> rx_watched R (end_iteration R fd (rx_register R fd) k)
    \<and> fd \<in> rx_watched R (rx_register R fd (rx_close R fd (rx_drop R fd k)))
    \<and> (fd' \<noteq> fd \<longrightarrow> fd' \<in> rx_watched R (end_iteration R fd (rx_register R fd') k))"
  using assms by (simp add: reactor_documented_def end_iteration_def)

definition sample_reactor :: "int set reactor" where
  "sample_reactor = \<lparr>rx_register = insert, rx_close = (\<lambda>fd k. k - {fd}), rx_drop = (\<lambda>fd k. k - {fd}),
     rx_watched = (\<lambda>k. k)\<rparr>"

theorem restart_deafens_reused_descriptor_witness:
  "7 \<notin> rx_watched sample_reactor (end_iteration sample_reactor 7 (rx_register sample_reactor 7) {4, 7})"
proof -
  have "reactor_documented sample_reactor" by (simp add: reactor_documented_def sample_reactor_def)
  then show ?thesis by (rule restart_deafens_reused_descriptor [THEN conjunct1])
qed

end
