(* ===== verification/Wan_Lease.thy ===== *)
theory Wan_Lease
  imports Prelude
begin

text \<open>
  \<open>WanLease\<close> of \<open>src/services/utils.rs\<close>, the lease parameters the DHCP client publishes and
  the DNS forwarder and SNTP client read, and the netlink requests that configure an
  interface. The kernel's side of netlink is not part of this repository: \<open>netlink\<close> is the
  record of its answers to the requests one call makes.
\<close>

section \<open>The shared lease\<close>

record wan_lease =
  wl_ip :: "ipv4 option"
  wl_mask :: "ipv4 option"
  wl_gateway :: "ipv4 option"
  wl_dns_servers :: "ipv4 list"

definition wan_lease_default :: wan_lease where
  "wan_lease_default = \<lparr>wl_ip = None, wl_mask = None, wl_gateway = None, wl_dns_servers = []\<rparr>"

section \<open>Netlink\<close>

text \<open>An address of the dump: the interface index in its header and its \<open>Local\<close> attributes.\<close>

record nl_address =
  nl_index :: u32
  nl_locals :: "ipv4 list"

datatype nl_request =
    LinkUp u32
  | DelAddress nl_address
  | AddAddress u32 ipv4 nat
  | AddDefaultRoute ipv4 u32

text \<open>
  The answers: opening the connection, looking the link up by name, dumping the addresses
  (the items of the stream, and whether it then fails), and each change request.
\<close>

record netlink =
  nl_connect :: "string + unit"
  nl_link :: "string + u32 option"
  nl_dump :: "nl_address list"
  nl_dump_error :: "string option"
  nl_change :: "nl_request \<Rightarrow> string option"

end
