(* ===== verification/Dns_Forwarder.thy ===== *)
theory Dns_Forwarder
  imports Wan_Lease
begin

text \<open>
  The DNS forwarder, \<open>src/services/dns_forwarder.rs\<close>: its functions on the cache and on the
  registry of pending queries. The tasks that run them, and how they interleave with the
  receiver of upstream replies, are \<open>Dns_Tasks\<close>. The parser of the crate \<open>dns_parser\<close> is not
  part of this repository: it is the parameter \<open>dns_parse\<close>, and a packet is what the sources
  read of its result.
\<close>

section \<open>Constants and data\<close>

definition DNS_PORT :: u16 where "DNS_PORT = 53"
definition DNS_HEADER_SIZE :: nat where "DNS_HEADER_SIZE = 12"
definition DEFAULT_TTL_SECS :: u32 where "DEFAULT_TTL_SECS = 30"
definition MAX_TTL_SECS :: u32 where "MAX_TTL_SECS = 3600"
definition RECV_BUF_SIZE :: nat where "RECV_BUF_SIZE = 4096"
definition FALLBACK_DNS_SERVER :: ipv4 where "FALLBACK_DNS_SERVER = ipv4_new 8 8 8 8"
definition MAX_PENDING_QUERIES :: nat where "MAX_PENDING_QUERIES = 4096"

text \<open>
  A question by the texts the code formats: the name by \<open>Display\<close>, the type and the class by
  \<open>Debug\<close>. Of an answer the code reads the time to live.
\<close>

record dns_question =
  qname :: string
  qtype :: string
  qclass :: string

record dns_answer =
  ans_ttl :: u32

record dns_packet =
  pkt_questions :: "dns_question list"
  pkt_answers :: "dns_answer list"

type_synonym dns_parser = "bytes \<Rightarrow> dns_packet option"

text \<open>
  What the sources rely on: the parser rejects what is shorter than a header, and the names of
  types and classes (variants of an enum, a number in parentheses for unknown classes) have no
  colon.
\<close>

definition dns_parser_documented :: "dns_parser \<Rightarrow> bool" where
  "dns_parser_documented parse \<longleftrightarrow>
     (\<forall>b p. parse b = Some p \<longrightarrow> DNS_HEADER_SIZE \<le> length b \<and>
        (\<forall>q \<in> set (pkt_questions p). CHR '':'' \<notin> set (qtype q) \<and> CHR '':'' \<notin> set (qclass q)))"

record cache_entry =
  response :: bytes
  expiry :: instant

type_synonym dns_cache = "(string, cache_entry) hmap"

text \<open>
  The sender half of a oneshot channel is known by the task that waits on the other half.
\<close>

type_synonym task_id = nat

record pending_query =
  tx :: task_id
  upstream_ip :: ipv4

type_synonym pending_queries = "(u16, pending_query) hmap"

section \<open>The cache\<close>

definition get_cache_key :: "dns_parser \<Rightarrow> bytes \<Rightarrow> string option" where
  "get_cache_key parse query_bytes =
     (case parse query_bytes of
        None \<Rightarrow> None
      | Some packet \<Rightarrow>
          (case pkt_questions packet of
             [] \<Rightarrow> None
           | q # _ \<Rightarrow> Some (qname q @ '':'' @ qtype q @ '':'' @ qclass q)))"

definition lookup_cache :: "instant \<Rightarrow> string \<Rightarrow> dns_cache \<Rightarrow> bytes option \<times> dns_cache" where
  "lookup_cache now cache_key cache =
     (case hm_get cache cache_key of
        Some entry \<Rightarrow> if expiry entry > now then (Some (response entry), cache)
                      else (None, hm_remove cache_key cache)
      | None \<Rightarrow> (None, cache))"

definition response_ttl :: "dns_packet \<Rightarrow> u32" where
  "response_ttl packet =
     (case map ans_ttl (pkt_answers packet) of
        [] \<Rightarrow> DEFAULT_TTL_SECS
      | t # ts \<Rightarrow> fold min ts t)"

definition insert_cache ::
  "dns_parser \<Rightarrow> instant \<Rightarrow> string \<Rightarrow> bytes \<Rightarrow> dns_cache \<Rightarrow> dns_cache" where
  "insert_cache parse now cache_key resp cache =
     (if length resp < DNS_HEADER_SIZE then cache
      else (case parse resp of
              None \<Rightarrow> cache
            | Some packet \<Rightarrow>
                (let ttl = response_ttl packet
                 in if ttl = 0 then cache
                    else (let cache_ttl = min MAX_TTL_SECS ttl;
                              exp = now + from_secs (unat cache_ttl)
                          in hm_insert cache_key \<lparr>response = resp, expiry = exp\<rparr> cache))))"

text \<open>The periodic cleanup task.\<close>

definition cleanup_cache :: "instant \<Rightarrow> dns_cache \<Rightarrow> dns_cache" where
  "cleanup_cache now cache = hm_retain (\<lambda>_ entry. expiry entry > now) cache"

text \<open>\<open>v[0] = a; v[1] = b\<close>, the way every transaction id is written; \<open>v[0]\<close>, \<open>v[1]\<close>.\<close>

definition write_xid :: "u8 \<Rightarrow> u8 \<Rightarrow> bytes \<Rightarrow> bytes outcome" where
  "write_xid a b v = obind (index_set v 0 a) (\<lambda>v. index_set v 1 b)"

definition read_xid :: "bytes \<Rightarrow> u16" where
  "read_xid v = u16_from_be_bytes (v ! 0) (v ! 1)"

section \<open>Forwarding\<close>

definition get_upstream_dns :: "wan_lease \<Rightarrow> ipv4" where
  "get_upstream_dns lease =
     (case wl_dns_servers lease of [] \<Rightarrow> FALLBACK_DNS_SERVER | a # _ \<Rightarrow> a)"

text \<open>
  The loop that draws transaction ids until one is not in use, on the sequence of random
  numbers; \<open>None\<close> is a loop that has not ended with these.
\<close>

fun draw_xid :: "pending_queries \<Rightarrow> u16 list \<Rightarrow> u16 option" where
  "draw_xid pending [] = None"
| "draw_xid pending (x # xs) =
     (if hm_get pending x \<noteq> None then draw_xid pending xs else Some x)"

text \<open>
  The first half of \<open>forward_query\<close>, the registration, under one lock: the query is refused,
  the loop is still drawing, or the query has its transaction id in the registry.
\<close>

datatype registration = Refused | StillDrawing | Registered u16 pending_queries

definition register_query ::
  "task_id \<Rightarrow> ipv4 \<Rightarrow> u16 list \<Rightarrow> pending_queries \<Rightarrow> registration" where
  "register_query t upstream_dns draws pending =
     (if hm_len pending \<ge> MAX_PENDING_QUERIES then Refused
      else (case draw_xid pending draws of
              None \<Rightarrow> StillDrawing
            | Some rng_xid \<Rightarrow>
                Registered rng_xid
                  (hm_insert rng_xid \<lparr>tx = t, upstream_ip = upstream_dns\<rparr> pending)))"

definition forwarded_query :: "u16 \<Rightarrow> bytes \<Rightarrow> bytes outcome" where
  "forwarded_query rng_xid query =
     (let xid_bytes = u16_to_be_bytes rng_xid
      in write_xid (xid_bytes ! 0) (xid_bytes ! 1) query)"

text \<open>Its last part: the client's transaction id is put back into the response.\<close>

definition restore_xid :: "bytes \<Rightarrow> bytes \<Rightarrow> bytes option outcome" where
  "restore_xid query resp =
     (let client_xid_bytes = u16_to_be_bytes (read_xid query)
      in if length resp \<ge> DNS_HEADER_SIZE
         then obind (write_xid (client_xid_bytes ! 0) (client_xid_bytes ! 1) resp) (\<lambda>r. Inr (Some r))
         else Inr None)"

text \<open>
  One datagram on the upstream socket: the registry after it, and the task that is sent the
  reply or, with \<open>None\<close>, whose channel is closed because the sender's address is wrong.
\<close>

definition upstream_reply ::
  "bytes \<Rightarrow> ipv4 \<Rightarrow> pending_queries \<Rightarrow> pending_queries \<times> (task_id \<times> bytes option) option" where
  "upstream_reply datagram from_ip pending =
     (if length datagram < DNS_HEADER_SIZE then (pending, None)
      else (let xid = read_xid datagram
            in (hm_remove xid pending,
                case hm_get pending xid of
                  None \<Rightarrow> None
                | Some p \<Rightarrow> if from_ip = upstream_ip p then Some (tx p, Some datagram)
                            else Some (tx p, None))))"

section \<open>Transaction ids\<close>

lemma write_xid_ok: "2 \<le> length v \<Longrightarrow> write_xid a b v = Inr (a # b # drop 2 v)"
  by (cases v; cases "tl v") (auto simp: write_xid_def)

lemma read_xid_Cons [simp]: "read_xid (a # b # v) = u16_from_be_bytes a b"
  by (simp add: read_xid_def)

lemma be_bytes_read_xid: "2 \<le> length v \<Longrightarrow> u16_to_be_bytes (read_xid v) = take 2 v"
  by (cases v; cases "tl v") (auto simp: u16_be_bytes_split)

lemma forwarded_query_ok:
  "2 \<le> length query \<Longrightarrow> forwarded_query x query = Inr (u16_to_be_bytes x @ drop 2 query)"
  by (simp add: forwarded_query_def write_xid_ok u16_to_be_bytes_def)

lemma restore_xid_ok:
  assumes "2 \<le> length query"
  shows "restore_xid query resp =
    Inr (if DNS_HEADER_SIZE \<le> length resp then Some (take 2 query @ drop 2 resp) else None)"
proof -
  obtain a b q where q: "query = a # b # q"
    using assms by (cases query; cases "tl query") auto
  show ?thesis
    by (simp add: q restore_xid_def Let_def write_xid_ok DNS_HEADER_SIZE_def u16_be_bytes_split)
qed

section \<open>Cache keys\<close>

lemma split_at_colon:
  "CHR '':'' \<notin> set b \<Longrightarrow> CHR '':'' \<notin> set b' \<Longrightarrow> a @ '':'' @ b = a' @ '':'' @ b' \<Longrightarrow> a = a' \<and> b = b'"
proof (induction a arbitrary: a')
  case Nil
  then show ?case by (cases a') auto
next
  case (Cons x a)
  then show ?case by (cases a') auto
qed

lemma split_at_colon_iff:
  assumes "CHR '':'' \<notin> set b" and "CHR '':'' \<notin> set b'"
  shows "a @ '':'' @ b = a' @ '':'' @ b' \<longleftrightarrow> a = a' \<and> b = b'"
proof
  assume "a @ '':'' @ b = a' @ '':'' @ b'"
  with assms show "a = a' \<and> b = b'" by (rule split_at_colon)
qed simp

lemma get_cache_key_Some:
  "get_cache_key parse b = Some k \<longleftrightarrow>
     (\<exists>p q qs. parse b = Some p \<and> pkt_questions p = q # qs \<and>
        k = qname q @ '':'' @ qtype q @ '':'' @ qclass q)"
  by (auto simp: get_cache_key_def split: option.splits list.splits)

lemma get_cache_key_length:
  "dns_parser_documented parse \<Longrightarrow> get_cache_key parse b = Some k \<Longrightarrow> DNS_HEADER_SIZE \<le> length b"
  by (auto simp: dns_parser_documented_def get_cache_key_Some)

text \<open>The cache key identifies the question: two queries have the same key only if the
  first question of both has the same name, the same type and the same class, although the
  three texts are joined by a separator that a name may contain.\<close>

theorem cache_key_identifies_question:
  assumes "dns_parser_documented parse"
    and "parse b = Some p" and "pkt_questions p \<noteq> []"
    and "parse b' = Some p'" and "pkt_questions p' \<noteq> []"
  shows "get_cache_key parse b = get_cache_key parse b'
    \<longleftrightarrow> qname (hd (pkt_questions p)) = qname (hd (pkt_questions p'))
      \<and> qtype (hd (pkt_questions p)) = qtype (hd (pkt_questions p'))
      \<and> qclass (hd (pkt_questions p)) = qclass (hd (pkt_questions p'))"
proof -
  obtain q qs q' qs' where q: "pkt_questions p = q # qs" "pkt_questions p' = q' # qs'"
    using assms(3,5) by (meson list.exhaust)
  have docs: "CHR '':'' \<notin> set (qtype q)" "CHR '':'' \<notin> set (qclass q)"
      "CHR '':'' \<notin> set (qtype q')" "CHR '':'' \<notin> set (qclass q')"
    using assms(1,2,4) q unfolding dns_parser_documented_def by (metis list.set_intros(1))+
  have keys: "get_cache_key parse b = Some ((qname q @ '':'' @ qtype q) @ '':'' @ qclass q)"
      "get_cache_key parse b' = Some ((qname q' @ '':'' @ qtype q') @ '':'' @ qclass q')"
    using assms(2,4) q by (simp_all add: get_cache_key_def)
  have "(qname q @ '':'' @ qtype q) @ '':'' @ qclass q = (qname q' @ '':'' @ qtype q') @ '':'' @ qclass q'
      \<longleftrightarrow> qname q @ '':'' @ qtype q = qname q' @ '':'' @ qtype q' \<and> qclass q = qclass q'"
    by (rule split_at_colon_iff [OF docs(2,4)])
  also have "\<dots> \<longleftrightarrow> qname q = qname q' \<and> qtype q = qtype q' \<and> qclass q = qclass q'"
    by (simp only: split_at_colon_iff [OF docs(1,3)] conj_assoc)
  finally show ?thesis unfolding keys q list.sel option.inject .
qed

definition sample_question :: "string \<Rightarrow> dns_question" where
  "sample_question n = \<lparr>qname = n, qtype = ''A'', qclass = ''IN''\<rparr>"

text \<open>A parser for examples: byte 12 selects the packet.\<close>

definition sample_parse :: dns_parser where
  "sample_parse b =
     (if length b < 13 then None
      else Some \<lparr>pkt_questions = [sample_question (if b ! 12 = 1 then ''a:A'' else ''b'')],
                 pkt_answers = [\<lparr>ans_ttl = 300\<rparr>, \<lparr>ans_ttl = 150\<rparr>]\<rparr>)"

lemma sample_parse_documented: "dns_parser_documented sample_parse"
  by (auto simp: dns_parser_documented_def sample_parse_def sample_question_def DNS_HEADER_SIZE_def
      split: if_splits)

definition sample_query :: "u8 \<Rightarrow> u8 \<Rightarrow> bytes" where
  "sample_query x q = [0, x, 1, 0, 0, 1, 0, 0, 0, 0, 0, 0, q]"

theorem cache_key_identifies_question_witness:
  "get_cache_key sample_parse (sample_query 7 1) \<noteq> get_cache_key sample_parse (sample_query 7 2)"
  using cache_key_identifies_question [OF sample_parse_documented,
      of "sample_query 7 1" _ "sample_query 7 2"]
  by (simp add: sample_parse_def sample_query_def sample_question_def)

section \<open>Lifetime of cache entries\<close>

lemma fold_min_Min: "fold min ts t = Min (set (t # ts))" for t :: u32
  by (simp only: Min.set_eq_fold)

lemma response_ttl_Min:
  "response_ttl p = (if pkt_answers p = [] then 30 else Min (ans_ttl ` set (pkt_answers p)))"
proof (cases "pkt_answers p")
  case (Cons a as)
  have "response_ttl p = fold min (map ans_ttl as) (ans_ttl a)"
    by (simp add: response_ttl_def Cons)
  also have "\<dots> = Min (set (ans_ttl a # map ans_ttl as))" by (rule fold_min_Min)
  finally show ?thesis by (simp add: Cons)
qed (simp add: response_ttl_def DEFAULT_TTL_SECS_def)

lemma lookup_get:
  "lookup_cache now k c = (case hm_get c k of
     None \<Rightarrow> (None, c)
   | Some e \<Rightarrow> if now < expiry e then (Some (response e), c) else (None, hm_remove k c))"
  by (simp add: lookup_cache_def split: option.split)

lemma insert_cache_get:
  assumes "hm_ok c"
  shows "hm_get (insert_cache parse now k resp c) k' =
    (case parse resp of
       Some p \<Rightarrow> if k' = k \<and> DNS_HEADER_SIZE \<le> length resp \<and> response_ttl p \<noteq> 0
                 then Some \<lparr>response = resp, expiry = now + from_secs (unat (min 3600 (response_ttl p)))\<rparr>
                 else hm_get c k'
     | None \<Rightarrow> hm_get c k')"
  using assms by (auto simp: insert_cache_def Let_def MAX_TTL_SECS_def hm.get_insert split: option.split)

lemma insert_cache_ok [simp]: "hm_ok c \<Longrightarrow> hm_ok (insert_cache parse now k resp c)"
  by (auto simp: insert_cache_def Let_def split: option.split)

lemma lookup_cache_ok [simp]: "hm_ok c \<Longrightarrow> hm_ok (snd (lookup_cache now k c))"
  by (auto simp: lookup_get split: option.split)

text \<open>A response is served from the cache exactly as long as it may be. Inserted at a time
  under a key, it answers every lookup of that key before the end of its lifetime and none from
  then on, and lookups of other keys are as before; its lifetime is at most an hour and at most
  the time to live of each of its answers (30 seconds if it has none), and a response with a
  zero time to live is not kept at all.\<close>

theorem cache_serves_within_ttl:
  assumes "hm_ok c" and "parse resp = Some p" and "DNS_HEADER_SIZE \<le> length resp"
  shows "\<exists>life. (\<forall>a \<in> set (pkt_answers p). life \<le> unat (ans_ttl a)) \<and> life \<le> 3600 \<and>
      (pkt_answers p = [] \<longrightarrow> life = 30) \<and>
      (pkt_answers p \<noteq> [] \<longrightarrow> life = 3600 \<or> life \<in> (\<lambda>a. unat (ans_ttl a)) ` set (pkt_answers p)) \<and>
      (life > 0 \<longrightarrow> (\<forall>later. fst (lookup_cache later k (insert_cache parse now k resp c)) =
          (if later < now + from_secs life then Some resp else None))) \<and>
      (life = 0 \<longrightarrow> insert_cache parse now k resp c = c) \<and>
      (\<forall>k' later. k' \<noteq> k \<longrightarrow>
          fst (lookup_cache later k' (insert_cache parse now k resp c)) = fst (lookup_cache later k' c))"
proof -
  let ?ttl = "response_ttl p"
  define life where "life = unat (min 3600 ?ttl)"
  have unat_min: "unat (min a b) = min (unat a) (unat b)" for a b :: u32
    by (simp add: min_def word_le_nat_alt)
  have cap: "life = min 3600 (unat ?ttl)"
    by (simp add: life_def unat_min)
  have zero: "life = 0 \<longleftrightarrow> ?ttl = 0"
    by (auto simp: cap min_def unat_eq_0)
  have bound: "life \<le> unat (ans_ttl a)" if a: "a \<in> set (pkt_answers p)" for a
  proof -
    have "?ttl \<le> ans_ttl a" using a by (auto simp: response_ttl_Min)
    then have "unat ?ttl \<le> unat (ans_ttl a)" by (simp add: word_le_nat_alt)
    with cap show ?thesis by simp
  qed
  have exact: "life = 3600 \<or> life \<in> (\<lambda>a. unat (ans_ttl a)) ` set (pkt_answers p)"
    if ne: "pkt_answers p \<noteq> []"
  proof -
    have "?ttl \<in> ans_ttl ` set (pkt_answers p)"
      using Min_in [of "ans_ttl ` set (pkt_answers p)"] ne by (simp add: response_ttl_Min)
    then show ?thesis by (auto simp: cap min_def)
  qed
  have "fst (lookup_cache later k (insert_cache parse now k resp c)) =
      (if later < now + from_secs life then Some resp else None)" if "life > 0" for later
    using that zero assms by (simp add: lookup_get insert_cache_get life_def)
  moreover have "insert_cache parse now k resp c = c" if "life = 0"
    using that zero assms(2,3) by (simp add: insert_cache_def)
  moreover have "fst (lookup_cache later k' (insert_cache parse now k resp c)) =
      fst (lookup_cache later k' c)" if "k' \<noteq> k" for k' later
    using that assms by (simp add: lookup_get insert_cache_get split: option.split)
  moreover have "pkt_answers p = [] \<Longrightarrow> life = 30"
    by (simp add: cap response_ttl_Min)
  moreover have "life \<le> 3600" by (simp add: cap)
  ultimately show ?thesis using bound exact by (intro exI [of _ life]) blast
qed

theorem cache_serves_within_ttl_witness:
  "\<exists>life. life \<in> {150, 300} \<and>
     (\<forall>later. fst (lookup_cache later ''b'' (insert_cache sample_parse 0 ''b'' (sample_query 7 2) [])) =
       (if later < from_secs life then Some (sample_query 7 2) else None))"
proof -
  let ?p = "\<lparr>pkt_questions = [sample_question ''b''],
             pkt_answers = [\<lparr>ans_ttl = 300\<rparr>, \<lparr>ans_ttl = 150\<rparr>]\<rparr>"
  have p: "sample_parse (sample_query 7 2) = Some ?p"
    and len: "DNS_HEADER_SIZE \<le> length (sample_query 7 2)"
    by (simp_all add: sample_parse_def sample_query_def DNS_HEADER_SIZE_def)
  have ok: "hm_ok ([] :: dns_cache)" by simp
  obtain life where "life \<le> 150" "life = 3600 \<or> life = 300 \<or> life = 150"
    and "life > 0 \<longrightarrow> (\<forall>later. fst (lookup_cache later ''b''
        (insert_cache sample_parse 0 ''b'' (sample_query 7 2) [])) =
        (if later < 0 + from_secs life then Some (sample_query 7 2) else None))"
    using cache_serves_within_ttl [of "[]" sample_parse "sample_query 7 2" ?p "''b''" 0, OF ok p len]
    by (elim exE conjE) simp
  then show ?thesis by (intro exI [of _ life]) auto
qed

text \<open>The periodic cleanup cannot be observed: whatever was in the cache, every lookup from
  the cleanup's time on answers the same with and without it, and no expired entry is left.\<close>

theorem cleanup_is_transparent:
  assumes "hm_ok c" and "now \<le> later"
  shows "fst (lookup_cache later k (cleanup_cache now c)) = fst (lookup_cache later k c)
    \<and> hm_get (cleanup_cache now c) k = (case hm_get c k of
        Some e \<Rightarrow> if now < expiry e then Some e else None | None \<Rightarrow> None)"
  using assms by (auto simp: lookup_get cleanup_cache_def hm.get_retain split: option.split)

theorem cleanup_is_transparent_witness:
  "fst (lookup_cache 5 ''b'' (cleanup_cache 4 [(''b'', \<lparr>response = [1], expiry = 9\<rparr>)])) = Some [1]"
  using cleanup_is_transparent [of "[(''b'', \<lparr>response = [1], expiry = 9\<rparr>)]" 4 5 "''b''"]
  by (simp add: hm_ok_def lookup_get hm_get_def)

section \<open>Transaction ids are fresh\<close>

lemma draw_xid_Some: "draw_xid pending draws = Some x \<Longrightarrow> x \<in> set draws \<and> hm_get pending x = None"
  by (induction draws) (auto split: if_splits)

lemma draw_xid_ends: "x \<in> set draws \<Longrightarrow> hm_get pending x = None \<Longrightarrow> draw_xid pending draws \<noteq> None"
  by (induction draws) auto

lemma register_query_Registered:
  assumes "register_query t up draws pending = Registered x pending'"
  shows "hm_get pending x = None" and "hm_len pending < MAX_PENDING_QUERIES"
    and "pending' = hm_insert x \<lparr>tx = t, upstream_ip = up\<rparr> pending"
  using assms by (auto simp: register_query_def draw_xid_Some split: if_splits option.splits)

lemma free_xid_exists:
  fixes pending :: pending_queries
  assumes "hm_ok pending" and "hm_len pending < MAX_PENDING_QUERIES"
  shows "\<exists>x. hm_get pending x = None"
proof (rule ccontr)
  assume "\<nexists>x. hm_get pending x = None"
  then have "dom (hm_get pending) = UNIV" by auto
  with assms show False
    by (simp add: hm.len_dom MAX_PENDING_QUERIES_def card_word)
qed

text \<open>Registering a query: below the limit of 4096 pending queries there is always a
  transaction id not in use, so the drawing loop ends as soon as it draws one; the id taken is
  one that no pending query uses, the entries of all other queries are kept, the limit holds
  afterwards; the query sent upstream is the client's with only the id replaced, and putting
  the client's id back into a response gives that response with the client's own two bytes.\<close>

theorem registration_uses_fresh_id:
  assumes "hm_ok pending" and "hm_len pending \<le> 4096" and "DNS_HEADER_SIZE \<le> length query"
  shows "(register_query t up draws pending = Refused \<longleftrightarrow> hm_len pending = 4096)
    \<and> (hm_len pending < 4096 \<longrightarrow> (\<exists>x. hm_get pending x = None \<and>
         (\<forall>draws. x \<in> set draws \<longrightarrow> (\<exists>y pending'. register_query t up draws pending = Registered y pending'))))
    \<and> (register_query t up draws pending = Registered x pending' \<longrightarrow>
         hm_get pending x = None \<and> hm_len pending' \<le> 4096 \<and>
         hm_get pending' = (hm_get pending)(x \<mapsto> \<lparr>tx = t, upstream_ip = up\<rparr>))
    \<and> (\<exists>fwd. forwarded_query x query = Inr fwd \<and> read_xid fwd = x \<and> drop 2 fwd = drop 2 query \<and>
         (\<forall>resp. DNS_HEADER_SIZE \<le> length resp \<longrightarrow>
            restore_xid query resp = Inr (Some (take 2 query @ drop 2 resp))))"
proof -
  have len: "2 \<le> length query" using assms(3) by (simp add: DNS_HEADER_SIZE_def)
  have "register_query t up draws pending = Refused \<longleftrightarrow> hm_len pending = 4096"
    using assms(2) by (auto simp: register_query_def MAX_PENDING_QUERIES_def split: option.split)
  moreover have "\<exists>y pending'. register_query t up draws pending = Registered y pending'"
    if "hm_len pending < 4096" "hm_get pending x = None" "x \<in> set draws" for x draws
    using that draw_xid_ends [OF that(3,2)]
    by (auto simp: register_query_def MAX_PENDING_QUERIES_def)
  moreover have "hm_len pending < 4096 \<Longrightarrow> \<exists>x. hm_get pending x = None"
    using free_xid_exists assms(1) by (simp add: MAX_PENDING_QUERIES_def)
  moreover have "register_query t up draws pending = Registered x pending' \<Longrightarrow>
      hm_get pending x = None \<and> hm_len pending' \<le> 4096 \<and>
      hm_get pending' = (hm_get pending)(x \<mapsto> \<lparr>tx = t, upstream_ip = up\<rparr>)"
    using register_query_Registered [of t up draws pending x pending'] assms(1)
    by (auto simp: MAX_PENDING_QUERIES_def hm.get_insert hm.len_insert)
  moreover have "\<exists>fwd. forwarded_query x query = Inr fwd \<and> read_xid fwd = x \<and> drop 2 fwd = drop 2 query \<and>
      (\<forall>resp. DNS_HEADER_SIZE \<le> length resp \<longrightarrow>
         restore_xid query resp = Inr (Some (take 2 query @ drop 2 resp)))"
    using len by (simp add: forwarded_query_ok restore_xid_ok u16_to_be_bytes_def)
  ultimately show ?thesis by blast
qed

theorem registration_uses_fresh_id_witness:
  "\<exists>pending'. register_query 1 (ipv4_new 8 8 8 8) [5, 6] [(5, \<lparr>tx = 0, upstream_ip = 1\<rparr>)] =
     Registered 6 pending' \<and> hm_len pending' \<le> 4096"
proof -
  have reg: "register_query 1 (ipv4_new 8 8 8 8) [5, 6] [(5, \<lparr>tx = 0, upstream_ip = 1\<rparr>)] =
      Registered 6 (hm_insert 6 \<lparr>tx = 1, upstream_ip = ipv4_new 8 8 8 8\<rparr> [(5, \<lparr>tx = 0, upstream_ip = 1\<rparr>)])"
    by (simp add: register_query_def MAX_PENDING_QUERIES_def hm_len_def hm_get_def)
  then show ?thesis
    using registration_uses_fresh_id [of "[(5, \<lparr>tx = 0, upstream_ip = 1\<rparr>)]" "sample_query 7 1" 1
        "ipv4_new 8 8 8 8" "[5, 6]" 6]
    by (simp add: hm_ok_def hm_len_def sample_query_def DNS_HEADER_SIZE_def)
qed

end
