(* ===== verification/Dns_Tasks.thy ===== *)
theory Dns_Tasks
  imports Dns_Forwarder
begin

text \<open>
  The tasks of the DNS forwarder and how they interleave: \<open>start_dns_forwarder\<close> spawns one
  task per client query (\<open>handle_dns_query\<close>, which runs \<open>forward_query\<close>), beside the receiver
  of upstream replies and the cache cleanup. The runtime has several threads, so a task is
  modelled up to each of its locks and awaits: a phase of a task is what it does next, and
  every event is one such piece of one task, in any order.
\<close>

section \<open>State\<close>

text \<open>A client's socket address.\<close>

type_synonym client_addr = "ipv4 \<times> u16"

text \<open>
  What a task does next: look the query up in the cache; read the upstream server from the
  shared lease; register the query; send it (the await of \<open>send_to\<close>); wait for the reply; or
  remove its registry entry after a failed send, a time-out or a closed channel.
\<close>

datatype task_phase =
    Arrived
  | Missed string
  | Resolved string ipv4
  | Sending string ipv4 u16
  | Waiting string ipv4 u16
  | Failed u16

text \<open>The receiving half of the oneshot channel.\<close>

datatype mailbox = Empty | Delivered bytes | Closed

record dns_task =
  dt_query :: bytes
  dt_src :: client_addr
  dt_phase :: task_phase
  dt_mail :: mailbox

record dns_state =
  ds_cache :: dns_cache
  ds_pending :: pending_queries
  ds_tasks :: "task_id \<Rightarrow> dns_task option"
  ds_next :: task_id
  ds_lease :: wan_lease

definition dns_start :: dns_state where
  "dns_start = \<lparr>ds_cache = [], ds_pending = [], ds_tasks = (\<lambda>_. None), ds_next = 0,
     ds_lease = wan_lease_default\<rparr>"

text \<open>
  The events: a client's datagram; the pieces of a query task, with the clock readings, the
  random numbers and the socket's answer they take; a datagram on the upstream socket with its
  sender; the cleanup of the cache; a lease the DHCP client publishes.
\<close>

datatype dns_event =
    EvQuery bytes client_addr
  | EvLookup task_id instant
  | EvUpstream task_id
  | EvRegister task_id "u16 list"
  | EvSent task_id bool
  | EvTimeout task_id
  | EvWake task_id instant
  | EvRemove task_id
  | EvReply bytes ipv4
  | EvCleanup instant
  | EvLease wan_lease

datatype dns_output =
    Answer bytes client_addr
  | SendUpstream bytes ipv4
  | TaskPanicked panic

section \<open>Steps\<close>

definition set_task :: "task_id \<Rightarrow> dns_task option \<Rightarrow> dns_state \<Rightarrow> dns_state" where
  "set_task t task s = s\<lparr>ds_tasks := (ds_tasks s)(t := task)\<rparr>"

definition set_phase :: "task_id \<Rightarrow> dns_task \<Rightarrow> task_phase \<Rightarrow> dns_state \<Rightarrow> dns_state" where
  "set_phase t task ph s = set_task t (Some (task\<lparr>dt_phase := ph\<rparr>)) s"

text \<open>\<open>handle_dns_query\<close> up to and including the answer from the cache.\<close>

definition lookup_step ::
  "dns_parser \<Rightarrow> task_id \<Rightarrow> dns_task \<Rightarrow> instant \<Rightarrow> dns_state \<Rightarrow> dns_output list \<times> dns_state" where
  "lookup_step parse t task now s =
     (let query = dt_query task
      in if length query < DNS_HEADER_SIZE then ([], set_task t None s)
         else (case get_cache_key parse query of
                 None \<Rightarrow> ([], set_task t None s)
               | Some cache_key \<Rightarrow>
                   (case lookup_cache now cache_key (ds_cache s) of
                      (Some resp, cache) \<Rightarrow>
                        (case write_xid (query ! 0) (query ! 1) resp of
                           Inl p \<Rightarrow> ([TaskPanicked p], set_task t None (s\<lparr>ds_cache := cache\<rparr>))
                         | Inr r \<Rightarrow> ([Answer r (dt_src task)], set_task t None (s\<lparr>ds_cache := cache\<rparr>)))
                    | (None, cache) \<Rightarrow>
                        ([], set_phase t task (Missed cache_key) (s\<lparr>ds_cache := cache\<rparr>)))))"

text \<open>\<open>forward_query\<close> up to the send.\<close>

definition register_step ::
  "task_id \<Rightarrow> dns_task \<Rightarrow> string \<Rightarrow> ipv4 \<Rightarrow> u16 list \<Rightarrow> dns_state \<Rightarrow> dns_output list \<times> dns_state" where
  "register_step t task cache_key up draws s =
     (if length (dt_query task) < DNS_HEADER_SIZE then ([], set_task t None s)
      else (case register_query t up draws (ds_pending s) of
              Refused \<Rightarrow> ([], set_task t None s)
            | StillDrawing \<Rightarrow> ([], s)
            | Registered rng_xid pending \<Rightarrow>
                (case forwarded_query rng_xid (dt_query task) of
                   Inl p \<Rightarrow> ([TaskPanicked p], set_task t None (s\<lparr>ds_pending := pending\<rparr>))
                 | Inr fwd \<Rightarrow> ([SendUpstream fwd up],
                     set_phase t task (Sending cache_key up rng_xid) (s\<lparr>ds_pending := pending\<rparr>)))))"

text \<open>
  The await on the channel ends with its reply or because it is closed; then the rest of
  \<open>forward_query\<close> and of \<open>handle_dns_query\<close>.
\<close>

definition wake_step ::
  "dns_parser \<Rightarrow> task_id \<Rightarrow> dns_task \<Rightarrow> string \<Rightarrow> u16 \<Rightarrow> instant \<Rightarrow> dns_state \<Rightarrow>
     dns_output list \<times> dns_state" where
  "wake_step parse t task cache_key rng_xid now s =
     (case dt_mail task of
        Empty \<Rightarrow> ([], s)
      | Closed \<Rightarrow> ([], set_phase t task (Failed rng_xid) s)
      | Delivered resp \<Rightarrow>
          (case restore_xid (dt_query task) resp of
             Inl p \<Rightarrow> ([TaskPanicked p], set_task t None s)
           | Inr None \<Rightarrow> ([], set_task t None s)
           | Inr (Some r) \<Rightarrow>
               ([Answer r (dt_src task)],
                set_task t None
                  (s\<lparr>ds_cache := insert_cache parse now cache_key r (ds_cache s)\<rparr>))))"

text \<open>The receiver task.\<close>

definition reply_step :: "bytes \<Rightarrow> ipv4 \<Rightarrow> dns_state \<Rightarrow> dns_output list \<times> dns_state" where
  "reply_step buf from_ip s =
     (let (pending, dispatch) = upstream_reply (take RECV_BUF_SIZE buf) from_ip (ds_pending s);
          s = s\<lparr>ds_pending := pending\<rparr>
      in case dispatch of
           None \<Rightarrow> ([], s)
         | Some (t, res) \<Rightarrow>
             (case ds_tasks s t of
                None \<Rightarrow> ([], s)
              | Some task \<Rightarrow>
                  ([], set_task t (Some (task\<lparr>dt_mail :=
                     (case res of Some r \<Rightarrow> Delivered r | None \<Rightarrow> Closed)\<rparr>)) s)))"

text \<open>The event of one task, by its phase; a time-out is not taken while the reply is there.\<close>

definition task_step ::
  "dns_parser \<Rightarrow> dns_event \<Rightarrow> task_id \<Rightarrow> dns_task \<Rightarrow> dns_state \<Rightarrow> dns_output list \<times> dns_state" where
  "task_step parse ev t task s =
     (case (ev, dt_phase task) of
        (EvLookup _ now, Arrived) \<Rightarrow> lookup_step parse t task now s
      | (EvUpstream _, Missed cache_key) \<Rightarrow>
          ([], set_phase t task (Resolved cache_key (get_upstream_dns (ds_lease s))) s)
      | (EvRegister _ draws, Resolved cache_key up) \<Rightarrow> register_step t task cache_key up draws s
      | (EvSent _ ok, Sending cache_key up x) \<Rightarrow>
          ([], set_phase t task (if ok then Waiting cache_key up x else Failed x) s)
      | (EvTimeout _, Waiting cache_key up x) \<Rightarrow>
          (case dt_mail task of
             Empty \<Rightarrow> ([], set_phase t task (Failed x) s)
           | _ \<Rightarrow> ([], s))
      | (EvWake _ now, Waiting cache_key up x) \<Rightarrow> wake_step parse t task cache_key x now s
      | (EvRemove _, Failed x) \<Rightarrow>
          ([], set_task t None (s\<lparr>ds_pending := hm_remove x (ds_pending s)\<rparr>))
      | _ \<Rightarrow> ([], s))"

fun event_task :: "dns_event \<Rightarrow> task_id option" where
  "event_task (EvLookup t _) = Some t"
| "event_task (EvUpstream t) = Some t"
| "event_task (EvRegister t _) = Some t"
| "event_task (EvSent t _) = Some t"
| "event_task (EvTimeout t) = Some t"
| "event_task (EvWake t _) = Some t"
| "event_task (EvRemove t) = Some t"
| "event_task _ = None"

definition dns_step :: "dns_parser \<Rightarrow> dns_event \<Rightarrow> dns_state \<Rightarrow> dns_output list \<times> dns_state" where
  "dns_step parse ev s =
     (case event_task ev of
        Some t \<Rightarrow> (case ds_tasks s t of None \<Rightarrow> ([], s) | Some task \<Rightarrow> task_step parse ev t task s)
      | None \<Rightarrow>
          (case ev of
             EvQuery buf src \<Rightarrow>
               ([], s\<lparr>ds_tasks := (ds_tasks s)(ds_next s \<mapsto>
                        \<lparr>dt_query = take RECV_BUF_SIZE buf, dt_src = src, dt_phase = Arrived,
                         dt_mail = Empty\<rparr>),
                      ds_next := ds_next s + 1\<rparr>)
           | EvReply buf from_ip \<Rightarrow> reply_step buf from_ip s
           | EvCleanup now \<Rightarrow> ([], s\<lparr>ds_cache := cleanup_cache now (ds_cache s)\<rparr>)
           | EvLease lease \<Rightarrow> ([], s\<lparr>ds_lease := lease\<rparr>)
           | _ \<Rightarrow> ([], s)))"

text \<open>A run: the events so far, the last one first, and the state they lead to.\<close>

inductive dns_run :: "dns_parser \<Rightarrow> dns_event list \<Rightarrow> dns_state \<Rightarrow> bool" for parse where
  start: "dns_run parse [] dns_start"
| step: "dns_run parse evs s \<Longrightarrow> dns_step parse ev s = (out, s') \<Longrightarrow> dns_run parse (ev # evs) s'"

section \<open>The invariant\<close>

fun phase_key :: "task_phase \<Rightarrow> string option" where
  "phase_key (Missed k) = Some k"
| "phase_key (Resolved k _) = Some k"
| "phase_key (Sending k _ _) = Some k"
| "phase_key (Waiting k _ _) = Some k"
| "phase_key _ = None"

fun phase_upstream :: "task_phase \<Rightarrow> ipv4 option" where
  "phase_upstream (Resolved _ u) = Some u"
| "phase_upstream (Sending _ u _) = Some u"
| "phase_upstream (Waiting _ u _) = Some u"
| "phase_upstream _ = None"

fun phase_xid :: "task_phase \<Rightarrow> u16 option" where
  "phase_xid (Sending _ _ x) = Some x"
| "phase_xid (Waiting _ _ x) = Some x"
| "phase_xid (Failed x) = Some x"
| "phase_xid _ = None"

text \<open>
  What the events account for: a query some client sent; an upstream server that is the
  fallback or the first of a lease; a reply that arrived from an address; and the content of a
  cache entry, which is such a reply with the two bytes of a query with that key in front.
\<close>

definition asked :: "dns_event set \<Rightarrow> bytes \<Rightarrow> client_addr \<Rightarrow> bool" where
  "asked E q src \<longleftrightarrow> (\<exists>buf. EvQuery buf src \<in> E \<and> q = take RECV_BUF_SIZE buf)"

definition known_upstream :: "dns_event set \<Rightarrow> ipv4 \<Rightarrow> bool" where
  "known_upstream E u \<longleftrightarrow>
     u = FALLBACK_DNS_SERVER \<or> (\<exists>L rest. EvLease L \<in> E \<and> wl_dns_servers L = u # rest)"

definition received :: "dns_event set \<Rightarrow> bytes \<Rightarrow> ipv4 \<Rightarrow> bool" where
  "received E r u \<longleftrightarrow>
     (\<exists>buf. EvReply buf u \<in> E \<and> r = take RECV_BUF_SIZE buf \<and> DNS_HEADER_SIZE \<le> length r)"

definition genuine :: "dns_parser \<Rightarrow> dns_event set \<Rightarrow> string \<Rightarrow> bytes \<Rightarrow> bool" where
  "genuine parse E k r \<longleftrightarrow>
     (\<exists>q src resp u. asked E q src \<and> get_cache_key parse q = Some k \<and> DNS_HEADER_SIZE \<le> length q \<and>
        known_upstream E u \<and> received E resp u \<and> r = take 2 q @ drop 2 resp)"

definition cache_ok :: "dns_parser \<Rightarrow> dns_event set \<Rightarrow> dns_cache \<Rightarrow> bool" where
  "cache_ok parse E c \<longleftrightarrow>
     hm_ok c \<and> (\<forall>k e. hm_get c k = Some e \<longrightarrow> genuine parse E k (response e))"

definition pending_ok :: "pending_queries \<Rightarrow> (task_id \<Rightarrow> dns_task option) \<Rightarrow> bool" where
  "pending_ok pending tasks \<longleftrightarrow>
     hm_ok pending \<and> hm_len pending \<le> MAX_PENDING_QUERIES \<and>
     (\<forall>x p. hm_get pending x = Some p \<longrightarrow>
        (\<exists>task. tasks (tx p) = Some task \<and> phase_xid (dt_phase task) = Some x \<and>
           dt_mail task = Empty \<and> phase_upstream (dt_phase task) \<in> {None, Some (upstream_ip p)}))"

definition task_ok :: "dns_parser \<Rightarrow> dns_event set \<Rightarrow> dns_task \<Rightarrow> bool" where
  "task_ok parse E task \<longleftrightarrow>
     asked E (dt_query task) (dt_src task) \<and>
     (\<forall>k. phase_key (dt_phase task) = Some k \<longrightarrow>
        get_cache_key parse (dt_query task) = Some k \<and> DNS_HEADER_SIZE \<le> length (dt_query task)) \<and>
     (\<forall>u. phase_upstream (dt_phase task) = Some u \<longrightarrow> known_upstream E u) \<and>
     (\<forall>r. dt_mail task = Delivered r \<longrightarrow> phase_xid (dt_phase task) = Some (read_xid r) \<and>
        (\<forall>u. phase_upstream (dt_phase task) = Some u \<longrightarrow> received E r u)) \<and>
     (phase_xid (dt_phase task) = None \<longrightarrow> dt_mail task = Empty)"

definition tasks_ok :: "dns_parser \<Rightarrow> dns_event set \<Rightarrow> task_id \<Rightarrow> (task_id \<Rightarrow> dns_task option) \<Rightarrow> bool" where
  "tasks_ok parse E n tasks \<longleftrightarrow> (\<forall>t task. tasks t = Some task \<longrightarrow> t < n \<and> task_ok parse E task)"

definition dns_inv :: "dns_parser \<Rightarrow> dns_event set \<Rightarrow> dns_state \<Rightarrow> bool" where
  "dns_inv parse E s \<longleftrightarrow>
     cache_ok parse E (ds_cache s) \<and> pending_ok (ds_pending s) (ds_tasks s) \<and>
     tasks_ok parse E (ds_next s) (ds_tasks s) \<and> known_upstream E (get_upstream_dns (ds_lease s))"

subsection \<open>More events\<close>

lemma asked_mono: "asked E q src \<Longrightarrow> E \<subseteq> E' \<Longrightarrow> asked E' q src"
  by (auto simp: asked_def)

lemma known_upstream_mono: "known_upstream E u \<Longrightarrow> E \<subseteq> E' \<Longrightarrow> known_upstream E' u"
  by (auto simp: known_upstream_def)

lemma received_mono: "received E r u \<Longrightarrow> E \<subseteq> E' \<Longrightarrow> received E' r u"
  by (auto simp: received_def)

lemma genuine_mono: "genuine parse E k r \<Longrightarrow> E \<subseteq> E' \<Longrightarrow> genuine parse E' k r"
  unfolding genuine_def by (blast intro: asked_mono known_upstream_mono received_mono)

lemma task_ok_mono: "task_ok parse E task \<Longrightarrow> E \<subseteq> E' \<Longrightarrow> task_ok parse E' task"
  unfolding task_ok_def by (meson asked_mono known_upstream_mono received_mono)

lemma dns_inv_mono: "dns_inv parse E s \<Longrightarrow> E \<subseteq> E' \<Longrightarrow> dns_inv parse E' s"
  unfolding dns_inv_def cache_ok_def tasks_ok_def
  by (meson genuine_mono task_ok_mono known_upstream_mono)

subsection \<open>Updates of one task\<close>

lemma set_task_fields [simp]:
  "ds_cache (set_task t task s) = ds_cache s" "ds_pending (set_task t task s) = ds_pending s"
  "ds_tasks (set_task t task s) = (ds_tasks s)(t := task)" "ds_next (set_task t task s) = ds_next s"
  "ds_lease (set_task t task s) = ds_lease s"
  by (simp_all add: set_task_def)

definition entry_ok :: "(task_id \<Rightarrow> dns_task option) \<Rightarrow> u16 \<Rightarrow> pending_query \<Rightarrow> bool" where
  "entry_ok tasks x p \<longleftrightarrow>
     (\<exists>task. tasks (tx p) = Some task \<and> phase_xid (dt_phase task) = Some x \<and>
        dt_mail task = Empty \<and> phase_upstream (dt_phase task) \<in> {None, Some (upstream_ip p)})"

lemma pending_ok_entries:
  "pending_ok pending tasks \<longleftrightarrow> hm_ok pending \<and> hm_len pending \<le> MAX_PENDING_QUERIES \<and>
     (\<forall>x p. hm_get pending x = Some p \<longrightarrow> entry_ok tasks x p)"
  by (simp add: pending_ok_def entry_ok_def)

lemma entry_ok_other: "entry_ok tasks x p \<Longrightarrow> tx p \<noteq> t \<Longrightarrow> entry_ok (tasks(t := v)) x p"
  by (simp add: entry_ok_def)

lemma pending_ok_upd:
  assumes "pending_ok pending tasks"
    and "\<And>x p. entry_ok tasks x p \<Longrightarrow> tx p = t \<Longrightarrow> entry_ok (tasks(t := v)) x p"
  shows "pending_ok pending (tasks(t := v))"
  using assms entry_ok_other [of tasks _ _ t v] unfolding pending_ok_entries by blast

lemma pending_ok_end:
  "pending_ok pending tasks \<Longrightarrow> tasks t = Some task \<Longrightarrow> phase_xid (dt_phase task) = None \<Longrightarrow>
     pending_ok pending (tasks(t := v))"
  by (rule pending_ok_upd) (auto simp: entry_ok_def)

lemma pending_ok_mail:
  "pending_ok pending tasks \<Longrightarrow> tasks t = Some task \<Longrightarrow> dt_mail task \<noteq> Empty \<Longrightarrow>
     pending_ok pending (tasks(t := v))"
  by (rule pending_ok_upd) (auto simp: entry_ok_def)

lemma pending_ok_phase:
  "pending_ok pending tasks \<Longrightarrow> tasks t = Some task \<Longrightarrow>
     phase_xid ph = phase_xid (dt_phase task) \<Longrightarrow>
     phase_upstream ph \<in> {None, phase_upstream (dt_phase task)} \<Longrightarrow>
     pending_ok pending (tasks(t \<mapsto> task\<lparr>dt_phase := ph\<rparr>))"
  by (rule pending_ok_upd) (auto simp: entry_ok_def)

lemma pending_ok_drop:
  assumes "pending_ok pending tasks" and "tasks t = Some task"
    and "phase_xid (dt_phase task) = Some x"
  shows "pending_ok (hm_remove x pending) (tasks(t := v))"
proof -
  have ok: "hm_ok pending" using assms(1) by (simp add: pending_ok_def)
  have "entry_ok (tasks(t := v)) y p" if "hm_get (hm_remove x pending) y = Some p" for y p
  proof -
    have y: "y \<noteq> x" "hm_get pending y = Some p"
      using that ok by (auto simp: hm.get_remove split: if_splits)
    then have "entry_ok tasks y p" using assms(1) by (simp add: pending_ok_entries)
    moreover from this have "tx p \<noteq> t" using y(1) assms(2,3) by (auto simp: entry_ok_def)
    ultimately show ?thesis by (rule entry_ok_other)
  qed
  moreover have "hm_len (hm_remove x pending) \<le> hm_len pending" using ok by (rule hm.len_remove_le)
  ultimately show ?thesis
    using assms(1) by (auto simp: pending_ok_entries)
qed

lemma tasks_ok_upd:
  "tasks_ok parse E n tasks \<Longrightarrow> (\<And>task. v = Some task \<Longrightarrow> t < n \<and> task_ok parse E task) \<Longrightarrow>
     tasks_ok parse E n (tasks(t := v))"
  by (auto simp: tasks_ok_def)

lemma tasks_okD: "tasks_ok parse E n tasks \<Longrightarrow> tasks t = Some task \<Longrightarrow> t < n \<and> task_ok parse E task"
  by (simp add: tasks_ok_def)

lemma tasks_ok_None: "tasks_ok parse E n tasks \<Longrightarrow> tasks_ok parse E n (tasks(t := None))"
  by (rule tasks_ok_upd) auto

subsection \<open>Steps keep it\<close>

fun output_ok :: "dns_parser \<Rightarrow> dns_event set \<Rightarrow> dns_output \<Rightarrow> bool" where
  "output_ok parse E (Answer r src) =
     (\<exists>q k b. asked E q src \<and> get_cache_key parse q = Some k \<and> genuine parse E k b \<and>
        r = take 2 q @ drop 2 b)"
| "output_ok parse E (SendUpstream f u) =
     (\<exists>q src. asked E q src \<and> known_upstream E u \<and> drop 2 f = drop 2 q)"
| "output_ok parse E (TaskPanicked p) = False"

definition step_ok :: "dns_parser \<Rightarrow> dns_event set \<Rightarrow> dns_output list \<times> dns_state \<Rightarrow> bool" where
  "step_ok parse E res \<longleftrightarrow> dns_inv parse E (snd res) \<and> (\<forall>out \<in> set (fst res). output_ok parse E out)"

lemma step_ok_silent [simp]: "step_ok parse E ([], s) \<longleftrightarrow> dns_inv parse E s"
  by (simp add: step_ok_def)

lemma genuine_length: "genuine parse E k r \<Longrightarrow> DNS_HEADER_SIZE \<le> length r"
  by (auto simp: genuine_def received_def DNS_HEADER_SIZE_def)

lemma drop2_genuine: "DNS_HEADER_SIZE \<le> length q \<Longrightarrow> drop 2 (take 2 q @ drop 2 r) = drop 2 r"
  by (simp add: DNS_HEADER_SIZE_def)

lemma lookup_cache_inv:
  assumes "cache_ok parse E c" and "lookup_cache now k c = (r, c')"
  shows "cache_ok parse E c'" and "r = Some b \<Longrightarrow> genuine parse E k b"
  using assms
  by (auto simp: cache_ok_def lookup_get hm.get_remove split: option.splits if_splits)

lemma insert_cache_inv:
  "cache_ok parse E c \<Longrightarrow> genuine parse E k r \<Longrightarrow> cache_ok parse E (insert_cache parse now k r c)"
  by (auto simp: cache_ok_def insert_cache_get split: option.splits if_splits)

lemma cleanup_cache_inv: "cache_ok parse E c \<Longrightarrow> cache_ok parse E (cleanup_cache now c)"
  by (auto simp: cache_ok_def cleanup_cache_def hm.get_retain_Some_iff)

lemma dns_inv_end:
  assumes "dns_inv parse E s" and "ds_tasks s t = Some task" and "cache_ok parse E c"
    and "phase_xid (dt_phase task) = None \<or> dt_mail task \<noteq> Empty"
  shows "dns_inv parse E (set_task t None (s\<lparr>ds_cache := c\<rparr>))"
  using assms pending_ok_end [of "ds_pending s" "ds_tasks s" t task None]
    pending_ok_mail [of "ds_pending s" "ds_tasks s" t task None]
  by (auto simp: dns_inv_def tasks_ok_None)

lemma dns_inv_drop_task:
  assumes "dns_inv parse E s" and "ds_tasks s t = Some task"
    and "phase_xid (dt_phase task) = None \<or> dt_mail task \<noteq> Empty"
  shows "dns_inv parse E (set_task t None s)"
  using dns_inv_end [of parse E s t task "ds_cache s"] assms by (simp add: dns_inv_def)

lemma dns_inv_phase:
  assumes "dns_inv parse E s" and "ds_tasks s t = Some task" and "cache_ok parse E c"
    and "phase_xid ph = phase_xid (dt_phase task)"
    and "phase_xid ph = None \<or> phase_upstream ph \<in> {None, phase_upstream (dt_phase task)}"
    and "task_ok parse E (task\<lparr>dt_phase := ph\<rparr>)"
  shows "dns_inv parse E (set_phase t task ph (s\<lparr>ds_cache := c\<rparr>))"
proof -
  have "pending_ok (ds_pending s) ((ds_tasks s)(t \<mapsto> task\<lparr>dt_phase := ph\<rparr>))"
    using assms(1,2,4,5) pending_ok_phase [of "ds_pending s" "ds_tasks s" t task ph]
      pending_ok_end [of "ds_pending s" "ds_tasks s" t task]
    by (auto simp: dns_inv_def)
  moreover have "tasks_ok parse E (ds_next s) ((ds_tasks s)(t \<mapsto> task\<lparr>dt_phase := ph\<rparr>))"
    using assms(1,2,6) by (intro tasks_ok_upd) (auto simp: dns_inv_def dest: tasks_okD)
  ultimately show ?thesis
    using assms(1,3) by (simp add: dns_inv_def set_phase_def)
qed

lemma dns_inv_set_phase:
  assumes "dns_inv parse E s" and "ds_tasks s t = Some task"
    and "phase_xid ph = phase_xid (dt_phase task)"
    and "phase_xid ph = None \<or> phase_upstream ph \<in> {None, phase_upstream (dt_phase task)}"
    and "task_ok parse E (task\<lparr>dt_phase := ph\<rparr>)"
  shows "dns_inv parse E (set_phase t task ph s)"
  using dns_inv_phase [of parse E s t task "ds_cache s" ph] assms by (simp add: dns_inv_def)

lemma inv_task_ok: "dns_inv parse E s \<Longrightarrow> ds_tasks s t = Some task \<Longrightarrow> task_ok parse E task"
  by (auto simp: dns_inv_def dest: tasks_okD)

lemma lookup_step_ok:
  assumes inv: "dns_inv parse E s" and t: "ds_tasks s t = Some task" and ph: "dt_phase task = Arrived"
  shows "step_ok parse E (lookup_step parse t task now s)"
proof (cases "length (dt_query task) < DNS_HEADER_SIZE \<or> get_cache_key parse (dt_query task) = None")
  case True
  then show ?thesis
    using dns_inv_drop_task [OF inv t] ph by (auto simp: lookup_step_def Let_def)
next
  case False
  then obtain k where k: "get_cache_key parse (dt_query task) = Some k"
    and len: "DNS_HEADER_SIZE \<le> length (dt_query task)" by auto
  obtain r c where l: "lookup_cache now k (ds_cache s) = (r, c)" by (cases "lookup_cache now k (ds_cache s)")
  have c: "cache_ok parse E c" and gen: "\<And>b. r = Some b \<Longrightarrow> genuine parse E k b"
    using lookup_cache_inv [OF _ l] inv by (auto simp: dns_inv_def)
  have ok: "task_ok parse E task" using inv t by (rule inv_task_ok)
  have two: "[dt_query task ! 0, dt_query task ! 1] = take 2 (dt_query task)"
    using len by (cases "dt_query task"; cases "tl (dt_query task)") (auto simp: DNS_HEADER_SIZE_def)
  show ?thesis
  proof (cases r)
    case None
    have "task_ok parse E (task\<lparr>dt_phase := Missed k\<rparr>)"
      using ok ph k len by (simp add: task_ok_def)
    then show ?thesis
      using dns_inv_phase [OF inv t c, of "Missed k"] None k len l ph by (simp add: lookup_step_def)
  next
    case (Some b)
    have "write_xid (dt_query task ! 0) (dt_query task ! 1) b = Inr (take 2 (dt_query task) @ drop 2 b)"
      using genuine_length [OF gen [OF Some]] two by (simp add: write_xid_ok DNS_HEADER_SIZE_def flip: two)
    then have step: "lookup_step parse t task now s =
        ([Answer (take 2 (dt_query task) @ drop 2 b) (dt_src task)], set_task t None (s\<lparr>ds_cache := c\<rparr>))"
      using k len l Some by (simp add: lookup_step_def)
    have "output_ok parse E (Answer (take 2 (dt_query task) @ drop 2 b) (dt_src task))"
      unfolding output_ok.simps using ok k gen [OF Some] by (auto simp: task_ok_def)
    then show ?thesis
      using dns_inv_end [OF inv t c] ph by (simp add: step step_ok_def)
  qed
qed

lemma pending_ok_register:
  assumes "pending_ok pending tasks" and "tasks t = Some task" and "phase_xid (dt_phase task) = None"
    and "hm_get pending x = None" and "hm_len pending < MAX_PENDING_QUERIES"
    and "dt_mail task' = Empty" and "phase_xid (dt_phase task') = Some x"
    and "phase_upstream (dt_phase task') = Some u"
  shows "pending_ok (hm_insert x \<lparr>tx = t, upstream_ip = u\<rparr> pending) (tasks(t \<mapsto> task'))"
proof -
  have ok: "hm_ok pending" using assms(1) by (simp add: pending_ok_def)
  have old: "pending_ok pending (tasks(t \<mapsto> task'))"
    using assms(1-3) by (rule pending_ok_end)
  have "entry_ok (tasks(t \<mapsto> task')) x \<lparr>tx = t, upstream_ip = u\<rparr>"
    using assms(6-8) by (simp add: entry_ok_def)
  then show ?thesis
    using old ok assms(4,5) by (auto simp: pending_ok_entries hm.get_insert hm.len_insert)
qed

lemma register_step_ok:
  assumes inv: "dns_inv parse E s" and t: "ds_tasks s t = Some task"
    and ph: "dt_phase task = Resolved k u"
  shows "step_ok parse E (register_step t task k u draws s)"
proof -
  have ok: "task_ok parse E task" using inv t by (rule inv_task_ok)
  then have len: "DNS_HEADER_SIZE \<le> length (dt_query task)" and mail: "dt_mail task = Empty"
    using ph by (auto simp: task_ok_def)
  show ?thesis
  proof (cases "register_query t u draws (ds_pending s)")
    case Refused
    then show ?thesis
      using dns_inv_drop_task [OF inv t] ph len by (simp add: register_step_def)
  next
    case StillDrawing
    then show ?thesis using inv len by (simp add: register_step_def)
  next
    case (Registered x pending)
    note new = register_query_Registered [OF Registered]
    have fwd: "forwarded_query x (dt_query task) =
        Inr (u16_to_be_bytes x @ drop 2 (dt_query task))"
      using len by (simp add: forwarded_query_ok DNS_HEADER_SIZE_def)
    have p: "pending_ok pending ((ds_tasks s)(t \<mapsto> task\<lparr>dt_phase := Sending k u x\<rparr>))"
      unfolding new(3)
      by (rule pending_ok_register [where task = task])
        (use inv t ph new mail in \<open>simp_all add: dns_inv_def\<close>)
    have "task_ok parse E (task\<lparr>dt_phase := Sending k u x\<rparr>)"
      using ok ph mail by (simp add: task_ok_def)
    then have "tasks_ok parse E (ds_next s) ((ds_tasks s)(t \<mapsto> task\<lparr>dt_phase := Sending k u x\<rparr>))"
      using inv t by (intro tasks_ok_upd) (auto simp: dns_inv_def dest: tasks_okD)
    then have "dns_inv parse E (set_phase t task (Sending k u x) (s\<lparr>ds_pending := pending\<rparr>))"
      using inv p by (simp add: dns_inv_def set_phase_def)
    moreover have "output_ok parse E (SendUpstream (u16_to_be_bytes x @ drop 2 (dt_query task)) u)"
      unfolding output_ok.simps using ok ph
      by (intro exI [of _ "dt_query task"] exI [of _ "dt_src task"])
        (auto simp: task_ok_def u16_to_be_bytes_def)
    ultimately show ?thesis
      using len Registered by (simp add: register_step_def fwd step_ok_def)
  qed
qed

lemma wake_step_ok:
  assumes inv: "dns_inv parse E s" and t: "ds_tasks s t = Some task"
    and ph: "dt_phase task = Waiting k u x"
  shows "step_ok parse E (wake_step parse t task k x now s)"
proof -
  have ok: "task_ok parse E task" using inv t by (rule inv_task_ok)
  then have key: "get_cache_key parse (dt_query task) = Some k"
    and len: "DNS_HEADER_SIZE \<le> length (dt_query task)" and u: "known_upstream E u"
    and q: "asked E (dt_query task) (dt_src task)"
    using ph by (auto simp: task_ok_def)
  show ?thesis
  proof (cases "dt_mail task")
    case Empty
    then show ?thesis using inv by (simp add: wake_step_def)
  next
    case Closed
    have "task_ok parse E (task\<lparr>dt_phase := Failed x\<rparr>)"
      using ok ph Closed by (simp add: task_ok_def)
    then show ?thesis
      using dns_inv_set_phase [OF inv t, of "Failed x"] ph Closed by (simp add: wake_step_def)
  next
    case (Delivered resp)
    let ?r = "take 2 (dt_query task) @ drop 2 resp"
    have recv: "received E resp u" using ok ph Delivered by (simp add: task_ok_def)
    then have restore: "restore_xid (dt_query task) resp = Inr (Some ?r)"
      using len by (auto simp: restore_xid_ok received_def DNS_HEADER_SIZE_def)
    have gen: "genuine parse E k ?r"
      unfolding genuine_def using q key len u recv by blast
    have "output_ok parse E (Answer ?r (dt_src task))"
      unfolding output_ok.simps using q key gen drop2_genuine [OF len] by metis
    moreover have "cache_ok parse E (insert_cache parse now k ?r (ds_cache s))"
      using inv gen by (auto simp: dns_inv_def intro: insert_cache_inv)
    then have "dns_inv parse E
        (set_task t None (s\<lparr>ds_cache := insert_cache parse now k ?r (ds_cache s)\<rparr>))"
      by (rule dns_inv_end [OF inv t]) (simp add: Delivered)
    ultimately show ?thesis using Delivered by (simp add: wake_step_def restore step_ok_def)
  qed
qed

lemma reply_step_ok:
  assumes inv: "dns_inv parse E s" and ev: "EvReply buf from_ip \<in> E"
  shows "step_ok parse E (reply_step buf from_ip s)"
proof (cases "length (take RECV_BUF_SIZE buf) < DNS_HEADER_SIZE")
  case True
  then show ?thesis using inv by (simp add: reply_step_def upstream_reply_def)
next
  case False
  define d where "d = take RECV_BUF_SIZE buf"
  have recv: "received E d from_ip" using False ev by (auto simp: received_def d_def)
  have hm: "hm_ok (ds_pending s)" using inv by (simp add: dns_inv_def pending_ok_def)
  show ?thesis
  proof (cases "hm_get (ds_pending s) (read_xid d)")
    case None
    have "hm_get (hm_remove (read_xid d) (ds_pending s)) = hm_get (ds_pending s)"
      using None hm by (simp add: hm.get_remove fun_upd_idem)
    moreover have "hm_len (hm_remove (read_xid d) (ds_pending s)) \<le> hm_len (ds_pending s)"
      using hm by (rule hm.len_remove_le)
    ultimately have "pending_ok (hm_remove (read_xid d) (ds_pending s)) (ds_tasks s)"
      using inv by (simp add: dns_inv_def pending_ok_def)
    then show ?thesis
      using inv False None by (simp add: reply_step_def upstream_reply_def Let_def d_def dns_inv_def)
  next
    case (Some p)
    then obtain task where t: "ds_tasks s (tx p) = Some task"
      and x: "phase_xid (dt_phase task) = Some (read_xid d)" and mail: "dt_mail task = Empty"
      and up: "phase_upstream (dt_phase task) \<in> {None, Some (upstream_ip p)}"
      using inv by (auto simp: dns_inv_def pending_ok_entries entry_ok_def)
    define m where "m = (if from_ip = upstream_ip p then Delivered d else Closed)"
    have "task_ok parse E (task\<lparr>dt_mail := m\<rparr>)"
      using inv_task_ok [OF inv t] x up recv by (auto simp: task_ok_def m_def)
    then have "tasks_ok parse E (ds_next s) ((ds_tasks s)(tx p \<mapsto> task\<lparr>dt_mail := m\<rparr>))"
      using inv t by (intro tasks_ok_upd) (auto simp: dns_inv_def dest: tasks_okD)
    moreover have "pending_ok (hm_remove (read_xid d) (ds_pending s))
        ((ds_tasks s)(tx p \<mapsto> task\<lparr>dt_mail := m\<rparr>))"
      using inv t x by (intro pending_ok_drop) (auto simp: dns_inv_def)
    ultimately have "dns_inv parse E (set_task (tx p) (Some (task\<lparr>dt_mail := m\<rparr>))
        (s\<lparr>ds_pending := hm_remove (read_xid d) (ds_pending s)\<rparr>))"
      using inv by (simp add: dns_inv_def)
    then show ?thesis
      using False Some t by (simp add: reply_step_def upstream_reply_def Let_def d_def [symmetric] m_def
          split: if_splits)
  qed
qed

lemma timeout_ok:
  assumes "dns_inv parse E s" and "ds_tasks s t = Some task"
    and "dt_phase task = Sending k u x \<or> dt_phase task = Waiting k u x"
  shows "dns_inv parse E (set_phase t task (Failed x) s)"
    and "dt_phase task = Sending k u x \<Longrightarrow> dns_inv parse E (set_phase t task (Waiting k u x) s)"
  using inv_task_ok [OF assms(1,2)] assms
  by (auto intro!: dns_inv_set_phase simp: task_ok_def)

lemma resolve_ok:
  assumes "dns_inv parse E s" and "ds_tasks s t = Some task" and "dt_phase task = Missed k"
  shows "dns_inv parse E (set_phase t task (Resolved k (get_upstream_dns (ds_lease s))) s)"
  using inv_task_ok [OF assms(1,2)] assms
  by (auto intro!: dns_inv_set_phase simp: task_ok_def) (simp add: dns_inv_def)

lemma remove_ok:
  assumes "dns_inv parse E s" and "ds_tasks s t = Some task" and "dt_phase task = Failed x"
  shows "dns_inv parse E (set_task t None (s\<lparr>ds_pending := hm_remove x (ds_pending s)\<rparr>))"
  using assms pending_ok_drop [of "ds_pending s" "ds_tasks s" t task x None]
  by (simp add: dns_inv_def tasks_ok_None)

lemma task_step_ok:
  assumes inv: "dns_inv parse E s" and t: "ds_tasks s t = Some task"
  shows "step_ok parse E (task_step parse ev t task s)"
proof (cases "dt_phase task")
  case Arrived
  then show ?thesis
    using inv lookup_step_ok [OF inv t] by (cases ev) (simp_all add: task_step_def)
next
  case (Missed k)
  then show ?thesis
    using inv resolve_ok [OF inv t] by (cases ev) (simp_all add: task_step_def)
next
  case (Resolved k u)
  then show ?thesis
    using inv register_step_ok [OF inv t] by (cases ev) (simp_all add: task_step_def)
next
  case (Sending k u x)
  then show ?thesis
    using inv timeout_ok [OF inv t] by (cases ev) (auto simp: task_step_def)
next
  case (Waiting k u x)
  then show ?thesis
    using inv timeout_ok [OF inv t] wake_step_ok [OF inv t]
    by (cases ev) (auto simp: task_step_def split: mailbox.split)
next
  case (Failed x)
  then show ?thesis
    using inv remove_ok [OF inv t] by (cases ev) (simp_all add: task_step_def)
qed

lemma query_ok:
  assumes inv: "dns_inv parse E s" and ev: "EvQuery buf src \<in> E"
  shows "step_ok parse E (dns_step parse (EvQuery buf src) s)"
proof -
  define task where "task = \<lparr>dt_query = take RECV_BUF_SIZE buf, dt_src = src,
    dt_phase = Arrived, dt_mail = Empty\<rparr>"
  have ok: "task_ok parse E task" using ev by (auto simp: task_ok_def task_def asked_def)
  have tasks: "tasks_ok parse E (ds_next s) (ds_tasks s)" using inv by (simp add: dns_inv_def)
  then have fresh: "ds_tasks s (ds_next s) = None"
    by (cases "ds_tasks s (ds_next s)") (auto dest: tasks_okD)
  have "tasks_ok parse E (Suc (ds_next s)) ((ds_tasks s)(ds_next s \<mapsto> task))"
    using tasks ok by (auto simp: tasks_ok_def less_SucI)
  moreover have "pending_ok (ds_pending s) ((ds_tasks s)(ds_next s \<mapsto> task))"
    using inv fresh by (intro pending_ok_upd) (auto simp: dns_inv_def entry_ok_def)
  ultimately show ?thesis
    using inv by (simp add: dns_step_def dns_inv_def task_def)
qed

lemma dns_step_ok:
  assumes "dns_inv parse E s" and "ev \<in> E"
  shows "step_ok parse E (dns_step parse ev s)"
proof (cases "event_task ev")
  case (Some t)
  then show ?thesis
    using assms(1) task_step_ok [OF assms(1)] by (auto simp: dns_step_def split: option.split)
next
  case None
  then show ?thesis
  proof (cases ev)
    case (EvLease L)
    then have "known_upstream E (get_upstream_dns L)"
      using assms(2) by (auto simp: known_upstream_def get_upstream_dns_def split: list.split)
    then show ?thesis using assms(1) EvLease by (simp add: dns_step_def dns_inv_def)
  next
    case (EvCleanup now)
    then show ?thesis
      using assms(1) by (simp add: dns_step_def dns_inv_def cleanup_cache_inv)
  next
    case (EvQuery buf src)
    then show ?thesis using query_ok assms by simp
  next
    case (EvReply buf from_ip)
    then show ?thesis using reply_step_ok [OF assms(1)] assms(2) by (simp add: dns_step_def)
  qed simp_all
qed

lemma dns_start_inv: "dns_inv parse E dns_start"
  by (simp add: dns_inv_def dns_start_def cache_ok_def pending_ok_def tasks_ok_def hm.get_empty
      hm_len_def known_upstream_def get_upstream_dns_def wan_lease_default_def)

lemma dns_run_inv: "dns_run parse evs s \<Longrightarrow> dns_inv parse (set evs) s"
proof (induction rule: dns_run.induct)
  case start
  show ?case by (rule dns_start_inv)
next
  case (step evs s ev out s')
  have "dns_inv parse (set (ev # evs)) s" using step.IH by (rule dns_inv_mono) auto
  then show ?case
    using dns_step_ok [of parse "set (ev # evs)" s ev] step.hyps(2) by (simp add: step_ok_def)
qed

lemma dns_run_outputs:
  assumes "dns_run parse evs s" and "dns_step parse ev s = (outs, s')" and "out \<in> set outs"
  shows "output_ok parse (set (ev # evs)) out"
proof -
  have "dns_inv parse (set (ev # evs)) s"
    using dns_run_inv [OF assms(1)] by (rule dns_inv_mono) auto
  then show ?thesis
    using dns_step_ok [of parse "set (ev # evs)" s ev] assms(2,3) by (simp add: step_ok_def)
qed

section \<open>What a run guarantees\<close>

text \<open>The events an answer is made of.\<close>

lemma genuine_answer:
  assumes "output_ok parse E (Answer r src)"
  shows "\<exists>q q' src' k reply u. EvQuery q src \<in> E \<and> EvQuery q' src' \<in> E \<and>
    get_cache_key parse (take 4096 q) = Some k \<and> get_cache_key parse (take 4096 q') = Some k \<and>
    EvReply reply u \<in> E \<and> known_upstream E u \<and> 12 \<le> length reply \<and>
    r = take 2 q @ drop 2 (take 4096 reply)"
proof -
  from assms obtain q k b where q: "asked E q src" "get_cache_key parse q = Some k"
      "genuine parse E k b" "r = take 2 q @ drop 2 b"
    unfolding output_ok.simps by blast
  from q(3) obtain q' src' resp u where q': "asked E q' src'"
      "get_cache_key parse q' = Some k" "DNS_HEADER_SIZE \<le> length q'"
      "known_upstream E u" "received E resp u"
      "b = take 2 q' @ drop 2 resp"
    unfolding genuine_def by blast
  from q(1) obtain qb where qb: "EvQuery qb src \<in> E" "q = take 4096 qb"
    unfolding asked_def RECV_BUF_SIZE_def by blast
  from q'(1) obtain qb' where qb': "EvQuery qb' src' \<in> E" "q' = take 4096 qb'"
    unfolding asked_def RECV_BUF_SIZE_def by blast
  from q'(5) obtain rb where rb: "EvReply rb u \<in> E" "resp = take 4096 rb"
      "12 \<le> length resp"
    unfolding received_def RECV_BUF_SIZE_def DNS_HEADER_SIZE_def by blast
  have "r = take 2 qb @ drop 2 (take 4096 rb)"
    unfolding q(4) q'(6) drop2_genuine [OF q'(3)] rb(2) using qb(2) by simp
  moreover have "12 \<le> length rb" using rb(2,3) by simp
  ultimately show ?thesis
    using q(2) q'(2,4) qb qb' rb(1) by blast
qed


text \<open>A run for examples: \<open>dns_exec\<close> takes the events in order.\<close>

definition dns_exec :: "dns_parser \<Rightarrow> dns_event list \<Rightarrow> dns_state \<Rightarrow> dns_state" where
  "dns_exec parse evs s = fold (\<lambda>ev s. snd (dns_step parse ev s)) evs s"

lemma dns_run_exec: "dns_run parse old s \<Longrightarrow> dns_run parse (rev evs @ old) (dns_exec parse evs s)"
proof (induction evs arbitrary: old s)
  case (Cons ev evs)
  have "dns_run parse (ev # old) (snd (dns_step parse ev s))"
    using Cons.prems by (rule dns_run.step) (rule prod.collapse [symmetric])
  from Cons.IH [OF this] show ?case by (simp add: dns_exec_def)
qed (simp add: dns_exec_def)

definition sample_src :: client_addr where
  "sample_src = (ipv4_new 192 168 1 50, 40000)"

definition sample_reply :: "u8 \<Rightarrow> u8 \<Rightarrow> bytes" where
  "sample_reply x q = [0, x, 0x81, 0x80, 0, 1, 0, 2, 0, 0, 0, 0, q]"

lemmas dns_exec_simps = dns_exec_def dns_step_def task_step_def lookup_step_def register_step_def
  wake_step_def reply_step_def upstream_reply_def set_phase_def set_task_def dns_start_def
  lookup_cache_def register_query_def get_upstream_dns_def wan_lease_default_def
  sample_reply_def sample_query_def sample_parse_def sample_question_def get_cache_key_def
  RECV_BUF_SIZE_def DNS_HEADER_SIZE_def MAX_PENDING_QUERIES_def forwarded_query_def Let_def
  write_xid_def u16_to_be_bytes_def read_xid_def u16_from_be_bytes_def hm_exec

definition sent_query :: "task_id \<Rightarrow> u16 \<Rightarrow> u8 \<Rightarrow> dns_event list" where
  "sent_query t x q = [EvQuery (sample_query 7 q) sample_src, EvLookup t 0, EvUpstream t,
     EvRegister t [x], EvSent t True]"

definition sample_waiting :: "u16 \<Rightarrow> dns_task" where
  "sample_waiting x = \<lparr>dt_query = sample_query 7 2, dt_src = sample_src,
     dt_phase = Waiting ''b:A:IN'' FALLBACK_DNS_SERVER x, dt_mail = Empty\<rparr>"

lemma sent_query_exec:
  "dns_exec sample_parse (sent_query 0 5 2) dns_start =
     dns_start\<lparr>ds_pending := [(5, \<lparr>tx = 0, upstream_ip = FALLBACK_DNS_SERVER\<rparr>)],
       ds_tasks := [0 \<mapsto> sample_waiting 5], ds_next := 1\<rparr>"
  by (simp add: sent_query_def sample_waiting_def dns_exec_simps)

definition sample_sent :: dns_state where
  "sample_sent = dns_exec sample_parse (sent_query 0 5 2) dns_start"

lemma sample_sent_run: "dns_run sample_parse (rev (sent_query 0 5 2)) sample_sent"
  using dns_run_exec [OF dns_run.start, of sample_parse "sent_query 0 5 2"]
  by (simp add: sample_sent_def)

definition sample_replied :: dns_state where
  "sample_replied = snd (dns_step sample_parse (EvReply (sample_reply 5 2) FALLBACK_DNS_SERVER) sample_sent)"

lemma sample_replied_run:
  "dns_run sample_parse (EvReply (sample_reply 5 2) FALLBACK_DNS_SERVER # rev (sent_query 0 5 2))
     sample_replied"
  unfolding sample_replied_def
  by (rule dns_run.step [OF sample_sent_run]) (rule prod.collapse [symmetric])

lemma sample_replied_eq:
  "sample_replied = dns_start\<lparr>ds_pending := [],
     ds_tasks := [0 \<mapsto> (sample_waiting 5)\<lparr>dt_mail := Delivered (sample_reply 5 2)\<rparr>], ds_next := 1\<rparr>"
  unfolding sample_replied_def sample_sent_def sent_query_exec
  by (simp add: dns_exec_simps)

lemma sample_replied_wakes:
  "fst (dns_step sample_parse (EvWake 0 9) sample_replied) = [Answer (sample_reply 7 2) sample_src]"
  unfolding sample_replied_eq
  by (simp add: dns_exec_simps restore_xid_def sample_waiting_def)


text \<open>C14: A reply reaches a waiting query only if it is the reply to it: whatever a task has in
  its channel while its query is in flight is a datagram that came from the very server the
  query was sent to and carries the very transaction id it was sent with. The registry has at
  most 4096 entries, each owned by a live task in flight under that id whose channel is still
  empty, and no task owns two.\<close>

theorem reply_matches_query:
  assumes "dns_run parse evs s"
  shows "(\<forall>t task r k u x. ds_tasks s t = Some task \<and> dt_mail task = Delivered r \<and>
        dt_phase task \<in> {Sending k u x, Waiting k u x} \<longrightarrow>
        read_xid r = x \<and> (\<exists>buf. EvReply buf u \<in> set evs \<and> r = take 4096 buf))
    \<and> hm_len (ds_pending s) \<le> 4096
    \<and> (\<forall>x p. hm_get (ds_pending s) x = Some p \<longrightarrow>
        (\<exists>task. ds_tasks s (tx p) = Some task \<and> phase_xid (dt_phase task) = Some x \<and>
           dt_mail task = Empty))
    \<and> (\<forall>x y p p'. hm_get (ds_pending s) x = Some p \<and> hm_get (ds_pending s) y = Some p' \<and>
        tx p = tx p' \<longrightarrow> x = y)"
proof -
  have inv: "dns_inv parse (set evs) s" using assms by (rule dns_run_inv)
  have pend: "entry_ok (ds_tasks s) x p" if "hm_get (ds_pending s) x = Some p" for x p
    using that inv by (simp add: dns_inv_def pending_ok_entries)
  have mail: "read_xid r = x \<and> (\<exists>buf. EvReply buf u \<in> set evs \<and> r = take 4096 buf)"
    if "ds_tasks s t = Some task" "dt_mail task = Delivered r"
      "dt_phase task \<in> {Sending k u x, Waiting k u x}" for t task r k u x
    using inv_task_ok [OF inv that(1)] that(2,3)
    by (auto simp: task_ok_def received_def RECV_BUF_SIZE_def)
  have "hm_len (ds_pending s) \<le> 4096"
    using inv by (simp add: dns_inv_def pending_ok_def MAX_PENDING_QUERIES_def)
  moreover have "x = y" if "hm_get (ds_pending s) x = Some p" "hm_get (ds_pending s) y = Some p'"
      "tx p = tx p'" for x y p p'
    using pend [OF that(1)] pend [OF that(2)] that(3) by (auto simp: entry_ok_def)
  ultimately show ?thesis using mail pend unfolding entry_ok_def by blast
qed

theorem reply_matches_query_witness:
  "read_xid (sample_reply 5 2) = 5 \<and>
     (\<exists>buf. EvReply buf FALLBACK_DNS_SERVER \<in>
        set (EvReply (sample_reply 5 2) FALLBACK_DNS_SERVER # rev (sent_query 0 5 2)) \<and>
        sample_reply 5 2 = take 4096 buf)"
proof -
  have "ds_tasks sample_replied 0 = Some ((sample_waiting 5)\<lparr>dt_mail := Delivered (sample_reply 5 2)\<rparr>)"
    by (simp add: sample_replied_eq)
  moreover have "dt_phase ((sample_waiting 5)\<lparr>dt_mail := Delivered (sample_reply 5 2)\<rparr>) \<in>
      {Sending ''b:A:IN'' FALLBACK_DNS_SERVER 5, Waiting ''b:A:IN'' FALLBACK_DNS_SERVER 5}"
    by (simp add: sample_waiting_def)
  moreover have "dt_mail ((sample_waiting 5)\<lparr>dt_mail := Delivered (sample_reply 5 2)\<rparr>) =
      Delivered (sample_reply 5 2)" by simp
  ultimately show ?thesis
    using reply_matches_query [OF sample_replied_run] by blast
qed



section \<open>Two ways to lose a reply\<close>

text \<open>A spoofed datagram cancels the query it guesses: the registry entry is removed before
  the sender's address is checked, so one datagram with the transaction id of a pending query
  from any other address closes that query's channel; the genuine reply that arrives later
  finds no entry and changes nothing, and the waiting task ends without an answer.\<close>

theorem spoofed_datagram_cancels_query:
  assumes "dns_run parse evs s" and "hm_get (ds_pending s) x = Some p"
    and "ds_tasks s (tx p) = Some task" and "dt_phase task = Waiting k u x"
    and "12 \<le> length spoof" and "read_xid spoof = x" and "length spoof \<le> 4096"
    and "from_ip \<noteq> upstream_ip p"
    and "12 \<le> length reply" and "read_xid reply = x" and "length reply \<le> 4096"
  shows "let s1 = snd (dns_step parse (EvReply spoof from_ip) s);
             s2 = snd (dns_step parse (EvReply reply (upstream_ip p)) s1);
             (outs, s3) = dns_step parse (EvWake (tx p) now) s2
         in s2 = s1 \<and> outs = [] \<and>
            (\<exists>task'. ds_tasks s3 (tx p) = Some task' \<and> dt_phase task' = Failed x)"
proof -
  have hm: "hm_ok (ds_pending s)"
    using dns_run_inv [OF assms(1)] by (simp add: dns_inv_def pending_ok_def)
  define s1 where "s1 = set_task (tx p) (Some (task\<lparr>dt_mail := Closed\<rparr>))
      (s\<lparr>ds_pending := hm_remove x (ds_pending s)\<rparr>)"
  have gone: "hm_get (hm_remove x (ds_pending s)) x = None" using hm by (simp add: hm.get_remove)
  have again: "hm_remove x (hm_remove x (ds_pending s)) = hm_remove x (ds_pending s)"
    by (simp add: hm_remove_def delete_idem)
  have first: "snd (dns_step parse (EvReply spoof from_ip) s) = s1"
    using assms(2,3,5-8)
    by (simp add: dns_step_def reply_step_def upstream_reply_def Let_def RECV_BUF_SIZE_def
        DNS_HEADER_SIZE_def s1_def)
  have second: "snd (dns_step parse (EvReply reply (upstream_ip p)) s1) = s1"
    using assms(9-11) gone
    by (simp add: dns_step_def reply_step_def upstream_reply_def Let_def RECV_BUF_SIZE_def
        DNS_HEADER_SIZE_def s1_def again set_task_def)
  have "dns_step parse (EvWake (tx p) now) s1 =
      ([], set_phase (tx p) (task\<lparr>dt_mail := Closed\<rparr>) (Failed x) s1)"
    using assms(4) by (simp add: dns_step_def task_step_def wake_step_def s1_def)
  then show ?thesis by (simp add: Let_def first second set_phase_def)
qed

theorem spoofed_datagram_cancels_query_witness:
  "let s1 = snd (dns_step sample_parse (EvReply (sample_reply 5 9) 1) sample_sent);
       s2 = snd (dns_step sample_parse (EvReply (sample_reply 5 2) FALLBACK_DNS_SERVER) s1);
       (outs, s3) = dns_step sample_parse (EvWake 0 9) s2
   in s2 = s1 \<and> outs = [] \<and> (\<exists>task'. ds_tasks s3 0 = Some task' \<and> dt_phase task' = Failed 5)"
proof -
  have s: "hm_get (ds_pending sample_sent) 5 = Some \<lparr>tx = 0, upstream_ip = FALLBACK_DNS_SERVER\<rparr>"
    "ds_tasks sample_sent 0 = Some (sample_waiting 5)"
    by (simp_all add: sample_sent_def sent_query_exec hm_get_def)
  have len: "12 \<le> length (sample_reply 5 q)" "length (sample_reply 5 q) \<le> 4096"
    "read_xid (sample_reply 5 q) = 5" for q
    by (simp_all add: sample_reply_def u16_from_be_bytes_def)
  show ?thesis
    using spoofed_datagram_cancels_query [OF sample_sent_run s(1), of "sample_waiting 5" "''b:A:IN''"
        FALLBACK_DNS_SERVER "sample_reply 5 9" 1 "sample_reply 5 2" 9] s(2) len
    by (simp add: sample_waiting_def FALLBACK_DNS_SERVER_def ipv4_new_def)
qed

text \<open>A late clean-up can remove another query's entry: a query that timed out removes its
  transaction id after the receiver has already freed it, and if a second query has drawn the
  same id in between, its entry goes: there is a run after which that query is still waiting,
  the registry is empty, and no datagram whatever can reach it any more.\<close>

theorem late_cleanup_removes_other_query:
  "\<exists>evs s. dns_run sample_parse evs s \<and> ds_tasks s 1 = Some (sample_waiting 5)
     \<and> EvTimeout 1 \<notin> set evs \<and> EvRemove 1 \<notin> set evs
     \<and> (\<forall>d ip. dns_step sample_parse (EvReply d ip) s = ([], s))"
proof -
  define evs where "evs = sent_query 0 5 2 @ [EvTimeout 0, EvReply (sample_reply 5 2) FALLBACK_DNS_SERVER] @
    sent_query 1 5 2 @ [EvRemove 0]"
  define s where "s = dns_exec sample_parse evs dns_start"
  have run: "dns_run sample_parse (rev evs) s"
    using dns_run_exec [OF dns_run.start, of sample_parse evs] by (simp add: s_def)
  have split: "s = dns_exec sample_parse ([EvTimeout 0, EvReply (sample_reply 5 2) FALLBACK_DNS_SERVER] @
      sent_query 1 5 2 @ [EvRemove 0]) (dns_exec sample_parse (sent_query 0 5 2) dns_start)"
    unfolding s_def evs_def by (simp add: dns_exec_def)
  have pend: "ds_pending s = []" and task: "ds_tasks s 1 = Some (sample_waiting 5)"
    unfolding split sent_query_exec
    by (simp_all add: sent_query_def sample_waiting_def dns_exec_simps)
  have "dns_step sample_parse (EvReply d ip) s = ([], s)" for d ip
    using pend
    by (simp add: dns_step_def reply_step_def upstream_reply_def Let_def hm_get_def hm_remove_def)
  moreover have "EvTimeout 1 \<notin> set (rev evs)" "EvRemove 1 \<notin> set (rev evs)"
    by (simp_all add: evs_def sent_query_def)
  ultimately show ?thesis using run task by blast
qed

end
