(* ===== verification/Dns_Liveness.thy ===== *)
theory Dns_Liveness
  imports Dns_Tasks Machines
begin

text \<open>
  Progress of the DNS forwarder. A query task has at most six pieces left, one per phase, and no
  event of another task, of the receiver, of the cleanup or of the DHCP client adds to them; so
  the forwarder is a \<open>finishing_machine\<close> for each of its tasks and a \<open>progress_machine\<close> for all
  of them together.
\<close>

section \<open>What is left of a task\<close>

fun phase_rank :: "task_phase \<Rightarrow> nat" where
  "phase_rank Arrived = 6"
| "phase_rank (Missed _) = 5"
| "phase_rank (Resolved _ _) = 4"
| "phase_rank (Sending _ _ _) = 3"
| "phase_rank (Waiting _ _ _) = 2"
| "phase_rank (Failed _) = 1"

definition task_rank :: "task_id \<Rightarrow> dns_state \<Rightarrow> nat" where
  "task_rank t s = (case ds_tasks s t of None \<Rightarrow> 0 | Some task \<Rightarrow> phase_rank (dt_phase task))"

text \<open>
  The next piece of task \<open>t\<close>: the event its phase waits for. A registration counts once a draw
  is an id not in use (or the registry is full), and the wait ends by the time-out if the
  channel is still empty, by the channel otherwise.
\<close>

definition task_moves :: "task_id \<Rightarrow> dns_state \<Rightarrow> dns_event \<Rightarrow> bool" where
  "task_moves t s ev =
     (case ds_tasks s t of
        None \<Rightarrow> False
      | Some task \<Rightarrow>
          event_task ev = Some t \<and>
          (case (dt_phase task, ev) of
             (Arrived, EvLookup _ _) \<Rightarrow> True
           | (Missed _, EvUpstream _) \<Rightarrow> True
           | (Resolved _ up, EvRegister _ draws) \<Rightarrow>
               register_query t up draws (ds_pending s) \<noteq> StillDrawing
           | (Sending _ _ _, EvSent _ _) \<Rightarrow> True
           | (Waiting _ _ _, EvTimeout _) \<Rightarrow> dt_mail task = Empty
           | (Waiting _ _ _, EvWake _ _) \<Rightarrow> dt_mail task \<noteq> Empty
           | (Failed _, EvRemove _) \<Rightarrow> True
           | _ \<Rightarrow> False))"

lemma phase_rank_pos [simp]: "0 < phase_rank ph" by (cases ph) simp_all

lemma task_rank_zero [simp]: "task_rank t s = 0 \<longleftrightarrow> ds_tasks s t = None"
  by (simp add: task_rank_def split: option.split)

lemma task_rank_upd [simp]:
  "task_rank t (set_task u v s) =
     (if t = u then (case v of None \<Rightarrow> 0 | Some task \<Rightarrow> phase_rank (dt_phase task)) else task_rank t s)"
  "task_rank t (set_phase u task ph s) = (if t = u then phase_rank ph else task_rank t s)"
  by (simp_all add: task_rank_def set_phase_def)

lemma task_rank_frame [simp]:
  "task_rank t (s\<lparr>ds_cache := c\<rparr>) = task_rank t s" "task_rank t (s\<lparr>ds_pending := p\<rparr>) = task_rank t s"
  "task_rank t (s\<lparr>ds_lease := l\<rparr>) = task_rank t s"
  by (simp_all add: task_rank_def)

lemma own_rank: "ds_tasks s t = Some task \<Longrightarrow> task_rank t s = phase_rank (dt_phase task)"
  by (simp add: task_rank_def)

lemma phase_rank_bound: "phase_rank ph \<le> 6"
  by (cases ph) simp_all

section \<open>Steps and rank\<close>

lemma lookup_step_rank:
  "dt_phase task = Arrived \<Longrightarrow> ds_tasks s t = Some task \<Longrightarrow>
     task_rank u (snd (lookup_step parse t task now s)) =
       (if u = t then task_rank t (snd (lookup_step parse t task now s)) else task_rank u s)
   \<and> task_rank t (snd (lookup_step parse t task now s)) < task_rank t s"
  by (auto simp: lookup_step_def Let_def own_rank split: option.split prod.split sum.split)

lemma register_step_rank:
  "dt_phase task = Resolved k up \<Longrightarrow> ds_tasks s t = Some task \<Longrightarrow>
     (u \<noteq> t \<longrightarrow> task_rank u (snd (register_step t task k up draws s)) = task_rank u s)
   \<and> task_rank t (snd (register_step t task k up draws s)) \<le> task_rank t s
   \<and> (register_query t up draws (ds_pending s) \<noteq> StillDrawing \<longrightarrow>
        task_rank t (snd (register_step t task k up draws s)) < task_rank t s)"
  by (auto simp: register_step_def own_rank split: registration.split sum.split)

lemma wake_step_rank:
  "dt_phase task = Waiting k up x \<Longrightarrow> ds_tasks s t = Some task \<Longrightarrow>
     (u \<noteq> t \<longrightarrow> task_rank u (snd (wake_step parse t task k x now s)) = task_rank u s)
   \<and> task_rank t (snd (wake_step parse t task k x now s)) \<le> task_rank t s
   \<and> (dt_mail task \<noteq> Empty \<longrightarrow>
        task_rank t (snd (wake_step parse t task k x now s)) < task_rank t s)"
  by (auto simp: wake_step_def own_rank split: mailbox.split sum.split option.split)

lemma reply_step_rank: "task_rank u (snd (reply_step buf from_ip s)) = task_rank u s"
  by (auto simp: reply_step_def Let_def own_rank split: prod.split option.split)

text \<open>An event of one task leaves the others, and moves its own task on or leaves it.\<close>

lemma task_step_rank:
  assumes t: "ds_tasks s t = Some task" and ev: "event_task ev = Some t"
  shows "(u \<noteq> t \<longrightarrow> task_rank u (snd (task_step parse ev t task s)) = task_rank u s)
    \<and> task_rank t (snd (task_step parse ev t task s)) \<le> task_rank t s
    \<and> (task_moves t s ev \<longrightarrow> task_rank t (snd (task_step parse ev t task s)) < task_rank t s)"
proof (cases "dt_phase task")
  case Arrived
  with t ev lookup_step_rank [OF Arrived t, of u parse] show ?thesis
    by (cases ev) (auto simp: task_step_def task_moves_def less_imp_le split: if_splits)
next
  case (Missed k)
  with t ev show ?thesis by (cases ev) (auto simp: task_step_def task_moves_def own_rank)
next
  case (Resolved k up)
  with t ev register_step_rank [OF Resolved t, of u] show ?thesis
    by (cases ev) (auto simp: task_step_def task_moves_def)
next
  case (Sending k up x)
  with t ev show ?thesis by (cases ev) (auto simp: task_step_def task_moves_def own_rank)
next
  case (Waiting k up x)
  with t ev wake_step_rank [OF Waiting t, of u parse] show ?thesis
    by (cases ev) (auto simp: task_step_def task_moves_def own_rank split: mailbox.split)
next
  case (Failed x)
  with t ev show ?thesis by (cases ev) (auto simp: task_step_def task_moves_def own_rank)
qed

lemma dns_step_rank_le:
  "t < ds_next s \<or> (\<forall>buf src. ev \<noteq> EvQuery buf src) \<Longrightarrow>
     task_rank t (snd (dns_step parse ev s)) \<le> task_rank t s"
proof (cases "event_task ev")
  case None
  then show "t < ds_next s \<or> (\<forall>buf src. ev \<noteq> EvQuery buf src) \<Longrightarrow> ?thesis"
    by (cases ev) (auto simp: dns_step_def reply_step_rank, auto simp: task_rank_def)
next
  case (Some u)
  show ?thesis
  proof (cases "ds_tasks s u")
    case None
    with Some show ?thesis by (simp add: dns_step_def)
  next
    case (Some task)
    from task_step_rank [OF Some \<open>event_task ev = Some u\<close>, of t parse] Some \<open>event_task ev = Some u\<close>
    show ?thesis by (cases "t = u") (auto simp: dns_step_def)
  qed
qed

lemma task_moves_task: "task_moves t s ev \<Longrightarrow> event_task ev = Some t \<and> ds_tasks s t \<noteq> None"
  by (auto simp: task_moves_def split: option.splits)

lemma dns_step_rank_less:
  assumes "task_moves t s ev"
  shows "task_rank t (snd (dns_step parse ev s)) < task_rank t s"
proof -
  obtain task where t: "ds_tasks s t = Some task" and ev: "event_task ev = Some t"
    using task_moves_task [OF assms] by blast
  then show ?thesis
    using task_step_rank [OF t ev, of t parse] assms by (simp add: dns_step_def)
qed

lemma dns_step_next: "ds_next s \<le> ds_next (snd (dns_step parse ev s))"
  by (cases ev) (auto simp: dns_step_def task_step_def lookup_step_def register_step_def wake_step_def
      reply_step_def set_phase_def Let_def split: option.split task_phase.split prod.split sum.split
      registration.split mailbox.split)

section \<open>The forwarder as a machine of the two kinds\<close>

definition forwarder_inv :: "dns_parser \<Rightarrow> dns_state \<Rightarrow> bool" where
  "forwarder_inv parse s \<longleftrightarrow> (\<exists>E. dns_inv parse E s)"

lemma forwarder_inv_step: "forwarder_inv parse s \<Longrightarrow> forwarder_inv parse (snd (dns_step parse ev s))"
  unfolding forwarder_inv_def
  by (metis dns_inv_mono dns_step_ok insertI1 step_ok_def subset_insertI)

lemma forwarder_inv_run: "dns_run parse evs s \<Longrightarrow> forwarder_inv parse s"
  unfolding forwarder_inv_def by (blast dest: dns_run_inv)

interpretation one_task: finishing_machine "dns_step parse" "\<lambda>s. forwarder_inv parse s \<and> t < ds_next s"
    "task_rank t" "\<lambda>s ev. True" "task_moves t" for parse t
proof unfold_locales
  fix s ev
  assume inv: "forwarder_inv parse s \<and> t < ds_next s"
  then show "forwarder_inv parse (snd (dns_step parse ev s)) \<and> t < ds_next (snd (dns_step parse ev s))"
    using forwarder_inv_step dns_step_next less_le_trans by blast
  show "task_rank t (snd (dns_step parse ev s)) \<le> task_rank t s"
    using inv by (simp add: dns_step_rank_le)
  then show "task_rank t s = 0 \<Longrightarrow> task_rank t (snd (dns_step parse ev s)) = 0"
    by (simp del: task_rank_zero)
  show "task_moves t s ev \<Longrightarrow> task_rank t (snd (dns_step parse ev s)) < task_rank t s"
    by (rule dns_step_rank_less)
qed

text \<open>All the tasks together, as long as no new query comes.\<close>

definition forwarder_rank :: "dns_state \<Rightarrow> nat" where
  "forwarder_rank s = (\<Sum>t < ds_next s. task_rank t s)"

definition is_query :: "dns_event \<Rightarrow> bool" where
  "is_query ev = (case ev of EvQuery _ _ \<Rightarrow> True | _ \<Rightarrow> False)"

lemma forwarder_inv_tasks: "forwarder_inv parse s \<Longrightarrow> ds_tasks s t = Some task \<Longrightarrow> t < ds_next s"
  by (auto simp: forwarder_inv_def dns_inv_def dest: tasks_okD)

lemma forwarder_rank_zero:
  "forwarder_inv parse s \<Longrightarrow> forwarder_rank s = 0 \<longleftrightarrow> (\<forall>t. ds_tasks s t = None)"
  using forwarder_inv_tasks [of parse s]
  by (simp add: forwarder_rank_def) (meson lessThan_iff not_Some_eq)

lemma forwarder_rank_bound: "forwarder_rank s \<le> 6 * ds_next s"
proof -
  have "task_rank t s \<le> 6" for t by (simp add: task_rank_def phase_rank_bound split: option.split)
  then have "forwarder_rank s \<le> (\<Sum>t < ds_next s. 6)"
    unfolding forwarder_rank_def by (intro sum_mono)
  then show ?thesis by simp
qed

text \<open>Only a query raises the number of the next task.\<close>

lemma dns_step_next_same:
  "\<not> is_query ev \<Longrightarrow> ds_next (snd (dns_step parse ev s)) = ds_next s"
  by (cases ev) (auto simp: is_query_def dns_step_def task_step_def lookup_step_def register_step_def wake_step_def
      reply_step_def set_phase_def Let_def split: option.split task_phase.split prod.split sum.split
      registration.split mailbox.split)

interpretation all_tasks: progress_machine "dns_step parse" "forwarder_inv parse" forwarder_rank
    "\<lambda>s ev. \<not> is_query ev" "\<lambda>s ev. \<exists>t. task_moves t s ev" for parse
proof unfold_locales
  fix s ev
  assume inv: "forwarder_inv parse s"
  then show "forwarder_inv parse (snd (dns_step parse ev s))" by (rule forwarder_inv_step)
  have le: "task_rank t (snd (dns_step parse ev s)) \<le> task_rank t s" if "\<not> is_query ev" for t
    using that by (intro dns_step_rank_le) (auto simp: is_query_def)
  show rank_le: "forwarder_rank (snd (dns_step parse ev s)) \<le> forwarder_rank s" if "\<not> is_query ev"
    unfolding forwarder_rank_def dns_step_next_same [OF that] by (intro sum_mono le that)
  show "forwarder_rank (snd (dns_step parse ev s)) < forwarder_rank s" if "\<exists>t. task_moves t s ev"
  proof -
    from that obtain t where t: "task_moves t s ev" by blast
    then have ev: "\<not> is_query ev" using task_moves_task [OF t] by (cases ev) (auto simp: is_query_def)
    have "t < ds_next s" using task_moves_task [OF t] forwarder_inv_tasks [OF inv] by blast
    then show ?thesis
      unfolding forwarder_rank_def dns_step_next_same [OF ev]
      by (intro sum_strict_mono_ex1 ballI le ev) (use dns_step_rank_less [OF t, of parse] in auto)
  qed
qed

section \<open>Every query ends\<close>

text \<open>A live task always has a next piece, whatever the outside does.\<close>

lemma some_task_moves:
  assumes inv: "forwarder_inv parse s" and t: "ds_tasks s t = Some task"
  shows "\<exists>ev. event_task ev \<noteq> None \<and> task_moves t s ev"
proof (cases "dt_phase task")
  case Arrived
  with t show ?thesis by (intro exI [of _ "EvLookup t 0"]) (simp add: task_moves_def)
next
  case (Missed k)
  with t show ?thesis by (intro exI [of _ "EvUpstream t"]) (simp add: task_moves_def)
next
  case (Resolved k up)
  have "hm_ok (ds_pending s)" using inv by (auto simp: forwarder_inv_def dns_inv_def pending_ok_def)
  then obtain x where "MAX_PENDING_QUERIES \<le> hm_len (ds_pending s) \<or> hm_get (ds_pending s) x = None"
    using free_xid_exists by (meson not_less)
  then have "register_query t up [x] (ds_pending s) \<noteq> StillDrawing"
    by (auto simp: register_query_def)
  with Resolved t show ?thesis by (intro exI [of _ "EvRegister t [x]"]) (simp add: task_moves_def)
next
  case (Sending k up x)
  with t show ?thesis by (intro exI [of _ "EvSent t True"]) (simp add: task_moves_def)
next
  case (Waiting k up x)
  with t show ?thesis
    by (intro exI [of _ "if dt_mail task = Empty then EvTimeout t else EvWake t 0"])
      (simp add: task_moves_def)
next
  case (Failed x)
  with t show ?thesis by (intro exI [of _ "EvRemove t"]) (simp add: task_moves_def)
qed

lemma no_task_no_entry:
  assumes "forwarder_inv parse s" and "ds_tasks s t = None" and "hm_get (ds_pending s) x = Some p"
  shows "tx p \<noteq> t"
  using assms by (fastforce simp: forwarder_inv_def dns_inv_def pending_ok_entries entry_ok_def)

text \<open>C8: Every query task ends and releases its registry entry. In any endless run of the
  forwarder, whatever queries, replies, spoofed datagrams, lease changes and other tasks come in
  between, if the runtime and the timers always give a live task its next piece at some later
  time, the task is gone for good from some point on, and no entry of the registry is its.\<close>

theorem query_tasks_end:
  assumes "dns_run parse old s" and "ds_tasks s t \<noteq> None"
    and "\<forall>n. ds_tasks (trajectory (dns_step parse) evs s n) t \<noteq> None \<longrightarrow>
           (\<exists>m \<ge> n. task_moves t (trajectory (dns_step parse) evs s m) (evs m))"
  shows "\<exists>n. \<forall>m \<ge> n. ds_tasks (trajectory (dns_step parse) evs s m) t = None \<and>
    (\<forall>x p. hm_get (ds_pending (trajectory (dns_step parse) evs s m)) x = Some p \<longrightarrow> tx p \<noteq> t)"
proof -
  have inv: "forwarder_inv parse s \<and> t < ds_next s"
    using assms(1,2) forwarder_inv_run forwarder_inv_tasks by fastforce
  moreover have "one_task.fair parse t evs s"
    using assms(3) unfolding one_task.fair_def by (metis neq0_conv task_rank_zero)
  ultimately obtain n where n: "\<forall>m \<ge> n. task_rank t (trajectory (dns_step parse) evs s m) = 0"
    using one_task.finishes [of parse s t evs] by blast
  have "forwarder_inv parse (trajectory (dns_step parse) evs s m)" for m
    using one_task.inv_trajectory [OF inv] by blast
  with n show ?thesis by (metis no_task_no_entry task_rank_zero)
qed

text \<open>A schedule for the witness: the query of the sample run times out and is removed.\<close>

definition timeout_schedule :: "nat \<Rightarrow> dns_event" where
  "timeout_schedule n = (if n = 0 then EvTimeout 0 else EvRemove 0)"

lemma sample_sent_task: "ds_tasks sample_sent 0 = Some (sample_waiting 5)"
  by (simp add: sample_sent_def sent_query_exec)

lemma timeout_schedule_fair:
  assumes "ds_tasks (trajectory (dns_step sample_parse) timeout_schedule sample_sent n) 0 \<noteq> None"
  shows "task_moves 0 (trajectory (dns_step sample_parse) timeout_schedule sample_sent n)
    (timeout_schedule n)"
proof -
  have one: "trajectory (dns_step sample_parse) timeout_schedule sample_sent 1 =
      set_phase 0 (sample_waiting 5) (Failed 5) sample_sent"
    using sample_sent_task
    by (simp add: timeout_schedule_def dns_step_def task_step_def sample_waiting_def)
  have two: "ds_tasks (trajectory (dns_step sample_parse) timeout_schedule sample_sent 2) 0 = None"
    using one by (simp add: numeral_2_eq_2 timeout_schedule_def dns_step_def task_step_def set_phase_def)
  have "ds_tasks (trajectory (dns_step sample_parse) timeout_schedule sample_sent (2 + k)) 0 = None" for k
    using two
    by (induction k) (simp_all add: timeout_schedule_def dns_step_def)
  with assms have "n < 2" by (metis le_Suc_ex not_less)
  then consider "n = 0" | "n = 1" by linarith
  then show ?thesis
  proof cases
    case 1
    then show ?thesis
      using sample_sent_task by (simp add: task_moves_def timeout_schedule_def sample_waiting_def)
  next
    case 2
    then show ?thesis
      unfolding 2 one by (simp add: task_moves_def timeout_schedule_def set_phase_def)
  qed
qed

theorem query_tasks_end_witness:
  "\<exists>n. ds_tasks (trajectory (dns_step sample_parse) timeout_schedule sample_sent n) 0 = None"
  using query_tasks_end [OF sample_sent_run, of 0 timeout_schedule] timeout_schedule_fair sample_sent_task
  by (metis (no_types, lifting) option.distinct(1) order_refl)

text \<open>C28: The forwarder never wedges: from every reachable state its tasks can finish on their
  own, with no reply, no new query and no help from outside, in at most six pieces for each query
  there has ever been, and then no task is left and the registry is empty.\<close>

theorem forwarder_drains:
  assumes "dns_run parse old s"
  shows "\<exists>evs. length evs \<le> 6 * ds_next s \<and> (\<forall>ev \<in> set evs. event_task ev \<noteq> None) \<and>
    (\<forall>t. ds_tasks (run_events (dns_step parse) evs s) t = None) \<and>
    (\<forall>x. hm_get (ds_pending (run_events (dns_step parse) evs s)) x = None)"
proof -
  have inv: "forwarder_inv parse s" using assms by (rule forwarder_inv_run)
  have "\<exists>ev. event_task ev \<noteq> None \<and> (\<exists>t. task_moves t u ev)"
    if "forwarder_inv parse u" "0 < forwarder_rank u" for u
    using that some_task_moves [OF that(1)] forwarder_rank_zero [OF that(1)] by (metis neq0_conv not_Some_eq)
  from all_tasks.helpful_run [OF inv this] obtain evs where
    evs: "length evs \<le> forwarder_rank s" "\<forall>ev \<in> set evs. event_task ev \<noteq> None"
      "forwarder_rank (run_events (dns_step parse) evs s) = 0" by blast
  have inv': "forwarder_inv parse (run_events (dns_step parse) evs s)"
    using inv by (rule all_tasks.inv_run)
  then have none: "\<forall>t. ds_tasks (run_events (dns_step parse) evs s) t = None"
    using evs(3) forwarder_rank_zero by blast
  moreover have "hm_get (ds_pending (run_events (dns_step parse) evs s)) x = None" for x
    using no_task_no_entry [OF inv'] none by (metis not_Some_eq)
  moreover have "length evs \<le> 6 * ds_next s" using evs(1) forwarder_rank_bound [of s] by linarith
  ultimately show ?thesis using evs(2) by blast
qed

theorem forwarder_drains_witness:
  "\<exists>evs. length evs \<le> 6 \<and> (\<forall>t. ds_tasks (run_events (dns_step sample_parse) evs sample_sent) t = None)"
proof -
  have "ds_next sample_sent = 1" by (simp add: sample_sent_def sent_query_exec)
  with forwarder_drains [OF sample_sent_run] show ?thesis by auto
qed

end
