(* ===== verification/Dhcp_Client.thy ===== *)
theory Dhcp_Client
  imports Complex_Main Reference_Libs
begin

text \<open>
  The functions of the WAN DHCP client, \<open>src/services/dhcp_client.rs\<close>: its timers, the
  conversion of subnet masks, the messages it builds and parses, and the loops that wait for
  replies. \<open>DhcpClient::run\<close> and what it does to the interface is \<open>Dhcp_Client_Run\<close>.
\<close>

section \<open>Constants, errors and results\<close>

definition DEFAULT_LEASE_SECS :: u32 where "DEFAULT_LEASE_SECS = 3600"
definition MAX_RETRY_DELAY_SECS :: u32 where "MAX_RETRY_DELAY_SECS = 64"
definition INITIAL_RETRY_DELAY_SECS :: u32 where "INITIAL_RETRY_DELAY_SECS = 4"
definition DEFAULT_SUBNET_MASK :: ipv4 where "DEFAULT_SUBNET_MASK = ipv4_new 255 255 255 0"
definition SOCKET_RESTART_DELAY_SECS :: nat where "SOCKET_RESTART_DELAY_SECS = 5"

text \<open>\<open>DhcpError\<close>; the texts of protocol errors are told apart by constructor.\<close>

datatype protocol_error =
    InvalidMask ipv4 | LeaseExpired | LeaseExpiredDuringRenewal | EncodeError string

datatype dhcp_error =
    Io string
  | Protocol protocol_error
  | NakReceived
  | InterfaceNotFound string
  | RtNetlink string

record dhcp_offer =
  offered_ip :: ipv4
  offer_server_ip :: "ipv4 option"

record dhcp_ack =
  ack_ip :: ipv4
  ack_mask :: ipv4
  ack_gateway :: "ipv4 option"
  ack_server_ip :: "ipv4 option"
  ack_lease_secs :: u32
  ack_dns_servers :: "ipv4 list"

record lease_options =
  lo_mask :: ipv4
  lo_gateway :: "ipv4 option"
  lo_dns_servers :: "ipv4 list"
  lo_lease_secs :: u32

datatype parse_ack_result = AckResult dhcp_ack | NakResult | NoResult

section \<open>Timers\<close>

text \<open>\<open>u32\<close> arithmetic: the doubling wraps modulo \<open>2 ^ 32\<close>, as in a release build.\<close>

definition calculate_next_delay :: "u32 \<Rightarrow> u32" where
  "calculate_next_delay current_delay =
     (let doubled = current_delay * 2
      in if doubled > MAX_RETRY_DELAY_SECS then MAX_RETRY_DELAY_SECS else doubled)"

text \<open>
  \<open>r\<close> is the random number, \<open>0 \<le> r < 1\<close>. The \<open>f64\<close> sum is computed as a rational (its
  rounding error is far below a nanosecond) and converted to the nearest nanosecond, as
  \<open>from_secs_f64\<close> does.
\<close>

definition get_jittered_duration :: "rat \<Rightarrow> u32 \<Rightarrow> duration" where
  "get_jittered_duration r base_secs =
     (let jitter = r * 2 - 1;
          secs = of_nat (unat base_secs) + jitter
      in max (from_secs 1) (nat (round (secs * 1000000000))))"

text \<open>\<open>(now - since).as_secs() as u32\<close>: the cast keeps the low 32 bits.\<close>

definition elapsed_secs :: "instant \<Rightarrow> instant \<Rightarrow> u32" where
  "elapsed_secs now since = of_nat (as_secs (now - since))"

definition t1_secs :: "u32 \<Rightarrow> u32" where
  "t1_secs lease_secs = lease_secs div 2"

text \<open>
  \<open>(lease_secs as f64 * 0.875) as u32\<close>: 0.875 is exactly 7/8 and the product needs at most
  35 bits, so the \<open>f64\<close> value is exact and the cast rounds it down.
\<close>

definition t2_secs :: "u32 \<Rightarrow> u32" where
  "t2_secs lease_secs = of_int \<lfloor>(of_nat (unat lease_secs) :: rat) * (7 / 8)\<rfloor>"

definition saturating_sub :: "u32 \<Rightarrow> u32 \<Rightarrow> u32" where
  "saturating_sub a b = (if b \<le> a then a - b else 0)"

definition calculate_renewal_params ::
  "u32 \<Rightarrow> u32 \<Rightarrow> u32 \<Rightarrow> ipv4 option \<Rightarrow> u32 \<times> ipv4 \<times> bool" where
  "calculate_renewal_params current_elapsed t2 lease_secs server_ip =
     (let in_rebinding = current_elapsed \<ge> t2;
          (retry_interval, dest_ip) =
            (if in_rebinding
             then (let remaining = saturating_sub lease_secs current_elapsed
                   in (max (remaining div 2) 60, ipv4_broadcast))
             else (let remaining = saturating_sub t2 current_elapsed
                   in (max (remaining div 2) 60,
                       case server_ip of Some a \<Rightarrow> a | None \<Rightarrow> ipv4_broadcast)))
      in (retry_interval, dest_ip, in_rebinding))"

section \<open>Subnet masks\<close>

definition leading_ones :: "u32 \<Rightarrow> nat" where
  "leading_ones w = length (takeWhile (bit w) (rev [0..<32]))"

definition trailing_zeros :: "u32 \<Rightarrow> nat" where
  "trailing_zeros w = length (takeWhile (\<lambda>i. \<not> bit w i) [0..<32])"

definition mask_to_prefix_len :: "ipv4 \<Rightarrow> dhcp_error + nat" where
  "mask_to_prefix_len m =
     (if leading_ones m + trailing_zeros m \<noteq> 32 then Inl (Protocol (InvalidMask m))
      else Inr (leading_ones m))"

section \<open>Parsing replies\<close>

definition get_server_identifier :: "dhcp_message \<Rightarrow> ipv4 option" where
  "get_server_identifier dhcp = (case opts_get dhcp ServerIdentifierCode of
     Some (ServerIdentifier a) \<Rightarrow> Some a
   | _ \<Rightarrow> None)"

definition parse_lease_options :: "dhcp_message \<Rightarrow> lease_options" where
  "parse_lease_options dhcp =
     \<lparr>lo_mask = (case opts_get dhcp SubnetMaskCode of
                   Some (SubnetMask m) \<Rightarrow> m | _ \<Rightarrow> DEFAULT_SUBNET_MASK),
      lo_gateway = (case opts_get dhcp RouterCode of
                      Some (Router routers) \<Rightarrow>
                        (case routers of [] \<Rightarrow> None | r # _ \<Rightarrow> Some r)
                    | _ \<Rightarrow> None),
      lo_dns_servers = (case opts_get dhcp DomainNameServerCode of
                          Some (DomainNameServer servers) \<Rightarrow> servers | _ \<Rightarrow> []),
      lo_lease_secs = (case opts_get dhcp AddressLeaseTimeCode of
                         Some (AddressLeaseTime t) \<Rightarrow> t | _ \<Rightarrow> DEFAULT_LEASE_SECS)\<rparr>"

definition parse_offer :: "dhcproto \<Rightarrow> bytes \<Rightarrow> u32 \<Rightarrow> dhcp_offer option" where
  "parse_offer dp buf xid =
     (case message_decode dp buf of
        None \<Rightarrow> None
      | Some dhcp \<Rightarrow>
          if msg_xid dhcp \<noteq> xid then None
          else if message_type_of dhcp = Some Offer
          then Some \<lparr>offered_ip = msg_yiaddr dhcp, offer_server_ip = get_server_identifier dhcp\<rparr>
          else None)"

definition parse_ack_nak :: "dhcproto \<Rightarrow> bytes \<Rightarrow> u32 \<Rightarrow> parse_ack_result" where
  "parse_ack_nak dp buf xid =
     (case message_decode dp buf of
        None \<Rightarrow> NoResult
      | Some dhcp \<Rightarrow>
          if msg_xid dhcp \<noteq> xid then NoResult
          else (case message_type_of dhcp of
                  Some Ack \<Rightarrow>
                    (let opts = parse_lease_options dhcp
                     in AckResult \<lparr>ack_ip = msg_yiaddr dhcp, ack_mask = lo_mask opts,
                          ack_gateway = lo_gateway opts,
                          ack_server_ip = get_server_identifier dhcp,
                          ack_lease_secs = lo_lease_secs opts,
                          ack_dns_servers = lo_dns_servers opts\<rparr>)
                | Some Nak \<Rightarrow> NakResult
                | _ \<Rightarrow> NoResult))"

section \<open>Messages sent\<close>

definition discover_message :: "dhcproto \<Rightarrow> mac \<Rightarrow> u32 \<Rightarrow> dhcp_message" where
  "discover_message dp m xid =
     (let discover = message_default dp;
          discover = discover\<lparr>msg_opcode := BootRequest\<rparr>;
          discover = discover\<lparr>msg_xid := xid\<rparr>;
          discover = discover\<lparr>msg_broadcast := True\<rparr>;
          discover = set_chaddr dp (mac_octets m) discover;
          discover = opts_insert (MessageType Discover) discover
      in opts_insert (ParameterRequestList [SubnetMaskCode, RouterCode, DomainNameServerCode])
           discover)"

definition request_message ::
  "dhcproto \<Rightarrow> mac \<Rightarrow> u32 \<Rightarrow> ipv4 \<Rightarrow> ipv4 option \<Rightarrow> ipv4 \<Rightarrow> dhcp_message" where
  "request_message dp m xid requested_ip server_ip ciaddr =
     (let request = message_default dp;
          request = request\<lparr>msg_opcode := BootRequest\<rparr>;
          request = request\<lparr>msg_xid := xid\<rparr>;
          request = request\<lparr>msg_ciaddr := ciaddr\<rparr>;
          request = set_chaddr dp (mac_octets m) request;
          request =
            (if ciaddr = ipv4_unspecified
             then (let request = request\<lparr>msg_broadcast := True\<rparr>;
                       request = opts_insert (RequestedIpAddress requested_ip) request
                   in case server_ip of
                        Some srv \<Rightarrow> opts_insert (ServerIdentifier srv) request
                      | None \<Rightarrow> request)
             else request)
      in opts_insert (MessageType Request) request)"

text \<open>
  \<open>send_dhcp_message\<close>: the datagram handed to the socket, if the message encodes, and the
  result, given the socket's. Both callers only log the result.
\<close>

definition send_dhcp_message ::
  "dhcproto \<Rightarrow> dhcp_message \<Rightarrow> ipv4 \<Rightarrow> string option \<Rightarrow>
     (bytes \<times> ipv4 \<times> u16) option \<times> (dhcp_error + unit)" where
  "send_dhcp_message dp d dest_ip socket_error =
     (case message_encode dp d of
        Inl e \<Rightarrow> (None, Inl (Protocol (EncodeError e)))
      | Inr payload \<Rightarrow>
          (Some (payload, dest_ip, 67),
           case socket_error of None \<Rightarrow> Inr () | Some e \<Rightarrow> Inl (Io e)))"

section \<open>Waiting for replies\<close>

text \<open>
  One turn of a wait loop: the two readings of \<open>start.elapsed()\<close> and what the receive with
  the remaining time gave.
\<close>

datatype recv_result = TimedOut | RecvError string | Datagram bytes

record wait_turn =
  wt_elapsed :: duration
  wt_elapsed2 :: duration
  wt_recv :: recv_result

text \<open>
  The loop shared by \<open>wait_for_offer\<close> and \<open>wait_for_ack\<close>, over the turns it takes; \<open>None\<close>
  is a wait that is not over. A datagram is truncated to the 2048 bytes of the buffer.
\<close>

fun wait_loop :: "(bytes \<Rightarrow> 'r option) \<Rightarrow> duration \<Rightarrow> wait_turn list \<Rightarrow>
    (dhcp_error + 'r option) option" where
  "wait_loop parse timeout [] = None"
| "wait_loop parse timeout (w # ws) =
     (if \<not> wt_elapsed w < timeout then Some (Inr None)
      else if timeout - wt_elapsed2 w = 0 then Some (Inr None)
      else (case wt_recv w of
              TimedOut \<Rightarrow> Some (Inr None)
            | RecvError e \<Rightarrow> Some (Inl (Io e))
            | Datagram buf \<Rightarrow>
                (case parse (take 2048 buf) of
                   Some r \<Rightarrow> Some (Inr (Some r))
                 | None \<Rightarrow> wait_loop parse timeout ws)))"

definition wait_for_offer :: "dhcproto \<Rightarrow> u32 \<Rightarrow> duration \<Rightarrow> wait_turn list \<Rightarrow>
    (dhcp_error + dhcp_offer option) option" where
  "wait_for_offer dp xid = wait_loop (\<lambda>buf. parse_offer dp buf xid)"

definition wait_for_ack :: "dhcproto \<Rightarrow> u32 \<Rightarrow> duration \<Rightarrow> wait_turn list \<Rightarrow>
    (dhcp_error + parse_ack_result option) option" where
  "wait_for_ack dp xid = wait_loop (\<lambda>buf.
     let res = parse_ack_nak dp buf xid in if res \<noteq> NoResult then Some res else None)"

section \<open>Masks and prefixes\<close>

definition prefix_mask :: "nat \<Rightarrow> ipv4" where
  "prefix_mask n = push_bit (32 - n) (mask n)"

lemma bit_prefix_mask: "n \<le> 32 \<Longrightarrow> bit (prefix_mask n) i \<longleftrightarrow> 32 - n \<le> i \<and> i < 32"
  by (auto simp: prefix_mask_def bit_simps)

lemma leading_ones_prefix: "n \<le> 32 \<Longrightarrow> leading_ones (prefix_mask n) = n"
  unfolding leading_ones_def
  by (rule length_takeWhile_eqI) (auto simp: rev_nth bit_prefix_mask)

lemma trailing_zeros_prefix: "n \<le> 32 \<Longrightarrow> trailing_zeros (prefix_mask n) = 32 - n"
  unfolding trailing_zeros_def
  by (rule length_takeWhile_eqI) (auto simp: bit_prefix_mask)

lemma leading_ones_bit: "i < leading_ones m \<Longrightarrow> bit m (31 - i)"
  using nth_takeWhile_holds [of i "bit m" "rev [0..<32]"] length_takeWhile_le [of "bit m" "rev [0..<32]"]
  by (simp add: leading_ones_def rev_nth)

lemma trailing_zeros_bit: "i < trailing_zeros m \<Longrightarrow> \<not> bit m i"
  using nth_takeWhile_holds [of i "\<lambda>i. \<not> bit m i" "[0..<32]"]
    length_takeWhile_le [of "\<lambda>i. \<not> bit m i" "[0..<32]"]
  by (simp add: trailing_zeros_def)

lemma contiguous_is_prefix:
  assumes "leading_ones m + trailing_zeros m = 32"
  shows "m = prefix_mask (leading_ones m)"
proof (rule bit_word_eqI)
  fix i
  assume "i < LENGTH(32)"
  then have i: "i < 32" by simp
  show "bit m i \<longleftrightarrow> bit (prefix_mask (leading_ones m)) i"
  proof (cases "i < trailing_zeros m")
    case True
    then show ?thesis using assms trailing_zeros_bit [of i m] by (simp add: bit_prefix_mask)
  next
    case False
    then have "31 - i < leading_ones m" using assms i by linarith
    then have "bit m i" using leading_ones_bit [of "31 - i" m] i by simp
    then show ?thesis using False assms i by (simp add: bit_prefix_mask)
  qed
qed

text \<open>A subnet mask converts to prefix length n exactly when it is the mask of n leading
  ones, for the 33 lengths 0 to 32, and any other mask is reported as the invalid mask it is:
  the arithmetic test on leading ones and trailing zeros accepts the contiguous masks and no
  other.\<close>

theorem mask_to_prefix_len_exact:
  "(mask_to_prefix_len m = Inr n \<longleftrightarrow> n \<le> 32 \<and> m = prefix_mask n)
   \<and> (mask_to_prefix_len m = Inl e \<longleftrightarrow>
        e = Protocol (InvalidMask m) \<and> m \<notin> prefix_mask ` {..32})"
proof -
  have le: "leading_ones m \<le> 32" for m
    unfolding leading_ones_def by (metis length_rev length_takeWhile_le length_upt diff_zero)
  show ?thesis
    using contiguous_is_prefix [of m] le [of m] leading_ones_prefix trailing_zeros_prefix
    by (auto simp: mask_to_prefix_len_def image_iff)
qed

section \<open>Renewal times\<close>

lemma t2_exact: "unat (t2_secs l) = 7 * unat l div 8"
proof -
  have "\<lfloor>(of_nat (unat l) :: rat) * (7 / 8)\<rfloor> = \<lfloor>(of_int (int (7 * unat l)) :: rat) / of_int (int 8)\<rfloor>"
    by (simp add: mult.commute)
  also have "\<dots> = int (7 * unat l div 8)"
    by (simp only: floor_divide_of_int_eq zdiv_int)
  finally have "t2_secs l = of_nat (7 * unat l div 8)"
    by (simp add: t2_secs_def)
  moreover have "7 * unat l div 8 < 2 ^ 32"
    using unsigned_less [of l, where ?'a = nat] by simp
  ultimately show ?thesis by (simp add: unsigned_of_nat take_bit_nat_eq_self)
qed

lemma t1_exact: "unat (t1_secs l) = unat l div 2"
  by (simp add: t1_secs_def unat_div)

lemma saturating_sub_unat: "unat (saturating_sub a b) = unat a - unat b"
  by (auto simp: saturating_sub_def word_le_nat_alt unat_sub)

lemma half_interval_unat:
  "unat (max (saturating_sub a b div 2) 60) = max 60 ((unat a - unat b) div 2)"
proof -
  have "unat (saturating_sub a b div 2) = (unat a - unat b) div 2"
    by (simp add: unat_div saturating_sub_unat)
  moreover have "unat (max x (60 :: u32)) = max 60 (unat x)" for x
    by (auto simp: max_def word_le_nat_alt)
  ultimately show ?thesis by simp
qed

text \<open>C33: The renewal parameters at any moment of a running lease: T2 is seven eighths of the
  lease time and T1 half of it, without overflow for any 32-bit lease time, and T1 precedes T2
  precedes expiry; the client addresses its own server before T2 and broadcasts from T2 on; it
  retries after half of what remains to T2 (to expiry when rebinding) but not sooner than 60
  seconds (RFC 2131 4.4.5).\<close>

theorem renewal_params_follow_rfc:
  fixes lease :: u32 and cur :: u32
  defines "T1 \<equiv> unat (t1_secs lease)" and "T2 \<equiv> unat (t2_secs lease)"
  assumes "calculate_renewal_params cur (t2_secs lease) lease server = (interval, dest, rebinding)"
  shows "T1 = unat lease div 2 \<and> T2 = 7 * unat lease div 8 \<and> T1 \<le> T2 \<and> T2 \<le> unat lease
    \<and> (rebinding \<longleftrightarrow> T2 \<le> unat cur)
    \<and> dest = (if rebinding then ipv4_broadcast else case server of Some a \<Rightarrow> a | None \<Rightarrow> ipv4_broadcast)
    \<and> unat interval = max 60 ((if rebinding then unat lease - unat cur else T2 - unat cur) div 2)"
proof -
  have T: "T1 = unat lease div 2" "T2 = 7 * unat lease div 8"
    by (simp_all add: T1_def T2_def t1_exact t2_exact)
  have reb: "rebinding \<longleftrightarrow> T2 \<le> unat cur"
    and dest: "dest = (if rebinding then ipv4_broadcast
                 else case server of Some a \<Rightarrow> a | None \<Rightarrow> ipv4_broadcast)"
    and interval: "interval = max (saturating_sub (if rebinding then lease else t2_secs lease) cur div 2) 60"
    using assms(3) by (auto simp: calculate_renewal_params_def Let_def T2_def word_le_nat_alt
        split: if_splits)
  show ?thesis
    using T reb dest unfolding interval half_interval_unat by (auto simp: T2_def [symmetric])
qed

theorem renewal_params_follow_rfc_witness:
  "calculate_renewal_params 3200 (t2_secs 3600) 3600 (Some 5) = (200, ipv4_broadcast, True)
   \<and> unat (t2_secs 3600) \<le> 3200"
proof -
  have t2: "t2_secs 3600 = 3150" by (simp add: t2_secs_def)
  have "calculate_renewal_params 3200 (t2_secs 3600) 3600 (Some 5) = (200, ipv4_broadcast, True)"
    by (simp add: t2 calculate_renewal_params_def saturating_sub_def)
  with renewal_params_follow_rfc [OF this] show ?thesis by simp
qed

section \<open>What a wait returns\<close>

lemma wait_loop_Some_datagram:
  "wait_loop parse timeout ws = Some (Inr (Some r)) \<Longrightarrow>
     \<exists>before w after buf. ws = before @ w # after \<and> wt_recv w = Datagram buf \<and>
       parse (take 2048 buf) = Some r \<and> wt_elapsed w < timeout \<and>
       (\<forall>v \<in> set before. \<exists>b. wt_recv v = Datagram b \<and> parse (take 2048 b) = None)"
proof (induction ws)
  case (Cons w ws)
  show ?case
  proof (cases "\<exists>b. wt_recv w = Datagram b \<and> parse (take 2048 b) = None")
    case True
    with Cons.prems have "wait_loop parse timeout ws = Some (Inr (Some r))"
      by (auto split: if_splits)
    from Cons.IH [OF this] obtain before v after buf where
      ih: "ws = before @ v # after" "wt_recv v = Datagram buf" "parse (take 2048 buf) = Some r"
        "wt_elapsed v < timeout" "\<forall>v \<in> set before. \<exists>b. wt_recv v = Datagram b \<and> parse (take 2048 b) = None"
      by blast
    show ?thesis
      by (rule exI [of _ "w # before"], rule exI [of _ v]) (use ih True in auto)
  next
    case False
    with Cons.prems show ?thesis
      by - (rule exI [of _ "[]"], rule exI [of _ w], rule exI [of _ ws],
          auto split: if_splits recv_result.splits option.splits)
  qed
qed simp

lemma wait_loop_ends:
  "w \<in> set ws \<Longrightarrow> timeout \<le> wt_elapsed w \<Longrightarrow> wait_loop parse timeout ws \<noteq> None"
  by (induction ws) (auto split: recv_result.splits option.splits)

lemma parse_offer_Some:
  "parse_offer dp buf xid = Some offer \<longleftrightarrow>
     (\<exists>d. message_decode dp buf = Some d \<and> msg_xid d = xid \<and> message_type_of d = Some Offer \<and>
        offer = \<lparr>offered_ip = msg_yiaddr d, offer_server_ip = get_server_identifier d\<rparr>)"
  by (auto simp: parse_offer_def split: option.splits)

definition ack_of :: "dhcp_message \<Rightarrow> dhcp_ack" where
  "ack_of d = \<lparr>ack_ip = msg_yiaddr d, ack_mask = lo_mask (parse_lease_options d),
     ack_gateway = lo_gateway (parse_lease_options d), ack_server_ip = get_server_identifier d,
     ack_lease_secs = lo_lease_secs (parse_lease_options d),
     ack_dns_servers = lo_dns_servers (parse_lease_options d)\<rparr>"

definition reply_for :: "dhcproto \<Rightarrow> u32 \<Rightarrow> bytes \<Rightarrow> dhcp_message option" where
  "reply_for dp xid buf = (case message_decode dp buf of
     Some d \<Rightarrow> if msg_xid d = xid then Some d else None | None \<Rightarrow> None)"

lemma parse_ack_nak_reply:
  "parse_ack_nak dp buf xid = (case reply_for dp xid buf of
     None \<Rightarrow> NoResult
   | Some d \<Rightarrow> if message_type_of d = Some Ack then AckResult (ack_of d)
               else if message_type_of d = Some Nak then NakResult else NoResult)"
  by (auto simp: parse_ack_nak_def reply_for_def ack_of_def Let_def
      split: option.splits message_type.splits)

text \<open>What a wait for an acknowledgement accepts.\<close>

lemma wait_for_ack_accepts:
  assumes "wait_for_ack dp xid timeout ws = Some (Inr (Some res))"
  shows "\<exists>before w after buf d. ws = before @ w # after \<and> wt_recv w = Datagram buf \<and>
         wt_elapsed w < timeout \<and> reply_for dp xid (take 2048 buf) = Some d \<and>
         (message_type_of d = Some Ack \<and> res = AckResult (ack_of d) \<or>
          message_type_of d = Some Nak \<and> res = NakResult) \<and>
         (\<forall>v \<in> set before. \<exists>b. wt_recv v = Datagram b \<and>
            (\<forall>d'. reply_for dp xid (take 2048 b) = Some d' \<longrightarrow>
               message_type_of d' \<notin> {Some Ack, Some Nak}))"
proof -
  from wait_loop_Some_datagram [OF assms [unfolded wait_for_ack_def]] obtain before w after buf where
    w: "ws = before @ w # after" "wt_recv w = Datagram buf" "wt_elapsed w < timeout"
    and res: "parse_ack_nak dp (take 2048 buf) xid = res" "res \<noteq> NoResult"
    and strays: "\<And>v. v \<in> set before \<Longrightarrow>
      \<exists>b. wt_recv v = Datagram b \<and> parse_ack_nak dp (take 2048 b) xid = NoResult"
    by (fastforce simp: Let_def split: if_splits)
  from res obtain d where d: "reply_for dp xid (take 2048 buf) = Some d"
      "message_type_of d = Some Ack \<and> res = AckResult (ack_of d) \<or>
       message_type_of d = Some Nak \<and> res = NakResult"
    by (auto simp: parse_ack_nak_reply split: option.splits if_splits)
  have "\<exists>b. wt_recv v = Datagram b \<and> (\<forall>d'. reply_for dp xid (take 2048 b) = Some d' \<longrightarrow>
      message_type_of d' \<notin> {Some Ack, Some Nak})" if "v \<in> set before" for v
    using strays [OF that] by (fastforce simp: parse_ack_nak_reply split: if_splits)
  with w d show ?thesis by blast
qed


definition ack_message :: dhcp_message where
  "ack_message = blank_message\<lparr>msg_xid := 77, msg_yiaddr := ipv4_new 10 0 0 5,
     msg_opts := [(MessageTypeCode, MessageType Ack)]\<rparr>"

definition sample_turns :: "wait_turn list" where
  "sample_turns = [\<lparr>wt_elapsed = 0, wt_elapsed2 = 0, wt_recv = Datagram [1, 2]\<rparr>,
     \<lparr>wt_elapsed = 5, wt_elapsed2 = 5, wt_recv = Datagram [9]\<rparr>]"

lemma sample_turns_ack:
  "wait_for_ack (scripted_dhcproto (\<lambda>_. ack_message)) 77 10 sample_turns =
     Some (Inr (Some (AckResult (ack_of ack_message))))"
  by (simp add: wait_for_ack_def sample_turns_def parse_ack_nak_reply reply_for_def ack_message_def
      scripted_dhcproto_def message_type_of_def opts_get_def hm_get_def)




section \<open>What the client sends\<close>

text \<open>The client's messages carry what RFC 2131 asks of each state. All are boot requests
  with the client's hardware address and the transaction id. A DISCOVER asks for a broadcast
  reply and for mask, router and DNS servers. A REQUEST that selects an offer leaves the client
  address zero, asks for a broadcast reply, and names the requested address and, when the offer
  had one, the server; a REQUEST that renews carries the address as client address and neither
  of the two options.\<close>

theorem client_messages_contents:
  fixes dp :: dhcproto and m :: mac and xid :: u32 and requested ciaddr :: ipv4
    and server :: "ipv4 option"
  assumes "dhcproto_documented dp" and "ciaddr \<noteq> ipv4_unspecified"
  defines "D \<equiv> discover_message dp m xid"
    and "S \<equiv> request_message dp m xid requested server ipv4_unspecified"
    and "R \<equiv> request_message dp m xid requested server ciaddr"
  shows "(\<forall>d \<in> {D, S, R}. msg_opcode d = BootRequest \<and> msg_xid d = xid
            \<and> msg_chaddr d = mac_octets m \<and> msg_hlen d = 6)
    \<and> message_type_of D = Some Discover \<and> msg_broadcast D
    \<and> opts_get D ParameterRequestListCode =
        Some (ParameterRequestList [SubnetMaskCode, RouterCode, DomainNameServerCode])
    \<and> message_type_of S = Some Request \<and> msg_broadcast S \<and> msg_ciaddr S = ipv4_unspecified
    \<and> opts_get S RequestedIpAddressCode = Some (RequestedIpAddress requested)
    \<and> get_server_identifier S = server
    \<and> message_type_of R = Some Request \<and> msg_ciaddr R = ciaddr
    \<and> opts_get R RequestedIpAddressCode = None \<and> get_server_identifier R = None"
proof -
  note defs = assms(3-5) discover_message_def request_message_def Let_def
  have opts: "msg_opts (message_default dp) = []"
    using assms(1) by (rule dhcproto_default_opts)
  have chaddr: "set_chaddr dp (mac_octets m) d = d\<lparr>msg_chaddr := mac_octets m, msg_hlen := 6\<rparr>" for d
    using dhcproto_set_chaddr [OF assms(1), of "mac_octets m" d] by simp
  have header: "\<forall>d \<in> {D, S, R}. msg_opcode d = BootRequest \<and> msg_xid d = xid
      \<and> msg_chaddr d = mac_octets m \<and> msg_hlen d = 6"
    using assms(2) by (simp add: defs chaddr split: option.split)
  have discover: "message_type_of D = Some Discover" "msg_broadcast D"
      "opts_get D ParameterRequestListCode =
        Some (ParameterRequestList [SubnetMaskCode, RouterCode, DomainNameServerCode])"
    by (simp_all add: defs chaddr message_type_of_def opts_get_insert opts)
  have select: "message_type_of S = Some Request" "msg_broadcast S" "msg_ciaddr S = ipv4_unspecified"
      "opts_get S RequestedIpAddressCode = Some (RequestedIpAddress requested)"
      "get_server_identifier S = server"
    by (simp_all add: defs chaddr message_type_of_def get_server_identifier_def opts_get_insert opts
        split: option.split) (simp_all add: opts_get_def hm.get_empty opts)
  have renew: "message_type_of R = Some Request" "msg_ciaddr R = ciaddr"
      "opts_get R RequestedIpAddressCode = None" "get_server_identifier R = None"
    using assms(2)
    by (simp_all add: defs chaddr message_type_of_def get_server_identifier_def opts_get_insert opts)
      (simp_all add: opts_get_def hm.get_empty opts)
  show ?thesis using header discover select renew by blast
qed

theorem client_messages_contents_witness:
  "message_type_of (request_message (scripted_dhcproto (\<lambda>_. blank_message)) (MacAddr 2 0 0 0 0 1) 9
     (ipv4_new 10 0 0 5) (Some (ipv4_new 10 0 0 1)) (ipv4_new 10 0 0 5)) = Some Request"
proof -
  have "ipv4_new 10 0 0 5 \<noteq> ipv4_unspecified"
    by (simp add: ipv4_new_def ipv4_unspecified_def)
  from client_messages_contents [OF scripted_dhcproto_documented this] show ?thesis by blast
qed

end
