(* ===== verification/Backoff.thy ===== *)
theory Backoff
  imports Prelude
begin

text \<open>
  Retry delays that double up to a cap: the contract shared by \<open>calculate_next_delay\<close> of the
  DHCP client and the retry delay of the SNTP client. The locale fixes one step of the delay
  and how many seconds it stands for; its lemmas give the closed form of the whole sequence.
\<close>

locale capped_backoff =
  fixes advance :: "'d \<Rightarrow> 'd" and seconds :: "'d \<Rightarrow> nat" and cap :: nat
  assumes advance_seconds: "seconds d \<le> cap \<Longrightarrow> seconds (advance d) = min (2 * seconds d) cap"
begin

lemma seconds_iterate:
  "seconds d \<le> cap \<Longrightarrow> seconds ((advance ^^ n) d) = min (2 ^ n * seconds d) cap"
proof (induction n)
  case (Suc n)
  then have "seconds ((advance ^^ Suc n) d) = min (2 * min (2 ^ n * seconds d) cap) cap"
    by (simp add: advance_seconds)
  also have "\<dots> = min (2 ^ Suc n * seconds d) cap" by (simp add: min_def)
  finally show ?case .
qed simp

lemma iterate_le_cap: "seconds d \<le> cap \<Longrightarrow> seconds ((advance ^^ n) d) \<le> cap"
  by (simp add: seconds_iterate)

lemma iterate_ge_start: "seconds d \<le> cap \<Longrightarrow> seconds d \<le> seconds ((advance ^^ n) d)"
  by (simp add: seconds_iterate)

lemma iterate_mono: "seconds d \<le> cap \<Longrightarrow> m \<le> n \<Longrightarrow>
    seconds ((advance ^^ m) d) \<le> seconds ((advance ^^ n) d)"
  by (simp add: seconds_iterate min.coboundedI1 min_le_iff_disj power_increasing)

lemma iterate_reaches_cap:
  assumes "seconds d \<le> cap" and "cap \<le> 2 ^ n * seconds d"
  shows "seconds ((advance ^^ n) d) = cap"
  using assms by (simp add: seconds_iterate)

end

end
