(* ===== verification/Dhcp_Client_Run.thy ===== *)
theory Dhcp_Client_Run
  imports Dhcp_Client Wan_Lease Backoff
begin

text \<open>
  \<open>DhcpClient::run\<close> of \<open>src/services/dhcp_client.rs\<close> with its three phases as a state machine,
  and the configuration of the WAN interface. A phase of the machine is a point where the
  code awaits something; an event carries what the outside supplies there (random numbers,
  clock readings, received datagrams, the kernel's answers), and a step is the code up to the
  next such point, with the messages sent, the netlink requests made and the sleeps as output.
\<close>

section \<open>Configuring the interface\<close>

definition deconfigure_wan ::
  "netlink \<Rightarrow> string \<Rightarrow> ipv4 \<Rightarrow> ipv4 \<Rightarrow> nl_request list \<times> (dhcp_error + unit)" where
  "deconfigure_wan nl wan_interface a m =
     (case mask_to_prefix_len m of
        Inl e \<Rightarrow> ([], Inl e)
      | Inr prefix_len \<Rightarrow>
     case nl_connect nl of
        Inl e \<Rightarrow> ([], Inl (Io e))
      | Inr _ \<Rightarrow>
     case nl_link nl of
        Inl e \<Rightarrow> ([], Inl (RtNetlink e))
      | Inr None \<Rightarrow> ([], Inl (InterfaceNotFound wan_interface))
      | Inr (Some index) \<Rightarrow>
          (map DelAddress (filter (\<lambda>x. nl_index x = index \<and> a \<in> set (nl_locals x)) (nl_dump nl)),
           case nl_dump_error nl of Some e \<Rightarrow> Inl (RtNetlink e) | None \<Rightarrow> Inr ()))"

definition configure_wan ::
  "netlink \<Rightarrow> string \<Rightarrow> ipv4 \<Rightarrow> ipv4 \<Rightarrow> ipv4 option \<Rightarrow> nl_request list \<times> (dhcp_error + unit)" where
  "configure_wan nl wan_interface a m gateway =
     (case mask_to_prefix_len m of
        Inl e \<Rightarrow> ([], Inl e)
      | Inr prefix_len \<Rightarrow>
     case nl_connect nl of
        Inl e \<Rightarrow> ([], Inl (Io e))
      | Inr _ \<Rightarrow>
     case nl_link nl of
        Inl e \<Rightarrow> ([], Inl (RtNetlink e))
      | Inr None \<Rightarrow> ([], Inl (InterfaceNotFound wan_interface))
      | Inr (Some index) \<Rightarrow>
     (let flush = map DelAddress (filter (\<lambda>x. nl_index x = index) (nl_dump nl));
          up = LinkUp index;
          add = AddAddress index a prefix_len
      in case nl_dump_error nl of
           Some e \<Rightarrow> (flush, Inl (RtNetlink e))
         | None \<Rightarrow>
         case nl_change nl up of
           Some e \<Rightarrow> (flush @ [up], Inl (RtNetlink e))
         | None \<Rightarrow>
         case nl_change nl add of
           Some e \<Rightarrow> (flush @ [up, add], Inl (RtNetlink e))
         | None \<Rightarrow>
         case gateway of
           None \<Rightarrow> (flush @ [up, add], Inr ())
         | Some gw \<Rightarrow> (flush @ [up, add, AddDefaultRoute gw index], Inr ())))"

definition apply_lease_config ::
  "netlink \<Rightarrow> string \<Rightarrow> ipv4 \<Rightarrow> ipv4 \<Rightarrow> ipv4 option \<Rightarrow> ipv4 list \<Rightarrow> wan_lease \<Rightarrow>
     wan_lease \<times> nl_request list \<times> (dhcp_error + unit)" where
  "apply_lease_config nl wan_interface a m gateway dns_servers L =
     (let changed = (wl_ip L \<noteq> Some a \<or> wl_mask L \<noteq> Some m \<or> wl_gateway L \<noteq> gateway \<or>
                     wl_dns_servers L \<noteq> dns_servers);
          L' = (if changed
                then L\<lparr>wl_ip := Some a, wl_mask := Some m, wl_gateway := gateway,
                       wl_dns_servers := dns_servers\<rparr>
                else L)
      in if changed
         then (L', configure_wan nl wan_interface a m gateway)
         else (L', [], Inr ()))"

definition deconfigure :: "netlink \<Rightarrow> string \<Rightarrow> wan_lease \<Rightarrow> wan_lease \<times> nl_request list" where
  "deconfigure nl wan_interface L =
     (wan_lease_default,
      case (wl_ip L, wl_mask L) of
        (Some a, Some m) \<Rightarrow> fst (deconfigure_wan nl wan_interface a m)
      | _ \<Rightarrow> [])"

section \<open>The client as a state machine\<close>

record client_config =
  cc_dhcproto :: dhcproto
  cc_mac :: mac
  cc_wan_interface :: string

text \<open>
  The points where \<open>run\<close> awaits: \<open>Idle\<close> is the top of its loop; \<open>AwaitOffer\<close> and
  \<open>AwaitAck\<close> wait for the reply to the last DISCOVER or REQUEST with the current retry
  delay; \<open>BoundTop\<close> and \<open>RenewTop\<close> are the tops of the loops of \<open>bound_phase\<close> and
  \<open>renew_lease\<close>, about to read the clock; \<open>AwaitRenewal\<close> waits for the reply to a renewal
  for at most the given seconds.
\<close>

datatype client_phase =
    Idle
  | AwaitOffer u32 u32
  | AwaitAck u32 dhcp_offer u32
  | BoundTop dhcp_ack instant
  | RenewTop dhcp_ack instant u32 "instant option"
  | AwaitRenewal dhcp_ack instant u32 "instant option" u32

record client_state =
  cs_phase :: client_phase
  cs_lease :: wan_lease

text \<open>\<open>SendMessage\<close> is a call of \<open>send_dhcp_message\<close>, whose result both callers only log.\<close>

datatype client_action =
    SendMessage dhcp_message ipv4
  | Netlink nl_request
  | SleepFor duration

text \<open>
  The events: the random transaction id of a discovery; the end of a wait (the jitter drawn,
  the turns of the wait loop, and for the code that runs after it the kernel's answers and
  the reading that becomes \<open>bound_at\<close>); a turn of the bound loop (its reading, and the
  transaction id drawn if it starts a renewal); a turn of the renewal loop (its readings).
\<close>

datatype client_event =
    EvStart u32
  | EvWaited rat "wait_turn list" netlink instant
  | EvBound instant u32 netlink
  | EvRenew instant instant instant netlink

definition client_start :: client_state where
  "client_start = \<lparr>cs_phase = Idle, cs_lease = wan_lease_default\<rparr>"

text \<open>Both phases end an unsuccessful negotiation the same way.\<close>

definition give_up :: "client_config \<Rightarrow> netlink \<Rightarrow> client_state \<Rightarrow> client_action list \<times> client_state" where
  "give_up c nl s =
     (let (L, reqs) = deconfigure nl (cc_wan_interface c) (cs_lease s)
      in (map Netlink reqs @ [SleepFor (from_secs SOCKET_RESTART_DELAY_SECS)],
          s\<lparr>cs_phase := Idle, cs_lease := L\<rparr>))"

text \<open>\<open>bound_phase\<close> ends with an error after \<open>deconfigure\<close>: \<open>run\<close> goes on at once.\<close>

definition leave_bound :: "client_config \<Rightarrow> netlink \<Rightarrow> client_state \<Rightarrow> client_action list \<times> client_state" where
  "leave_bound c nl s =
     (let (L, reqs) = deconfigure nl (cc_wan_interface c) (cs_lease s)
      in (map Netlink reqs, s\<lparr>cs_phase := Idle, cs_lease := L\<rparr>))"

text \<open>
  An acknowledgement, first or renewed, is applied; if that fails, the \<open>?\<close> leaves
  \<open>bound_phase\<close> and \<open>run\<close> goes back to the top of its loop.
\<close>

definition enter_bound ::
  "client_config \<Rightarrow> netlink \<Rightarrow> dhcp_ack \<Rightarrow> instant \<Rightarrow> client_state \<Rightarrow>
     client_action list \<times> client_state" where
  "enter_bound c nl ack now s =
     (case apply_lease_config nl (cc_wan_interface c) (ack_ip ack) (ack_mask ack)
             (ack_gateway ack) (ack_dns_servers ack) (cs_lease s) of
        (L, reqs, Inl e) \<Rightarrow> (map Netlink reqs, s\<lparr>cs_phase := Idle, cs_lease := L\<rparr>)
      | (L, reqs, Inr _) \<Rightarrow> (map Netlink reqs, s\<lparr>cs_phase := BoundTop ack now, cs_lease := L\<rparr>))"

definition send_request_action :: "client_config \<Rightarrow> u32 \<Rightarrow> dhcp_offer \<Rightarrow> client_action" where
  "send_request_action c xid offer =
     SendMessage (request_message (cc_dhcproto c) (cc_mac c) xid (offered_ip offer)
                    (offer_server_ip offer) ipv4_unspecified) ipv4_broadcast"

definition send_discover_action :: "client_config \<Rightarrow> u32 \<Rightarrow> client_action" where
  "send_discover_action c xid =
     SendMessage (discover_message (cc_dhcproto c) (cc_mac c) xid) ipv4_broadcast"

text \<open>\<open>discover_phase\<close>.\<close>

definition offer_step ::
  "client_config \<Rightarrow> u32 \<Rightarrow> u32 \<Rightarrow> rat \<Rightarrow> wait_turn list \<Rightarrow> netlink \<Rightarrow> client_state \<Rightarrow>
     client_action list \<times> client_state" where
  "offer_step c xid delay r ws nl s =
     (case wait_for_offer (cc_dhcproto c) xid (get_jittered_duration r delay) ws of
        None \<Rightarrow> ([], s)
      | Some (Inl e) \<Rightarrow> give_up c nl s
      | Some (Inr (Some offer)) \<Rightarrow>
          ([send_request_action c xid offer],
           s\<lparr>cs_phase := AwaitAck xid offer INITIAL_RETRY_DELAY_SECS\<rparr>)
      | Some (Inr None) \<Rightarrow>
          ([send_discover_action c xid],
           s\<lparr>cs_phase := AwaitOffer xid (calculate_next_delay delay)\<rparr>))"

text \<open>\<open>request_phase\<close>, and the entry of \<open>bound_phase\<close>.\<close>

definition ack_step ::
  "client_config \<Rightarrow> u32 \<Rightarrow> dhcp_offer \<Rightarrow> u32 \<Rightarrow> rat \<Rightarrow> wait_turn list \<Rightarrow> netlink \<Rightarrow> instant \<Rightarrow>
     client_state \<Rightarrow> client_action list \<times> client_state" where
  "ack_step c xid offer delay r ws nl now s =
     (let again = ([send_request_action c xid offer],
                   s\<lparr>cs_phase := AwaitAck xid offer (calculate_next_delay delay)\<rparr>)
      in case wait_for_ack (cc_dhcproto c) xid (get_jittered_duration r delay) ws of
           None \<Rightarrow> ([], s)
         | Some (Inl e) \<Rightarrow> give_up c nl s
         | Some (Inr (Some (AckResult ack))) \<Rightarrow> enter_bound c nl ack now s
         | Some (Inr (Some NakResult)) \<Rightarrow> give_up c nl s
         | Some (Inr (Some NoResult)) \<Rightarrow> again
         | Some (Inr None) \<Rightarrow> again)"

text \<open>One turn of the loop of \<open>bound_phase\<close>.\<close>

definition bound_step ::
  "client_config \<Rightarrow> dhcp_ack \<Rightarrow> instant \<Rightarrow> instant \<Rightarrow> u32 \<Rightarrow> netlink \<Rightarrow> client_state \<Rightarrow>
     client_action list \<times> client_state" where
  "bound_step c ack bound_at now renew_xid nl s =
     (let elapsed = elapsed_secs now bound_at;
          t1 = t1_secs (ack_lease_secs ack)
      in if elapsed \<ge> ack_lease_secs ack then leave_bound c nl s
         else if elapsed < t1
         then ([SleepFor (from_secs (unat (t1 - elapsed)))], s)
         else ([], s\<lparr>cs_phase := RenewTop ack bound_at renew_xid None\<rparr>))"

text \<open>
  One turn of the loop of \<open>renew_lease\<close> up to its wait: \<open>now1\<close> is read for
  \<open>current_elapsed\<close>, \<open>now2\<close> for the time since the last request, \<open>now3\<close> when one is sent.
\<close>

definition renew_step ::
  "client_config \<Rightarrow> dhcp_ack \<Rightarrow> instant \<Rightarrow> u32 \<Rightarrow> instant option \<Rightarrow> instant \<Rightarrow> instant \<Rightarrow> instant \<Rightarrow>
     netlink \<Rightarrow> client_state \<Rightarrow> client_action list \<times> client_state" where
  "renew_step c ack bound_at renew_xid renew_sent now1 now2 now3 nl s =
     (let current_elapsed = elapsed_secs now1 bound_at
      in if current_elapsed \<ge> ack_lease_secs ack then leave_bound c nl s
         else
           (let (retry_interval, dest_ip, in_rebinding) =
                  calculate_renewal_params current_elapsed (t2_secs (ack_lease_secs ack))
                    (ack_lease_secs ack) (ack_server_ip ack);
                should_send = (case renew_sent of None \<Rightarrow> True
                               | Some t \<Rightarrow> elapsed_secs now2 t \<ge> retry_interval)
            in if should_send
               then ([SendMessage (request_message (cc_dhcproto c) (cc_mac c) renew_xid
                        (ack_ip ack) None (ack_ip ack)) dest_ip],
                     s\<lparr>cs_phase := AwaitRenewal ack bound_at renew_xid (Some now3) retry_interval\<rparr>)
               else ([],
                     s\<lparr>cs_phase := AwaitRenewal ack bound_at renew_xid renew_sent retry_interval\<rparr>)))"

text \<open>The end of that wait.\<close>

definition renewal_step ::
  "client_config \<Rightarrow> dhcp_ack \<Rightarrow> instant \<Rightarrow> u32 \<Rightarrow> instant option \<Rightarrow> u32 \<Rightarrow> wait_turn list \<Rightarrow>
     netlink \<Rightarrow> instant \<Rightarrow> client_state \<Rightarrow> client_action list \<times> client_state" where
  "renewal_step c ack bound_at renew_xid renew_sent retry_interval ws nl now s =
     (let again = ([], s\<lparr>cs_phase := RenewTop ack bound_at renew_xid renew_sent\<rparr>)
      in case wait_for_ack (cc_dhcproto c) renew_xid (from_secs (unat retry_interval)) ws of
           None \<Rightarrow> ([], s)
         | Some (Inl e) \<Rightarrow> leave_bound c nl s
         | Some (Inr (Some (AckResult new_ack))) \<Rightarrow> enter_bound c nl new_ack now s
         | Some (Inr (Some NakResult)) \<Rightarrow> leave_bound c nl s
         | Some (Inr (Some NoResult)) \<Rightarrow> again
         | Some (Inr None) \<Rightarrow> again)"

definition client_step ::
  "client_config \<Rightarrow> client_event \<Rightarrow> client_state \<Rightarrow> client_action list \<times> client_state" where
  "client_step c ev s =
     (case (cs_phase s, ev) of
        (Idle, EvStart xid) \<Rightarrow>
          ([send_discover_action c xid],
           s\<lparr>cs_phase := AwaitOffer xid INITIAL_RETRY_DELAY_SECS\<rparr>)
      | (AwaitOffer xid delay, EvWaited r ws nl now) \<Rightarrow> offer_step c xid delay r ws nl s
      | (AwaitAck xid offer delay, EvWaited r ws nl now) \<Rightarrow>
          ack_step c xid offer delay r ws nl now s
      | (BoundTop ack bound_at, EvBound now renew_xid nl) \<Rightarrow>
          bound_step c ack bound_at now renew_xid nl s
      | (RenewTop ack bound_at xid sent, EvRenew now1 now2 now3 nl) \<Rightarrow>
          renew_step c ack bound_at xid sent now1 now2 now3 nl s
      | (AwaitRenewal ack bound_at xid sent interval, EvWaited r ws nl now) \<Rightarrow>
          renewal_step c ack bound_at xid sent interval ws nl now s
      | _ \<Rightarrow> ([], s))"

text \<open>
  \<open>start_dhcp_client\<close> before \<open>run\<close>: without a hardware address the service ends; otherwise the
  socket is tried until it opens (the list has the answers), and \<open>run\<close> starts.
\<close>

fun open_client_socket :: "(string + unit) list \<Rightarrow> client_action list \<times> bool" where
  "open_client_socket [] = ([], False)"
| "open_client_socket (Inr _ # rs) = ([], True)"
| "open_client_socket (Inl e # rs) =
     (let (acts, opened) = open_client_socket rs
      in (SleepFor (from_secs SOCKET_RESTART_DELAY_SECS) # acts, opened))"

definition start_dhcp_client ::
  "dhcproto \<Rightarrow> string \<Rightarrow> string + mac \<Rightarrow> (string + unit) list \<Rightarrow>
     client_action list \<times> (client_config \<times> client_state) option" where
  "start_dhcp_client dp wan_interface mac_res sockets =
     (case mac_res of
        Inl e \<Rightarrow> ([], None)
      | Inr m \<Rightarrow>
          (case open_client_socket sockets of
             (acts, opened) \<Rightarrow>
               (acts, if opened
                      then Some (\<lparr>cc_dhcproto = dp, cc_mac = m, cc_wan_interface = wan_interface\<rparr>,
                                 client_start)
                      else None)))"

lemma start_dhcp_client_starts:
  assumes "Inr () \<in> set sockets"
  shows "\<exists>acts. start_dhcp_client dp w (Inr m) sockets =
    (acts, Some (\<lparr>cc_dhcproto = dp, cc_mac = m, cc_wan_interface = w\<rparr>, client_start))"
proof -
  have "snd (open_client_socket rs)" if "Inr () \<in> set rs" for rs
    using that by (induction rs rule: open_client_socket.induct) (auto split: prod.split)
  from this [OF assms] show ?thesis
    by (cases "open_client_socket sockets") (simp add: start_dhcp_client_def)
qed

inductive client_reachable :: "client_config \<Rightarrow> client_state \<Rightarrow> bool" for c where
  start: "client_reachable c client_start"
| step: "client_reachable c s \<Longrightarrow> client_step c ev s = (out, s') \<Longrightarrow> client_reachable c s'"

section \<open>Retry delays\<close>

lemma next_delay_seconds:
  assumes "unat d \<le> 64"
  shows "unat (calculate_next_delay d) = min (2 * unat d) 64"
proof -
  have "unat (d * 2) = 2 * unat d"
    using assms by (simp add: unat_word_ariths)
  then show ?thesis
    by (auto simp: calculate_next_delay_def MAX_RETRY_DELAY_SECS_def Let_def word_less_nat_alt)
qed

interpretation retry: capped_backoff calculate_next_delay unat 64
  by unfold_locales (rule next_delay_seconds)

definition retry_delay_ok :: "client_phase \<Rightarrow> bool" where
  "retry_delay_ok ph \<longleftrightarrow> (case ph of
      AwaitOffer xid d \<Rightarrow> \<exists>n. d = (calculate_next_delay ^^ n) INITIAL_RETRY_DELAY_SECS
    | AwaitAck xid offer d \<Rightarrow> \<exists>n. d = (calculate_next_delay ^^ n) INITIAL_RETRY_DELAY_SECS
    | _ \<Rightarrow> True)"

lemma retry_delay_ok_start: "\<exists>n. INITIAL_RETRY_DELAY_SECS = (calculate_next_delay ^^ n) INITIAL_RETRY_DELAY_SECS"
  by (rule exI [of _ 0]) simp

lemma retry_delay_ok_next:
  "\<exists>n. d = (calculate_next_delay ^^ n) e \<Longrightarrow> \<exists>n. calculate_next_delay d = (calculate_next_delay ^^ n) e"
  by (metis comp_apply funpow.simps(2))

text \<open>The phases a step can end in, by the function that ends it.\<close>

lemma give_up_phase [simp]: "cs_phase (snd (give_up c nl s)) = Idle"
  by (simp add: give_up_def split: prod.splits)

lemma leave_bound_phase [simp]: "cs_phase (snd (leave_bound c nl s)) = Idle"
  by (simp add: leave_bound_def split: prod.splits)

lemma enter_bound_phase:
  "cs_phase (snd (enter_bound c nl ack now s)) \<in> {Idle, BoundTop ack now}"
  by (simp add: enter_bound_def split: prod.splits sum.splits)

lemma client_step_retry_delay:
  assumes "retry_delay_ok (cs_phase s)"
  shows "retry_delay_ok (cs_phase (snd (client_step c ev s)))"
proof -
  have bound: "retry_delay_ok (cs_phase (snd (enter_bound c nl ack now s)))" for nl ack now
    using enter_bound_phase [of c nl ack now s] by (auto simp: retry_delay_ok_def)
  show ?thesis
  proof (cases "cs_phase s")
    case Idle
    with assms show ?thesis
      by (cases ev) (simp_all add: client_step_def retry_delay_ok_def retry_delay_ok_start)
  next
    case (AwaitOffer xid d)
    with assms show ?thesis
      by (cases ev) (auto simp: client_step_def offer_step_def retry_delay_ok_def
          retry_delay_ok_start retry_delay_ok_next split: option.splits sum.splits)
  next
    case (AwaitAck xid offer d)
    with assms bound show ?thesis
      by (cases ev) (auto simp: client_step_def ack_step_def Let_def retry_delay_ok_def
          retry_delay_ok_next split: option.splits sum.splits parse_ack_result.splits)
  next
    case (BoundTop ack b)
    with assms show ?thesis
      by (cases ev) (auto simp: client_step_def bound_step_def Let_def retry_delay_ok_def)
  next
    case (RenewTop ack b xid sent)
    with assms show ?thesis
      by (cases ev) (auto simp: client_step_def renew_step_def Let_def retry_delay_ok_def
          split: prod.splits)
  next
    case (AwaitRenewal ack b xid sent i)
    with assms bound show ?thesis
      by (cases ev) (auto simp: client_step_def renewal_step_def Let_def retry_delay_ok_def
          split: option.splits sum.splits parse_ack_result.splits)
  qed
qed

lemma client_reachable_retry_delay: "client_reachable c s \<Longrightarrow> retry_delay_ok (cs_phase s)"
proof (induction rule: client_reachable.induct)
  case start
  show ?case by (simp add: client_start_def retry_delay_ok_def)
next
  case (step s ev out s')
  then show ?case using client_step_retry_delay [of s c ev] by simp
qed

section \<open>Published lease and phase\<close>

definition lease_of_ack :: "dhcp_ack \<Rightarrow> wan_lease" where
  "lease_of_ack ack = \<lparr>wl_ip = Some (ack_ip ack), wl_mask = Some (ack_mask ack),
     wl_gateway = ack_gateway ack, wl_dns_servers = ack_dns_servers ack\<rparr>"

definition phase_ack :: "client_phase \<Rightarrow> dhcp_ack option" where
  "phase_ack ph = (case ph of
      BoundTop ack b \<Rightarrow> Some ack
    | RenewTop ack b xid sent \<Rightarrow> Some ack
    | AwaitRenewal ack b xid sent i \<Rightarrow> Some ack
    | _ \<Rightarrow> None)"

definition published :: "client_state \<Rightarrow> bool" where
  "published s \<longleftrightarrow> (\<forall>ack. phase_ack (cs_phase s) = Some ack \<longrightarrow> cs_lease s = lease_of_ack ack)"

lemma apply_lease:
  "fst (apply_lease_config nl i (ack_ip ack) (ack_mask ack) (ack_gateway ack) (ack_dns_servers ack) L)
     = lease_of_ack ack"
  by (cases L) (auto simp: apply_lease_config_def lease_of_ack_def Let_def)

lemma enter_bound_lease:
  "cs_lease (snd (enter_bound c nl ack now s)) = lease_of_ack ack"
  using apply_lease [of nl "cc_wan_interface c" ack "cs_lease s"]
  by (auto simp: enter_bound_def split: prod.split sum.split)

lemma enter_bound_published: "published (snd (enter_bound c nl ack now s))"
  using apply_lease [of nl "cc_wan_interface c" ack "cs_lease s"]
  by (auto simp: published_def enter_bound_def phase_ack_def split: prod.splits sum.splits)

lemma unbound_published: "phase_ack (cs_phase s) = None \<Longrightarrow> published s"
  by (simp add: published_def)

lemma client_step_published:
  assumes "published s"
  shows "published (snd (client_step c ev s))"
proof -
  have none: "published (snd (give_up c nl s))" "published (snd (leave_bound c nl s))" for nl
    by (rule unbound_published, simp add: phase_ack_def)+
  show ?thesis
  proof (cases "cs_phase s")
    case Idle
    with assms show ?thesis
      by (cases ev) (simp_all add: client_step_def unbound_published phase_ack_def)
  next
    case (AwaitOffer xid d)
    with assms none show ?thesis
      by (cases ev) (auto simp: client_step_def offer_step_def unbound_published phase_ack_def
          split: option.splits sum.splits)
  next
    case (AwaitAck xid offer d)
    with assms none enter_bound_published show ?thesis
      by (cases ev) (auto simp: client_step_def ack_step_def Let_def unbound_published phase_ack_def
          split: option.splits sum.splits parse_ack_result.splits)
  next
    case (BoundTop ack b)
    with assms none show ?thesis
      by (cases ev) (auto simp: client_step_def bound_step_def Let_def published_def phase_ack_def)
  next
    case (RenewTop ack b xid sent)
    with assms none show ?thesis
      by (cases ev) (auto simp: client_step_def renew_step_def Let_def published_def phase_ack_def
          split: prod.splits)
  next
    case (AwaitRenewal ack b xid sent i)
    with assms none enter_bound_published show ?thesis
      by (cases ev) (auto simp: client_step_def renewal_step_def Let_def published_def phase_ack_def
          split: option.splits sum.splits parse_ack_result.splits)
  qed
qed

lemma client_reachable_published: "client_reachable c s \<Longrightarrow> published s"
proof (induction rule: client_reachable.induct)
  case start
  show ?case by (simp add: client_start_def published_def phase_ack_def)
next
  case (step s ev out s')
  then show ?case using client_step_published [of s c ev] by simp
qed

section \<open>Jitter\<close>

lemma jitter_bounds:
  assumes r: "0 \<le> r" "r < 1" and d: "1 < unat d"
  shows "from_secs (unat d - 1) \<le> get_jittered_duration r d"
    and "get_jittered_duration r d \<le> from_secs (unat d + 1)"
proof -
  define n where "n = unat d"
  define x :: rat where "x = (of_nat n + (r * 2 - 1)) * 1000000000"
  have jit: "get_jittered_duration r d = max (from_secs 1) (nat (round x))"
    by (simp add: get_jittered_duration_def x_def n_def Let_def)
  have lo: "of_int ((int n - 1) * 1000000000) \<le> x" and hi: "x \<le> of_int ((int n + 1) * 1000000000)"
    using r by (simp_all add: x_def algebra_simps)
  have lo': "(int n - 1) * 1000000000 \<le> round x"
    using round_mono [OF lo] unfolding round_of_int .
  have hi': "round x \<le> (int n + 1) * 1000000000"
    using round_mono [OF hi] unfolding round_of_int .
  have n: "1 < n" using d by (simp add: n_def)
  have "from_secs (n - 1) \<le> nat (round x)" and "nat (round x) \<le> from_secs (n + 1)"
    using lo' hi' n by (simp_all add: from_secs_def le_nat_iff nat_le_iff of_nat_diff algebra_simps)
  moreover have "from_secs 1 \<le> from_secs (n + 1)" by (rule from_secs_mono) simp
  ultimately show "from_secs (unat d - 1) \<le> get_jittered_duration r d"
    and "get_jittered_duration r d \<le> from_secs (unat d + 1)"
    unfolding jit n_def [symmetric] by simp_all
qed

lemma retry_seconds:
  "unat ((calculate_next_delay ^^ n) INITIAL_RETRY_DELAY_SECS) \<in> {4, 8, 16, 32, 64}"
proof -
  have eq: "unat ((calculate_next_delay ^^ n) INITIAL_RETRY_DELAY_SECS) = min (2 ^ n * 4) 64"
    using retry.seconds_iterate [of INITIAL_RETRY_DELAY_SECS n] by (simp add: INITIAL_RETRY_DELAY_SECS_def)
  consider "n = 0" | "n = 1" | "n = 2" | "n = 3" | "4 \<le> n" by linarith
  then have "min (2 ^ n * 4) 64 \<in> {4, 8, 16, 32, 64 :: nat}"
  proof cases
    case 5
    then have "(2 :: nat) ^ 4 \<le> 2 ^ n" by (rule power_increasing) simp
    then show ?thesis by simp
  qed simp_all
  with eq show ?thesis by (simp only: eq)
qed

definition phase_delay :: "client_phase \<Rightarrow> u32 option" where
  "phase_delay ph = (case ph of
      AwaitOffer xid d \<Rightarrow> Some d
    | AwaitAck xid offer d \<Rightarrow> Some d
    | _ \<Rightarrow> None)"

text \<open>In every reachable state of the client that awaits an OFFER or an ACK, the retry
  delay is 4, 8, 16, 32 or 64 seconds (RFC 2131's doubling from 4 to a cap of 64, whatever
  was lost before), and the time it listens is that delay give or take the one second of
  jitter, whatever random number is drawn.\<close>

theorem client_retry_delay_bounded:
  assumes "client_reachable c s" and "phase_delay (cs_phase s) = Some d" and "0 \<le> r" and "r < 1"
  shows "unat d \<in> {4, 8, 16, 32, 64}
    \<and> from_secs (unat d - 1) \<le> get_jittered_duration r d
    \<and> get_jittered_duration r d \<le> from_secs (unat d + 1)"
proof -
  have "\<exists>n. d = (calculate_next_delay ^^ n) INITIAL_RETRY_DELAY_SECS"
    using client_reachable_retry_delay [OF assms(1)] assms(2)
    by (auto simp: retry_delay_ok_def phase_delay_def split: client_phase.splits)
  then have d: "unat d \<in> {4, 8, 16, 32, 64}"
    using retry_seconds by blast
  moreover have "1 < unat d" using d by auto
  ultimately show ?thesis using jitter_bounds [OF assms(3,4)] by blast
qed

definition offer_message :: dhcp_message where
  "offer_message = ack_message\<lparr>msg_opts := [(MessageTypeCode, MessageType Offer)]\<rparr>"

definition sample_client :: client_config where
  "sample_client = \<lparr>cc_dhcproto = scripted_dhcproto (\<lambda>x. if x = 1 then offer_message else ack_message),
     cc_mac = MacAddr 2 0 0 0 0 1, cc_wan_interface = ''eth0''\<rparr>"

definition sample_discovering :: client_state where
  "sample_discovering = snd (client_step sample_client (EvStart 77) client_start)"

lemma sample_discovering_reachable: "client_reachable sample_client sample_discovering"
  unfolding sample_discovering_def
  by (rule client_reachable.step [OF client_reachable.start]) (rule prod.collapse [symmetric])

theorem client_retry_delay_bounded_witness:
  "from_secs 3 \<le> get_jittered_duration (1 / 4) 4 \<and> get_jittered_duration (1 / 4) 4 \<le> from_secs 5"
  using client_retry_delay_bounded [OF sample_discovering_reachable, of 4 "1 / 4"]
  by (simp add: sample_discovering_def client_step_def client_start_def phase_delay_def
      INITIAL_RETRY_DELAY_SECS_def)

section \<open>Configuring and deconfiguring\<close>

text \<open>Configuring the WAN interface, when it succeeds, has made these netlink requests in
  this order: the deletion of every address the dump shows on that interface and of no address
  of another, then link up, then the one new address with the prefix length of its mask, then
  the default route if there is a gateway. On any failure no default route has been requested,
  and with an invalid mask, no connection or an unknown interface nothing has been requested
  at all.\<close>

theorem configure_wan_requests:
  "case configure_wan nl name a m gw of (reqs, res) \<Rightarrow>
     (res = Inr () \<longrightarrow> (\<exists>index n. nl_link nl = Inr (Some index) \<and> mask_to_prefix_len m = Inr n \<and>
        reqs = map DelAddress [x \<leftarrow> nl_dump nl. nl_index x = index] @
          [LinkUp index, AddAddress index a n] @
          (case gw of None \<Rightarrow> [] | Some g \<Rightarrow> [AddDefaultRoute g index])))
   \<and> (res \<noteq> Inr () \<longrightarrow> (\<forall>g index. AddDefaultRoute g index \<notin> set reqs))
   \<and> ((\<exists>e. mask_to_prefix_len m = Inl e) \<or> (\<exists>e. nl_connect nl = Inl e) \<or>
      nl_link nl \<notin> range (\<lambda>i. Inr (Some i)) \<longrightarrow> reqs = [] \<and> res \<noteq> Inr ())
   \<and> (\<forall>x. DelAddress x \<in> set reqs \<longrightarrow> nl_link nl = Inr (Some (nl_index x)))"
  by (auto simp: configure_wan_def Let_def split: sum.splits option.splits)

definition sample_netlink :: netlink where
  "sample_netlink = \<lparr>nl_connect = Inr (), nl_link = Inr (Some 2),
     nl_dump = [\<lparr>nl_index = 1, nl_locals = [ipv4_new 127 0 0 1]\<rparr>,
                \<lparr>nl_index = 2, nl_locals = [ipv4_new 10 0 0 5]\<rparr>],
     nl_dump_error = None, nl_change = (\<lambda>_. None)\<rparr>"

theorem configure_wan_requests_witness:
  "\<exists>index n. nl_link sample_netlink = Inr (Some index) \<and> mask_to_prefix_len (prefix_mask 24) = Inr n \<and>
     fst (configure_wan sample_netlink ''eth0'' (ipv4_new 10 0 0 9) (prefix_mask 24) None) =
       map DelAddress [x \<leftarrow> nl_dump sample_netlink. nl_index x = index] @
       [LinkUp index, AddAddress index (ipv4_new 10 0 0 9) n]"
proof -
  have "mask_to_prefix_len (prefix_mask 24) = Inr 24"
    by (simp add: mask_to_prefix_len_def leading_ones_prefix trailing_zeros_prefix)
  then have "snd (configure_wan sample_netlink ''eth0'' (ipv4_new 10 0 0 9) (prefix_mask 24) None) = Inr ()"
    by (simp add: configure_wan_def sample_netlink_def)
  then show ?thesis
    using configure_wan_requests [where nl = sample_netlink and name = "''eth0''"
        and a = "ipv4_new 10 0 0 9" and m = "prefix_mask 24" and gw = None]
    by (simp add: case_prod_beta)
qed

section \<open>Holding and giving up a lease\<close>

lemma client_reachable_steps:
  "client_reachable c s \<Longrightarrow> client_reachable c (snd (client_step c ev s))"
  by (erule client_reachable.step) (rule prod.collapse [symmetric])

lemma deconfigure_held:
  assumes "mask_to_prefix_len (ack_mask ack) = Inr n" and "nl_connect nl = Inr ()"
    and "nl_link nl = Inr (Some i)"
  shows "deconfigure nl name (lease_of_ack ack) =
    (wan_lease_default,
     map DelAddress [x \<leftarrow> nl_dump nl. nl_index x = i \<and> ack_ip ack \<in> set (nl_locals x)])"
  using assms by (simp add: deconfigure_def lease_of_ack_def deconfigure_wan_def)

lemma leave_bound_held:
  assumes "cs_lease s = lease_of_ack ack" and "mask_to_prefix_len (ack_mask ack) = Inr n"
    and "nl_connect nl = Inr ()" and "nl_link nl = Inr (Some i)"
  shows "leave_bound c nl s =
    (map Netlink (map DelAddress [x \<leftarrow> nl_dump nl. nl_index x = i \<and> ack_ip ack \<in> set (nl_locals x)]),
     client_start)"
  using assms by (simp add: leave_bound_def deconfigure_held client_start_def)


definition sample_bound :: client_state where
  "sample_bound =
     (let s = snd (client_step sample_client
                (EvWaited (1 / 4) [\<lparr>wt_elapsed = 0, wt_elapsed2 = 0, wt_recv = Datagram [1]\<rparr>]
                   sample_netlink 0) sample_discovering)
      in snd (client_step sample_client
                (EvWaited (1 / 4) [\<lparr>wt_elapsed = 0, wt_elapsed2 = 0, wt_recv = Datagram [9]\<rparr>]
                   sample_netlink 0) s))"

lemma sample_bound_reachable: "client_reachable sample_client sample_bound"
  unfolding sample_bound_def Let_def
  by (intro client_reachable_steps sample_discovering_reachable)

lemma default_mask: "mask_to_prefix_len DEFAULT_SUBNET_MASK = Inr 24"
proof -
  have eq: "DEFAULT_SUBNET_MASK = prefix_mask 24"
    by (simp add: DEFAULT_SUBNET_MASK_def ipv4_new_def prefix_mask_def mask_eq_exp_minus_1)
  show ?thesis
    unfolding eq by (simp add: mask_to_prefix_len_def leading_ones_prefix trailing_zeros_prefix)
qed

lemma ack_of_ack_message:
  "ack_of ack_message = \<lparr>ack_ip = ipv4_new 10 0 0 5, ack_mask = DEFAULT_SUBNET_MASK,
     ack_gateway = None, ack_server_ip = None, ack_lease_secs = 3600, ack_dns_servers = []\<rparr>"
  by (simp add: ack_of_def ack_message_def parse_lease_options_def get_server_identifier_def
      opts_get_def hm_get_def DEFAULT_LEASE_SECS_def)

lemma sample_bound_phase: "cs_phase sample_bound = BoundTop (ack_of ack_message) 0"
proof -
  have wait: "0 < get_jittered_duration (1 / 4) 4"
    using jitter_bounds(1) [of "1 / 4" 4] by (simp add: from_secs_def)
  have first: "snd (client_step sample_client
        (EvWaited (1 / 4) [\<lparr>wt_elapsed = 0, wt_elapsed2 = 0, wt_recv = Datagram [1]\<rparr>]
           sample_netlink 0) sample_discovering)
     = \<lparr>cs_phase = AwaitAck 77 \<lparr>offered_ip = ipv4_new 10 0 0 5, offer_server_ip = None\<rparr> 4,
        cs_lease = wan_lease_default\<rparr>"
    using wait
    by (simp add: client_step_def sample_discovering_def client_start_def offer_step_def
        wait_for_offer_def parse_offer_def sample_client_def scripted_dhcproto_def offer_message_def
        ack_message_def message_type_of_def get_server_identifier_def opts_get_def hm_get_def
        INITIAL_RETRY_DELAY_SECS_def)
  have ack: "wait_for_ack (cc_dhcproto sample_client) 77 (get_jittered_duration (1 / 4) 4)
      [\<lparr>wt_elapsed = 0, wt_elapsed2 = 0, wt_recv = Datagram [9]\<rparr>]
     = Some (Inr (Some (AckResult (ack_of ack_message))))"
    using wait
    by (simp add: wait_for_ack_def parse_ack_nak_reply reply_for_def sample_client_def
        scripted_dhcproto_def ack_message_def message_type_of_def opts_get_def hm_get_def)
  have "apply_lease_config sample_netlink name (ipv4_new 10 0 0 5) DEFAULT_SUBNET_MASK
      None [] wan_lease_default =
    (lease_of_ack (ack_of ack_message),
     fst (configure_wan sample_netlink name (ipv4_new 10 0 0 5) DEFAULT_SUBNET_MASK None), Inr ())" for name
    by (simp add: apply_lease_config_def wan_lease_default_def configure_wan_def default_mask
        sample_netlink_def lease_of_ack_def ack_of_ack_message)
  then have "enter_bound sample_client sample_netlink (ack_of ack_message) 0
      \<lparr>cs_phase = p, cs_lease = wan_lease_default\<rparr> =
    (map Netlink (fst (configure_wan sample_netlink ''eth0'' (ipv4_new 10 0 0 5)
        DEFAULT_SUBNET_MASK None)),
     \<lparr>cs_phase = BoundTop (ack_of ack_message) 0, cs_lease = lease_of_ack (ack_of ack_message)\<rparr>)" for p
    by (simp add: enter_bound_def ack_of_ack_message sample_client_def)
  then show ?thesis
    unfolding sample_bound_def Let_def first by (simp add: client_step_def ack_step_def ack)
qed

lemma sample_bound_lease: "cs_lease sample_bound = lease_of_ack (ack_of ack_message)"
  using client_reachable_published [OF sample_bound_reachable]
  by (simp add: published_def sample_bound_phase phase_ack_def)


section \<open>Two limits of the client\<close>

lemma renewal_interval_bound:
  assumes "calculate_renewal_params cur (t2_secs l) l server = (interval, dest, rebinding)" and "cur < l"
  shows "unat cur + unat interval < unat l + 60"
proof -
  have "interval = max (saturating_sub (if rebinding then l else t2_secs l) cur div 2) 60"
    using assms(1) by (auto simp: calculate_renewal_params_def Let_def split: if_splits)
  then have "unat interval = max 60 ((unat (if rebinding then l else t2_secs l) - unat cur) div 2)"
    by (simp only: half_interval_unat)
  moreover have "unat (if rebinding then l else t2_secs l) \<le> unat l"
    using t2_exact [of l] by auto
  moreover have "unat cur < unat l" using assms(2) by (simp add: word_less_nat_alt)
  ultimately show ?thesis by (auto simp: max_def)
qed

text \<open>How late an expiry can be noticed: a turn of the renewal loop that starts before the
  lease is over listens until less than sixty seconds after its end, and no better bound holds:
  with a lease of 100 seconds and 99 of them gone, the client listens for sixty seconds and
  keeps using the expired address for 59 of them.\<close>

theorem renewal_wait_overruns_lease:
  assumes "cs_phase s = RenewTop ack b x sent" and "elapsed_secs now1 b < ack_lease_secs ack"
  shows "(\<exists>sent' interval out. client_step c (EvRenew now1 now2 now3 nl) s =
            (out, s\<lparr>cs_phase := AwaitRenewal ack b x sent' interval\<rparr>) \<and>
            unat (elapsed_secs now1 b) + unat interval < unat (ack_lease_secs ack) + 60)
    \<and> (ack_lease_secs ack = 100 \<and> elapsed_secs now1 b = 99 \<longrightarrow>
         (\<exists>sent'. cs_phase (snd (client_step c (EvRenew now1 now2 now3 nl) s)) =
            AwaitRenewal ack b x sent' 60))"
proof -
  obtain interval dest reb where p: "calculate_renewal_params (elapsed_secs now1 b)
      (t2_secs (ack_lease_secs ack)) (ack_lease_secs ack) (ack_server_ip ack) = (interval, dest, reb)"
    by (cases "calculate_renewal_params (elapsed_secs now1 b)
      (t2_secs (ack_lease_secs ack)) (ack_lease_secs ack) (ack_server_ip ack)")
  have step: "\<exists>sent' out. client_step c (EvRenew now1 now2 now3 nl) s =
      (out, s\<lparr>cs_phase := AwaitRenewal ack b x sent' interval\<rparr>)"
    using assms by (auto simp: client_step_def renew_step_def p Let_def)
  have "interval = 60" if "ack_lease_secs ack = 100" "elapsed_secs now1 b = 99"
  proof -
    have "t2_secs 100 = 87" using t2_exact [of 100] by (simp add: word_unat_eq_iff)
    with p that show ?thesis by (simp add: calculate_renewal_params_def saturating_sub_def)
  qed
  with step renewal_interval_bound [OF p assms(2)] show ?thesis by fastforce
qed

definition short_ack :: dhcp_ack where
  "short_ack = (ack_of ack_message)\<lparr>ack_lease_secs := 100\<rparr>"

definition sample_renewing :: client_state where
  "sample_renewing = \<lparr>cs_phase = RenewTop short_ack 0 1 None, cs_lease = lease_of_ack short_ack\<rparr>"

theorem renewal_wait_overruns_lease_witness:
  "\<exists>sent'. cs_phase (snd (client_step sample_client
     (EvRenew (from_secs 99) (from_secs 99) (from_secs 99) sample_netlink) sample_renewing)) =
     AwaitRenewal short_ack 0 1 sent' 60"
  using renewal_wait_overruns_lease [of sample_renewing short_ack 0 1 None "from_secs 99"]
  by (simp add: sample_renewing_def elapsed_secs_def short_ack_def)

text \<open>A failed configuration is not tried again: when an acknowledgement's lease is
  published but configuring the interface fails, the client starts over, and if the server then
  acknowledges the same lease, the client counts as bound without having made a single netlink
  request, so the interface stays without the address.\<close>

theorem failed_configuration_is_not_retried:
  assumes "enter_bound c nl ack now s = (out, s')" and "cs_phase s' = Idle"
  shows "cs_lease s' = lease_of_ack ack
    \<and> enter_bound c nl' ack now' s' = ([], s'\<lparr>cs_phase := BoundTop ack now'\<rparr>)"
proof -
  have held: "cs_lease s' = lease_of_ack ack"
    using apply_lease [of nl "cc_wan_interface c" ack "cs_lease s"] assms
    by (auto simp: enter_bound_def split: prod.splits sum.splits)
  then have "apply_lease_config nl' (cc_wan_interface c) (ack_ip ack) (ack_mask ack)
      (ack_gateway ack) (ack_dns_servers ack) (cs_lease s') = (cs_lease s', [], Inr ())"
    by (simp add: apply_lease_config_def lease_of_ack_def)
  with held show ?thesis by (cases s') (simp add: enter_bound_def)
qed

definition no_link :: netlink where
  "no_link = sample_netlink\<lparr>nl_link := Inr None\<rparr>"

theorem failed_configuration_is_not_retried_witness:
  "fst (enter_bound sample_client sample_netlink (ack_of ack_message) 5
     (snd (enter_bound sample_client no_link (ack_of ack_message) 0 client_start))) = []"
proof -
  have fails: "enter_bound sample_client no_link (ack_of ack_message) 0 client_start =
      ([], client_start\<lparr>cs_lease := lease_of_ack (ack_of ack_message)\<rparr>)"
    by (simp add: enter_bound_def ack_of_ack_message apply_lease_config_def client_start_def
        wan_lease_default_def configure_wan_def default_mask no_link_def sample_netlink_def
        lease_of_ack_def)
  then show ?thesis
    using failed_configuration_is_not_retried [OF fails, of sample_netlink 5]
    by (simp add: client_start_def)
qed

end
