(* ===== verification/Dhcp_Client_Live.thy ===== *)
theory Dhcp_Client_Live
  imports Dhcp_Client_Run Machines
begin

text \<open>
  Progress of the DHCP client: as a \<open>machine_invariant\<close> it keeps its published lease and its
  retry delays right, and as a \<open>progress_machine\<close> it comes to hold a lease once the server
  answers. The other side is stated too: while the server is silent the request phase goes on
  for ever with the same offer.
\<close>

section \<open>The invariant\<close>

definition client_inv :: "client_state \<Rightarrow> bool" where
  "client_inv s \<longleftrightarrow> published s \<and> retry_delay_ok (cs_phase s)"

lemma client_inv_step: "client_inv s \<Longrightarrow> client_inv (snd (client_step c ev s))"
  by (simp add: client_inv_def client_step_published client_step_retry_delay)

lemma client_reachable_client_inv: "client_reachable c s \<Longrightarrow> client_inv s"
  by (simp add: client_inv_def client_reachable_published client_reachable_retry_delay)

section \<open>Progress of a negotiation\<close>

fun phase_left :: "client_phase \<Rightarrow> nat" where
  "phase_left Idle = 3"
| "phase_left (AwaitOffer _ _) = 2"
| "phase_left (AwaitAck _ _ _) = 1"
| "phase_left _ = 0"

text \<open>The configuration an acknowledgement asks for succeeds.\<close>

definition config_succeeds :: "client_config \<Rightarrow> netlink \<Rightarrow> dhcp_ack \<Rightarrow> wan_lease \<Rightarrow> bool" where
  "config_succeeds c nl ack L \<longleftrightarrow>
     snd (snd (apply_lease_config nl (cc_wan_interface c) (ack_ip ack) (ack_mask ack)
       (ack_gateway ack) (ack_dns_servers ack) L)) = Inr ()"

text \<open>
  An event that takes an unbound client one phase on: the discovery starts, an offer comes, or
  an acknowledgement comes and its configuration succeeds.
\<close>

definition answered :: "client_config \<Rightarrow> client_state \<Rightarrow> client_event \<Rightarrow> bool" where
  "answered c s ev =
     (case (cs_phase s, ev) of
        (Idle, EvStart _) \<Rightarrow> True
      | (AwaitOffer xid delay, EvWaited r ws _ _) \<Rightarrow>
          (case wait_for_offer (cc_dhcproto c) xid (get_jittered_duration r delay) ws of
             Some (Inr (Some _)) \<Rightarrow> True | _ \<Rightarrow> False)
      | (AwaitAck xid _ delay, EvWaited r ws nl _) \<Rightarrow>
          (case wait_for_ack (cc_dhcproto c) xid (get_jittered_duration r delay) ws of
             Some (Inr (Some (AckResult ack))) \<Rightarrow> config_succeeds c nl ack (cs_lease s)
           | _ \<Rightarrow> False)
      | _ \<Rightarrow> False)"

text \<open>
  An event that does not throw an unbound client back: no error of the socket, no NAK, and no
  failed configuration. Silence and stray traffic are undisturbed.
\<close>

definition undisturbed :: "client_config \<Rightarrow> client_state \<Rightarrow> client_event \<Rightarrow> bool" where
  "undisturbed c s ev =
     (case (cs_phase s, ev) of
        (AwaitOffer xid delay, EvWaited r ws _ _) \<Rightarrow>
          (case wait_for_offer (cc_dhcproto c) xid (get_jittered_duration r delay) ws of
             Some (Inl _) \<Rightarrow> False | _ \<Rightarrow> True)
      | (AwaitAck xid _ delay, EvWaited r ws nl _) \<Rightarrow>
          (case wait_for_ack (cc_dhcproto c) xid (get_jittered_duration r delay) ws of
             Some (Inl _) \<Rightarrow> False
           | Some (Inr (Some (AckResult ack))) \<Rightarrow> config_succeeds c nl ack (cs_lease s)
           | Some (Inr (Some NakResult)) \<Rightarrow> False
           | _ \<Rightarrow> True)
      | _ \<Rightarrow> True)"

lemma enter_bound_succeeds:
  "config_succeeds c nl ack (cs_lease s) \<Longrightarrow>
     cs_phase (snd (enter_bound c nl ack now s)) = BoundTop ack now"
  by (auto simp: config_succeeds_def enter_bound_def split: prod.split)

interpretation negotiation: progress_machine "client_step c" client_inv "\<lambda>s. phase_left (cs_phase s)"
    "undisturbed c" "answered c" for c
proof unfold_locales
  fix s ev
  show "client_inv s \<Longrightarrow> client_inv (snd (client_step c ev s))" by (rule client_inv_step)
  assume "0 < phase_left (cs_phase s)"
  then consider "cs_phase s = Idle" | xid d where "cs_phase s = AwaitOffer xid d"
    | xid off d where "cs_phase s = AwaitAck xid off d"
    by (cases "cs_phase s") simp_all
  note phases = this
  show "phase_left (cs_phase (snd (client_step c ev s))) \<le> phase_left (cs_phase s)"
    if "undisturbed c s ev"
    using phases that
    by cases (cases ev; simp add: client_step_def undisturbed_def offer_step_def ack_step_def Let_def
        enter_bound_succeeds split: option.splits sum.splits parse_ack_result.splits)+
  show "phase_left (cs_phase (snd (client_step c ev s))) < phase_left (cs_phase s)"
    if "answered c s ev"
    using phases that
    by cases (cases ev; simp add: client_step_def answered_def offer_step_def ack_step_def Let_def
        enter_bound_succeeds split: option.splits sum.splits parse_ack_result.splits)+
qed

lemma phase_left_zero: "phase_left ph = 0 \<longleftrightarrow> phase_ack ph \<noteq> None"
  by (cases ph) (simp_all add: phase_ack_def)

section \<open>The client gets its lease\<close>

text \<open>C10: A client whose server answers gets a lease. In any endless run of the client from a
  reachable state, if while it is without a lease it meets no error, no refusal and no failed
  configuration, and is answered again and again (however much silence and stray traffic lies
  between), it comes to hold an acknowledged lease, and what it has published to the other
  services is that lease.\<close>

theorem client_obtains_lease:
  assumes "client_reachable c s"
    and "\<forall>n. phase_ack (cs_phase (trajectory (client_step c) evs s n)) = None \<longrightarrow>
           undisturbed c (trajectory (client_step c) evs s n) (evs n) \<and>
           (\<exists>m \<ge> n. answered c (trajectory (client_step c) evs s m) (evs m))"
  shows "\<exists>n ack. phase_ack (cs_phase (trajectory (client_step c) evs s n)) = Some ack \<and>
    cs_lease (trajectory (client_step c) evs s n) = lease_of_ack ack"
proof -
  have inv: "client_inv s" using assms(1) by (rule client_reachable_client_inv)
  have "negotiation.fair c evs s"
    using assms(2) unfolding negotiation.fair_def by (metis neq0_conv phase_left_zero)
  with inv obtain n where "phase_left (cs_phase (trajectory (client_step c) evs s n)) = 0"
    using negotiation.reaches_goal by blast
  then obtain ack where ack: "phase_ack (cs_phase (trajectory (client_step c) evs s n)) = Some ack"
    using phase_left_zero by blast
  moreover have "published (trajectory (client_step c) evs s n)"
    using negotiation.inv_trajectory [OF inv] by (simp add: client_inv_def)
  ultimately show ?thesis unfolding published_def by blast
qed

definition sample_wait :: "u8 \<Rightarrow> client_event" where
  "sample_wait x = EvWaited (1 / 4) [\<lparr>wt_elapsed = 0, wt_elapsed2 = 0, wt_recv = Datagram [x]\<rparr>]
     sample_netlink 0"

definition sample_schedule :: "nat \<Rightarrow> client_event" where
  "sample_schedule n = (if n = 1 then sample_wait 1 else if n = 2 then sample_wait 9 else EvStart 77)"

definition sample_requesting :: client_state where
  "sample_requesting = snd (client_step sample_client (sample_wait 1) sample_discovering)"

lemma sample_trajectory:
  "trajectory (client_step sample_client) sample_schedule client_start 1 = sample_discovering"
  "trajectory (client_step sample_client) sample_schedule client_start 2 = sample_requesting"
  "trajectory (client_step sample_client) sample_schedule client_start 3 = sample_bound"
  by (simp_all add: numeral_2_eq_2 numeral_3_eq_3 sample_schedule_def sample_discovering_def
      sample_requesting_def sample_bound_def sample_wait_def Let_def)

lemma sample_discovering_phase: "cs_phase sample_discovering = AwaitOffer 77 4"
  by (simp add: sample_discovering_def client_step_def client_start_def INITIAL_RETRY_DELAY_SECS_def)

lemma bound_ignores_start:
  "cs_phase s = BoundTop ack b \<Longrightarrow> client_step c (EvStart x) s = ([], s)"
  by (simp add: client_step_def)

lemma sample_trajectory_bound:
  "cs_phase (trajectory (client_step sample_client) sample_schedule client_start (3 + k)) =
     BoundTop (ack_of ack_message) 0"
proof (induction k)
  case 0
  show ?case by (simp only: add_0_right sample_trajectory sample_bound_phase)
next
  case (Suc k)
  have "trajectory (client_step sample_client) sample_schedule client_start (3 + Suc k) =
      snd (client_step sample_client (EvStart 77)
        (trajectory (client_step sample_client) sample_schedule client_start (3 + k)))"
    by (simp only: add_Suc_right trajectory.simps) (simp add: sample_schedule_def)
  then show ?case using bound_ignores_start [OF Suc.IH, of sample_client] Suc.IH by simp
qed

lemma sample_offer_wait:
  "wait_for_offer (cc_dhcproto sample_client) 77 (get_jittered_duration (1 / 4) 4)
     [\<lparr>wt_elapsed = 0, wt_elapsed2 = 0, wt_recv = Datagram [1]\<rparr>] =
   Some (Inr (Some \<lparr>offered_ip = ipv4_new 10 0 0 5, offer_server_ip = None\<rparr>))"
  using jitter_bounds(1) [of "1 / 4" 4]
  by (simp add: from_secs_def wait_for_offer_def parse_offer_def sample_client_def scripted_dhcproto_def
      offer_message_def ack_message_def message_type_of_def get_server_identifier_def opts_get_def hm_get_def)

lemma sample_ack_wait:
  "wait_for_ack (cc_dhcproto sample_client) 77 (get_jittered_duration (1 / 4) 4)
     [\<lparr>wt_elapsed = 0, wt_elapsed2 = 0, wt_recv = Datagram [9]\<rparr>] =
   Some (Inr (Some (AckResult (ack_of ack_message))))"
  using jitter_bounds(1) [of "1 / 4" 4]
  by (simp add: from_secs_def wait_for_ack_def parse_ack_nak_reply reply_for_def sample_client_def
      scripted_dhcproto_def ack_message_def message_type_of_def opts_get_def hm_get_def)

lemma sample_requesting_eq:
  "sample_requesting = \<lparr>cs_phase = AwaitAck 77 \<lparr>offered_ip = ipv4_new 10 0 0 5, offer_server_ip = None\<rparr> 4,
     cs_lease = wan_lease_default\<rparr>"
  unfolding sample_requesting_def sample_wait_def
  by (simp add: client_step_def sample_discovering_def client_start_def offer_step_def sample_offer_wait
      INITIAL_RETRY_DELAY_SECS_def)

lemma sample_config: "config_succeeds sample_client sample_netlink (ack_of ack_message) wan_lease_default"
  by (simp add: config_succeeds_def apply_lease_config_def wan_lease_default_def configure_wan_def
      default_mask sample_netlink_def ack_of_ack_message)

lemma sample_schedule_answered:
  "n < 3 \<Longrightarrow> answered sample_client
     (trajectory (client_step sample_client) sample_schedule client_start n) (sample_schedule n) \<and>
   undisturbed sample_client
     (trajectory (client_step sample_client) sample_schedule client_start n) (sample_schedule n)"
proof -
  assume "n < 3"
  then consider "n = 0" | "n = 1" | "n = 2" by linarith
  then show ?thesis
  proof cases
    case 1
    then show ?thesis by (simp add: answered_def undisturbed_def client_start_def sample_schedule_def)
  next
    case 2
    have "sample_schedule 1 = sample_wait 1" by (simp add: sample_schedule_def)
    then show ?thesis
      unfolding 2 sample_trajectory
      by (simp add: answered_def undisturbed_def sample_discovering_phase sample_wait_def sample_offer_wait)
  next
    case 3
    have "sample_schedule 2 = sample_wait 9" by (simp add: sample_schedule_def)
    then show ?thesis
      unfolding 3 sample_trajectory
      by (simp add: answered_def undisturbed_def sample_requesting_eq sample_wait_def sample_ack_wait
          sample_config)
  qed
qed

theorem client_obtains_lease_witness:
  "\<exists>n ack. phase_ack (cs_phase (trajectory (client_step sample_client) sample_schedule client_start n)) = Some ack"
proof -
  have "n < 3" if "phase_ack (cs_phase (trajectory (client_step sample_client) sample_schedule client_start n)) = None" for n
  proof (rule ccontr)
    assume "\<not> n < 3"
    then obtain k where "n = 3 + k" by (metis le_Suc_ex not_less)
    with that sample_trajectory_bound [of k] show False by (simp add: phase_ack_def)
  qed
  then show ?thesis
    using client_obtains_lease [OF client_reachable.start, of sample_client sample_schedule]
      sample_schedule_answered by (metis le_refl)
qed

section \<open>While the server is silent\<close>

text \<open>A wait that times out in its first turn.\<close>

definition silent :: "client_event \<Rightarrow> bool" where
  "silent ev = (case ev of EvWaited _ (w # _) _ _ \<Rightarrow> wt_recv w = TimedOut | _ \<Rightarrow> False)"

lemma silent_step:
  assumes "silent ev" and "cs_phase s = AwaitAck xid off d"
  shows "client_step c ev s =
    ([send_request_action c xid off], s\<lparr>cs_phase := AwaitAck xid off (calculate_next_delay d)\<rparr>)"
proof -
  from assms(1) obtain r w ws nl now where "ev = EvWaited r (w # ws) nl now" "wt_recv w = TimedOut"
    by (auto simp: silent_def split: client_event.splits list.splits)
  with assms(2) show ?thesis by (simp add: client_step_def ack_step_def wait_for_ack_def)
qed

lemma silent_run:
  assumes "cs_phase s = AwaitAck xid off d" and "\<forall>ev \<in> set evs. silent ev"
  shows "\<exists>d'. run_events (client_step c) evs s = s\<lparr>cs_phase := AwaitAck xid off d'\<rparr>"
  using assms
proof (induction evs arbitrary: s d)
  case Nil
  then show ?case by (intro exI [of _ d]) simp
next
  case (Cons e es)
  let ?s = "s\<lparr>cs_phase := AwaitAck xid off (calculate_next_delay d)\<rparr>"
  have "client_step c e s = ([send_request_action c xid off], ?s)"
    using Cons.prems by (intro silent_step) simp_all
  moreover obtain d' where "run_events (client_step c) es ?s = ?s\<lparr>cs_phase := AwaitAck xid off d'\<rparr>"
    using Cons.IH [of ?s "calculate_next_delay d"] Cons.prems(2) by auto
  ultimately show ?case by (intro exI [of _ d']) simp
qed

text \<open>The request phase has no limit of its own: as long as nothing comes back, however many
  time-outs pass, the client repeats the same REQUEST for the same offer and never goes back to
  discovery, so a server that disappears after its offer keeps the router without a lease for as
  long as it is away.\<close>

theorem request_phase_never_gives_up:
  assumes "cs_phase s = AwaitAck xid off d" and "\<forall>ev \<in> set evs. silent ev" and "silent ev"
  shows "\<exists>s'. run_events (client_step c) evs s = s' \<and> (\<exists>d'. s' = s\<lparr>cs_phase := AwaitAck xid off d'\<rparr>) \<and>
    fst (client_step c ev s') = [send_request_action c xid off]"
  using silent_run [OF assms(1,2), of c] silent_step [OF assms(3)] by fastforce

definition sample_silence :: client_event where
  "sample_silence = EvWaited (1 / 2) [\<lparr>wt_elapsed = 0, wt_elapsed2 = 0, wt_recv = TimedOut\<rparr>]
     sample_netlink 0"

theorem request_phase_never_gives_up_witness:
  "\<exists>s' d'. run_events (client_step sample_client) (replicate 100 sample_silence) sample_requesting = s' \<and>
     cs_phase s' = AwaitAck 77 \<lparr>offered_ip = ipv4_new 10 0 0 5, offer_server_ip = None\<rparr> d'"
proof -
  have "silent sample_silence" by (simp add: silent_def sample_silence_def)
  then show ?thesis
    using request_phase_never_gives_up [of sample_requesting 77
        "\<lparr>offered_ip = ipv4_new 10 0 0 5, offer_server_ip = None\<rparr>" 4 "replicate 100 sample_silence"]
    by (fastforce simp: sample_requesting_eq)
qed

end
