(* ===== verification/Router.thy ===== *)
theory Router
  imports Dns_Liveness Dhcp_Client_Live
begin

text \<open>
  The services that share the WAN lease, run together: \<open>run_as_init\<close> of \<open>src/main.rs\<close> gives the
  DHCP client and the DNS forwarder the same \<open>SharedWanLease\<close>. The router's machine interleaves
  the steps of the two machines in any order; what the client has published is what the
  forwarder reads. Its runs project to runs of the components, so what is proved of them holds
  here too, and what the forwarder learns from the lease is traced back to the acknowledgements
  the client received.
\<close>

section \<open>The machine\<close>

record router_state =
  rt_client :: client_state
  rt_dns :: dns_state

text \<open>An event of a component; the forwarder's own event of a new lease is the client's step.\<close>

datatype router_event = ClientEvent client_event | ForwarderEvent dns_event

datatype router_output = ClientDid client_action | ForwarderDid dns_output

definition router_start :: router_state where
  "router_start = \<lparr>rt_client = client_start, rt_dns = dns_start\<rparr>"

fun publishes_lease :: "dns_event \<Rightarrow> bool" where
  "publishes_lease (EvLease L) = True"
| "publishes_lease _ = False"

definition router_step ::
  "client_config \<Rightarrow> dns_parser \<Rightarrow> router_event \<Rightarrow> router_state \<Rightarrow> router_output list \<times> router_state" where
  "router_step c parse ev s =
     (case ev of
        ClientEvent e \<Rightarrow>
          (let (acts, client) = client_step c e (rt_client s)
           in (map ClientDid acts,
               s\<lparr>rt_client := client, rt_dns := (rt_dns s)\<lparr>ds_lease := cs_lease client\<rparr>\<rparr>))
      | ForwarderEvent e \<Rightarrow>
          if publishes_lease e then ([], s)
          else (let (outs, dns) = dns_step parse e (rt_dns s)
                in (map ForwarderDid outs, s\<lparr>rt_dns := dns\<rparr>)))"

section \<open>Projections\<close>

fun client_events :: "router_event list \<Rightarrow> client_event list" where
  "client_events [] = []"
| "client_events (ClientEvent e # evs) = e # client_events evs"
| "client_events (ForwarderEvent e # evs) = client_events evs"

text \<open>What the forwarder sees of a run, from a state of the client.\<close>

fun forwarder_events :: "client_config \<Rightarrow> router_event list \<Rightarrow> client_state \<Rightarrow> dns_event list" where
  "forwarder_events c [] cl = []"
| "forwarder_events c (ClientEvent e # evs) cl =
     (let cl' = snd (client_step c e cl) in EvLease (cs_lease cl') # forwarder_events c evs cl')"
| "forwarder_events c (ForwarderEvent e # evs) cl =
     (if publishes_lease e then forwarder_events c evs cl else e # forwarder_events c evs cl)"

lemma router_client:
  "rt_client (run_events (router_step c parse) evs s) =
     run_events (client_step c) (client_events evs) (rt_client s)"
proof (induction evs arbitrary: s rule: client_events.induct)
  case (2 e evs)
  then show ?case by (simp add: router_step_def case_prod_beta)
next
  case (3 e evs)
  then show ?case by (simp add: router_step_def case_prod_beta)
qed simp

lemma router_forwarder:
  "rt_dns (run_events (router_step c parse) evs s) =
     run_events (dns_step parse) (forwarder_events c evs (rt_client s)) (rt_dns s)"
proof (induction evs arbitrary: s rule: client_events.induct)
  case (2 e evs)
  have "snd (dns_step parse (EvLease L) d) = d\<lparr>ds_lease := L\<rparr>" for L d
    by (simp add: dns_step_def)
  with 2 show ?case by (simp add: router_step_def case_prod_beta Let_def)
next
  case (3 e evs)
  then show ?case by (simp add: router_step_def case_prod_beta)
qed simp

text \<open>The lease both components see is one and the same.\<close>

definition lease_shared :: "router_state \<Rightarrow> bool" where
  "lease_shared s \<longleftrightarrow> ds_lease (rt_dns s) = cs_lease (rt_client s) \<and> client_inv (rt_client s)"

lemma task_step_lease: "ds_lease (snd (task_step parse ev t task s)) = ds_lease s"
  by (auto simp: task_step_def lookup_step_def register_step_def wake_step_def set_phase_def Let_def
      split: task_phase.split dns_event.split option.split prod.split sum.split registration.split
        mailbox.split)

lemma dns_step_lease: "\<not> publishes_lease ev \<Longrightarrow> ds_lease (snd (dns_step parse ev s)) = ds_lease s"
  by (cases ev) (auto simp: dns_step_def reply_step_def task_step_lease Let_def
      split: option.split prod.split)

interpretation shared: machine_invariant "router_step c parse" lease_shared for c parse
proof
  fix s ev
  assume "lease_shared s"
  then show "lease_shared (snd (router_step c parse ev s))"
    using client_inv_step dns_step_lease
    by (cases ev) (auto simp: lease_shared_def router_step_def case_prod_beta)
qed

lemma router_start_shared: "lease_shared router_start"
  using client_reachable_client_inv [OF client_reachable.start]
  by (simp add: lease_shared_def router_start_def client_start_def dns_start_def)

section \<open>Where a lease comes from\<close>

definition awaited_xid :: "client_phase \<Rightarrow> u32 option" where
  "awaited_xid ph = (case ph of
      AwaitAck xid _ _ \<Rightarrow> Some xid
    | AwaitRenewal _ _ xid _ _ \<Rightarrow> Some xid
    | _ \<Rightarrow> None)"

text \<open>A message of type ACK that came in a wait for one, with the transaction id waited for.\<close>

definition ack_in :: "client_config \<Rightarrow> client_state \<Rightarrow> client_event \<Rightarrow> dhcp_message \<Rightarrow> bool" where
  "ack_in c s ev d \<longleftrightarrow>
     (\<exists>r ws nl now w buf xid. ev = EvWaited r ws nl now \<and> w \<in> set ws \<and> wt_recv w = Datagram buf \<and>
        awaited_xid (cs_phase s) = Some xid \<and>
        reply_for (cc_dhcproto c) xid (take 2048 buf) = Some d \<and> message_type_of d = Some Ack)"

definition ack_received :: "client_config \<Rightarrow> client_event list \<Rightarrow> dhcp_message \<Rightarrow> bool" where
  "ack_received c es d \<longleftrightarrow>
     (\<exists>pre ev post. es = pre @ ev # post \<and> ack_in c (run_events (client_step c) pre client_start) ev d)"

lemma wait_for_ack_ack_in:
  assumes "awaited_xid (cs_phase s) = Some xid"
    and "wait_for_ack (cc_dhcproto c) xid timeout ws = Some (Inr (Some (AckResult ack)))"
  shows "\<exists>d. (\<forall>r nl now. ack_in c s (EvWaited r ws nl now) d) \<and> ack = ack_of d"
  using wait_for_ack_accepts [OF assms(2)] assms(1) unfolding ack_in_def by fastforce

lemma withdrawn_lease:
  "cs_lease (snd (give_up c nl s)) = wan_lease_default"
  "cs_lease (snd (leave_bound c nl s)) = wan_lease_default"
  by (simp_all add: give_up_def leave_bound_def deconfigure_def)

text \<open>A step keeps the published lease, withdraws it, or publishes that of an acknowledgement.\<close>

lemma client_step_lease:
  "cs_lease (snd (client_step c ev s)) \<in> {cs_lease s, wan_lease_default} \<or>
     (\<exists>d. ack_in c s ev d \<and> cs_lease (snd (client_step c ev s)) = lease_of_ack (ack_of d))"
proof (cases "cs_phase s")
  case Idle
  then show ?thesis by (cases ev) (simp_all add: client_step_def)
next
  case (AwaitOffer xid d)
  then show ?thesis
    by (cases ev) (auto simp: client_step_def offer_step_def withdrawn_lease split: option.split sum.split)
next
  case (AwaitAck xid off d)
  then have "awaited_xid (cs_phase s) = Some xid" by (simp add: awaited_xid_def)
  note accepted = wait_for_ack_ack_in [OF this]
  from AwaitAck show ?thesis
    by (cases ev) (auto simp: client_step_def ack_step_def Let_def withdrawn_lease enter_bound_lease
        dest!: accepted split: option.split sum.split parse_ack_result.split)
next
  case (BoundTop a b)
  then show ?thesis
    by (cases ev) (auto simp: client_step_def bound_step_def Let_def withdrawn_lease)
next
  case (RenewTop a b xid sent)
  then show ?thesis
    by (cases ev) (auto simp: client_step_def renew_step_def Let_def withdrawn_lease split: prod.split)
next
  case (AwaitRenewal a b xid sent i)
  then have "awaited_xid (cs_phase s) = Some xid" by (simp add: awaited_xid_def)
  note accepted = wait_for_ack_ack_in [OF this]
  from AwaitRenewal show ?thesis
    by (cases ev) (auto simp: client_step_def renewal_step_def Let_def withdrawn_lease enter_bound_lease
        dest!: accepted split: option.split sum.split parse_ack_result.split)
qed

lemma ack_received_append: "ack_received c es d \<Longrightarrow> ack_received c (es @ es') d"
  unfolding ack_received_def by (metis append.assoc append_Cons)

text \<open>The lease of a client that has seen the events \<open>es\<close> since its start is empty or an
  acknowledgement's.\<close>

definition lease_origin :: "client_config \<Rightarrow> client_event list \<Rightarrow> wan_lease \<Rightarrow> bool" where
  "lease_origin c es L \<longleftrightarrow>
     L = wan_lease_default \<or> (\<exists>d. ack_received c es d \<and> L = lease_of_ack (ack_of d))"

lemma lease_origin_append: "lease_origin c es L \<Longrightarrow> lease_origin c (es @ es') L"
  unfolding lease_origin_def using ack_received_append by blast

lemma client_run_lease: "lease_origin c es (cs_lease (run_events (client_step c) es client_start))"
proof (induction es rule: rev_induct)
  case Nil
  show ?case by (simp add: lease_origin_def client_start_def)
next
  case (snoc e es)
  let ?s = "run_events (client_step c) es client_start"
  have received: "ack_received c (es @ [e]) d" if "ack_in c ?s e d" for d
    using that unfolding ack_received_def by blast
  from client_step_lease [of c e ?s] show ?case
  proof (elim disjE insertE exE conjE, goal_cases)
    case 1
    with lease_origin_append [OF snoc.IH] show ?case by simp
  next
    case (4 d)
    with received show ?case by (auto simp: lease_origin_def)
  qed (simp_all add: lease_origin_def)
qed

lemma forwarder_events_origin:
  "ev \<in> set (forwarder_events c evs (run_events (client_step c) pre client_start)) \<Longrightarrow>
     (case ev of EvLease L \<Rightarrow> lease_origin c (pre @ client_events evs) L
      | _ \<Rightarrow> ForwarderEvent ev \<in> set evs)"
proof (induction evs arbitrary: pre rule: client_events.induct)
  case (2 e evs)
  let ?L = "cs_lease (run_events (client_step c) (pre @ [e]) client_start)"
  have "lease_origin c (pre @ e # client_events evs) ?L"
    using lease_origin_append [OF client_run_lease [of c "pre @ [e]"], of "client_events evs"] by simp
  moreover have "ev = EvLease ?L \<or> ev \<in> set (forwarder_events c evs
      (run_events (client_step c) (pre @ [e]) client_start))"
    using 2(2) by (simp add: Let_def)
  ultimately show ?case using 2(1) [of "pre @ [e]"] by (auto split: dns_event.splits)
next
  case (3 e evs)
  then have "ev = e \<and> \<not> publishes_lease e \<or>
      ev \<in> set (forwarder_events c evs (run_events (client_step c) pre client_start))"
    by (simp split: if_splits)
  then show ?case
  proof
    assume "ev = e \<and> \<not> publishes_lease e"
    then show ?case by (cases e) simp_all
  qed (use 3(1) [of pre] in \<open>auto split: dns_event.splits\<close>)
qed simp

section \<open>The router as a whole\<close>

text \<open>The servers the forwarder may use: the fallback, and the first DNS server of an ACK that
  came in a wait of the client, with the transaction id of its request.\<close>

definition trusted_server :: "client_config \<Rightarrow> client_event list \<Rightarrow> ipv4 \<Rightarrow> bool" where
  "trusted_server c es u \<longleftrightarrow>
     u = ipv4_new 8 8 8 8 \<or>
     (\<exists>d rest. ack_received c es d \<and> lo_dns_servers (parse_lease_options d) = u # rest)"

lemma lease_origin_trusted:
  "lease_origin c es L \<Longrightarrow> wl_dns_servers L = u # rest \<Longrightarrow> trusted_server c es u"
  by (auto simp: lease_origin_def trusted_server_def wan_lease_default_def lease_of_ack_def ack_of_def)

lemma router_dns_run:
  "dns_run parse (rev (forwarder_events c evs client_start))
     (rt_dns (run_events (router_step c parse) evs router_start))"
  using dns_run_exec [OF dns_run.start, of parse "forwarder_events c evs client_start"]
  by (simp add: router_forwarder router_start_def run_events_def [of "dns_step parse"] dns_exec_def)

lemma router_known_upstream:
  assumes "known_upstream (insert e (set (forwarder_events c evs client_start))) u"
    and "\<not> publishes_lease e"
  shows "trusted_server c (client_events evs) u"
proof -
  have "trusted_server c (client_events evs) u"
    if "EvLease L \<in> set (forwarder_events c evs client_start)" "wl_dns_servers L = u # rest" for L rest
    using forwarder_events_origin [of "EvLease L" c evs "[]"] that lease_origin_trusted by simp
  with assms show ?thesis by (auto simp: known_upstream_def trusted_server_def FALLBACK_DNS_SERVER_def)
qed

lemma router_outputs:
  assumes "s = run_events (router_step c parse) evs router_start"
    and "router_step c parse ev s = (outs, s')" and "ForwarderDid out \<in> set outs"
  shows "\<exists>e. ev = ForwarderEvent e \<and> \<not> publishes_lease e \<and>
    output_ok parse (insert e (set (forwarder_events c evs client_start))) out"
proof -
  from assms(2,3) obtain e where e: "ev = ForwarderEvent e" "\<not> publishes_lease e"
    "out \<in> set (fst (dns_step parse e (rt_dns s)))"
    by (cases ev) (auto simp: router_step_def case_prod_beta split: if_splits)
  with dns_run_outputs [OF router_dns_run prod.collapse [symmetric] e(3) [unfolded assms(1)]]
  show ?thesis by (auto simp: assms(1))
qed

text \<open>An answer is a reply from a trusted server to a query of the client it is sent to.\<close>

lemma router_answers:
  assumes "s = run_events (router_step c parse) evs router_start"
    and "router_step c parse ev s = (outs, s')" and "ForwarderDid (Answer r src) \<in> set outs"
  shows "\<exists>q reply u. ForwarderEvent (EvQuery q src) \<in> set (evs @ [ev]) \<and>
    ForwarderEvent (EvReply reply u) \<in> set (evs @ [ev]) \<and> trusted_server c (client_events evs) u \<and>
    r = take 2 q @ drop 2 (take 4096 reply)"
proof -
  let ?E = "\<lambda>e. insert e (set (forwarder_events c evs client_start))"
  have seen: "ForwarderEvent x \<in> set (evs @ [ForwarderEvent e])"
    if "x \<in> ?E e" "\<not> publishes_lease x" for x e
    using forwarder_events_origin [of x c evs "[]"] that by (cases x) auto
  from router_outputs [OF assms] obtain e where e: "ev = ForwarderEvent e" "\<not> publishes_lease e"
    "output_ok parse (?E e) (Answer r src)" by blast
  from genuine_answer [OF e(3)] obtain q reply u where
    "EvQuery q src \<in> ?E e" "EvReply reply u \<in> ?E e" "known_upstream (?E e) u"
    "r = take 2 q @ drop 2 (take 4096 reply)" by blast
  then show ?thesis
    using seen [of _ e] router_known_upstream [OF _ e(2)] unfolding e(1) by (metis publishes_lease.simps(2,10))
qed

text \<open>C6: The router as a whole resolves names only through servers its provider's DHCP server
  named. In every interleaving of the DHCP client with the tasks of the DNS forwarder, an answer
  to a client on the LAN is a reply that really came from a trusted server, to a client's query
  and under its transaction id, and queries are sent to trusted servers only: the fallback, or
  the first DNS server in an ACK that the client received with the transaction id of its own
  request. While the client is bound, the server in use is that of the acknowledgement.\<close>

theorem router_resolves_through_acknowledged_servers:
  assumes "s = run_events (router_step c parse) evs router_start"
    and "router_step c parse ev s = (outs, s')"
  shows "(ForwarderDid (Answer r src) \<in> set outs \<longrightarrow>
      (\<exists>q reply u. ForwarderEvent (EvQuery q src) \<in> set (evs @ [ev]) \<and>
         ForwarderEvent (EvReply reply u) \<in> set (evs @ [ev]) \<and> trusted_server c (client_events evs) u \<and>
         r = take 2 q @ drop 2 (take 4096 reply)))
    \<and> (ForwarderDid (SendUpstream f v) \<in> set outs \<longrightarrow> trusted_server c (client_events evs) v)
    \<and> (phase_ack (cs_phase (rt_client s)) = Some ack \<longrightarrow>
         get_upstream_dns (ds_lease (rt_dns s)) = get_upstream_dns (lease_of_ack ack))"
proof -
  have "trusted_server c (client_events evs) v" if "ForwarderDid (SendUpstream f v) \<in> set outs"
    using router_outputs [OF assms that] router_known_upstream by fastforce
  moreover have "get_upstream_dns (ds_lease (rt_dns s)) = get_upstream_dns (lease_of_ack ack)"
    if "phase_ack (cs_phase (rt_client s)) = Some ack"
    using shared.inv_run [OF router_start_shared, of c parse evs] that
    by (simp add: assms(1) lease_shared_def client_inv_def published_def)
  ultimately show ?thesis using router_answers [OF assms] by blast
qed

text \<open>A run in which a query is answered while the client gets a lease without DNS servers.\<close>

definition sample_client_run :: "client_event list" where
  "sample_client_run = [EvStart 77, sample_wait 1, sample_wait 9]"

definition sample_router_run :: "router_event list" where
  "sample_router_run = map ForwarderEvent (sent_query 0 5 2 @
     [EvReply (sample_reply 5 2) FALLBACK_DNS_SERVER]) @ map ClientEvent sample_client_run"

lemma sample_client_run_bound: "run_events (client_step sample_client) sample_client_run client_start = sample_bound"
  using sample_trajectory(3)
  by (simp add: trajectory_run sample_client_run_def sample_schedule_def numeral_3_eq_3)

lemma client_events_map [simp]:
  "client_events (map ForwarderEvent fs @ evs) = client_events evs"
  "client_events (map ClientEvent es) = es"
  by (induction fs, simp_all) (induction es, simp_all)

lemma forwarder_part:
  "run_events (router_step c parse) (map ForwarderEvent fs) s =
     s\<lparr>rt_dns := run_events (dns_step parse) (filter (\<lambda>e. \<not> publishes_lease e) fs) (rt_dns s)\<rparr>"
  by (induction fs arbitrary: s) (simp_all add: router_step_def case_prod_beta)

lemma client_part:
  "\<exists>L. rt_dns (run_events (router_step c parse) (map ClientEvent es) s) = (rt_dns s)\<lparr>ds_lease := L\<rparr>"
proof (induction es arbitrary: s)
  case Nil
  show ?case by (intro exI [of _ "ds_lease (rt_dns s)"]) simp
next
  case (Cons e es)
  from Cons [of "snd (router_step c parse (ClientEvent e) s)"] show ?case
    by (auto simp: router_step_def case_prod_beta)
qed

lemma sample_router_run_state:
  obtains L where "rt_dns (run_events (router_step sample_client sample_parse) sample_router_run router_start) =
    sample_replied\<lparr>ds_lease := L\<rparr>"
proof -
  have "run_events (dns_step sample_parse) (sent_query 0 5 2) dns_start = sample_sent"
    by (simp add: sample_sent_def run_events_def dns_exec_def)
  moreover have "filter (\<lambda>e. \<not> publishes_lease e) (sent_query 0 5 2) = sent_query 0 5 2"
    by (simp add: sent_query_def)
  ultimately show ?thesis
    using client_part [of sample_client sample_parse sample_client_run
        "router_start\<lparr>rt_dns := sample_replied\<rparr>"] that
    by (auto simp: sample_router_run_def forwarder_part router_start_def sample_replied_def simp flip: map_append)
qed

lemma sample_router_wakes:
  "ForwarderDid (Answer (sample_reply 7 2) sample_src) \<in>
     set (fst (router_step sample_client sample_parse (ForwarderEvent (EvWake 0 9))
       (run_events (router_step sample_client sample_parse) sample_router_run router_start)))"
proof -
  have "fst (dns_step sample_parse (EvWake 0 9) (sample_replied\<lparr>ds_lease := L\<rparr>)) =
      [Answer (sample_reply 7 2) sample_src]" for L
    unfolding sample_replied_eq by (simp add: dns_exec_simps restore_xid_def sample_waiting_def)
  moreover obtain L where "rt_dns (run_events (router_step sample_client sample_parse) sample_router_run
      router_start) = sample_replied\<lparr>ds_lease := L\<rparr>" by (rule sample_router_run_state)
  ultimately show ?thesis by (simp add: router_step_def case_prod_beta)
qed

theorem router_resolves_through_acknowledged_servers_witness:
  "(\<exists>q reply u. ForwarderEvent (EvReply reply u) \<in> set (sample_router_run @ [ForwarderEvent (EvWake 0 9)]) \<and>
      trusted_server sample_client sample_client_run u \<and>
      sample_reply 7 2 = take 2 q @ drop 2 (take 4096 reply)) \<and>
   get_upstream_dns (ds_lease (rt_dns
     (run_events (router_step sample_client sample_parse) sample_router_run router_start))) = ipv4_new 8 8 8 8"
proof -
  have events: "client_events sample_router_run = sample_client_run"
    by (simp add: sample_router_run_def)
  have bound: "phase_ack (cs_phase (rt_client (run_events (router_step sample_client sample_parse)
      sample_router_run router_start))) = Some (ack_of ack_message)"
    by (simp add: router_client events router_start_def sample_client_run_bound sample_bound_phase
        phase_ack_def)
  have "get_upstream_dns (lease_of_ack (ack_of ack_message)) = ipv4_new 8 8 8 8"
    by (simp add: ack_of_ack_message lease_of_ack_def get_upstream_dns_def FALLBACK_DNS_SERVER_def)
  with router_resolves_through_acknowledged_servers [OF refl prod.collapse [symmetric],
      where c = sample_client and parse = sample_parse and evs = sample_router_run
        and ev = "ForwarderEvent (EvWake 0 9)"]
    sample_router_wakes bound show ?thesis unfolding events by metis
qed

end
