(* ===== verification/Wan_Interface.thy ===== *)
theory Wan_Interface
  imports Dhcp_Client_Live
begin

text \<open>
  What the netlink requests of the DHCP client do to the WAN interface. The kernel is not part of
  this repository: \<open>nl_kernel\<close> is its state with the effect of a successful request, and
  \<open>nl_documented\<close> says of it what rtnetlink documents: among it that the kernel itself drops the
  routes of an interface when its last IPv4 address is removed. A refused request changes nothing.
\<close>

section \<open>The kernel's side\<close>

record 'k nl_kernel =
  kn_apply :: "nl_request \<Rightarrow> 'k \<Rightarrow> 'k"
  kn_addresses :: "'k \<Rightarrow> u32 \<Rightarrow> (ipv4 \<times> nat) set"
  kn_routes :: "'k \<Rightarrow> (ipv4 \<times> u32) set"

definition iface_routes :: "'k nl_kernel \<Rightarrow> 'k \<Rightarrow> u32 \<Rightarrow> ipv4 set" where
  "iface_routes K k i = {g. (g, i) \<in> kn_routes K k}"

definition nl_documented :: "'k nl_kernel \<Rightarrow> bool" where
  "nl_documented K \<longleftrightarrow> (\<forall>k x i a n g j.
     kn_addresses K (kn_apply K (DelAddress x) k) i =
       (if i = nl_index x then {p \<in> kn_addresses K k i. fst p \<notin> set (nl_locals x)}
        else kn_addresses K k i) \<and>
     kn_addresses K (kn_apply K (AddAddress j a n) k) i =
       (if i = j then insert (a, n) (kn_addresses K k i) else kn_addresses K k i) \<and>
     kn_addresses K (kn_apply K (LinkUp j) k) i = kn_addresses K k i \<and>
     kn_addresses K (kn_apply K (AddDefaultRoute g j) k) i = kn_addresses K k i \<and>
     iface_routes K (kn_apply K (DelAddress x) k) i \<subseteq> iface_routes K k i \<and>
     (kn_addresses K k i \<noteq> {} \<and> kn_addresses K (kn_apply K (DelAddress x) k) i = {} \<longrightarrow>
        iface_routes K (kn_apply K (DelAddress x) k) i = {}) \<and>
     kn_routes K (kn_apply K (LinkUp j) k) = kn_routes K k \<and>
     kn_routes K (kn_apply K (AddAddress j a n) k) = kn_routes K k \<and>
     kn_routes K (kn_apply K (AddDefaultRoute g j) k) = insert (g, j) (kn_routes K k))"

definition perform :: "'k nl_kernel \<Rightarrow> netlink \<Rightarrow> nl_request \<Rightarrow> 'k \<Rightarrow> 'k" where
  "perform K nl r k = (if nl_change nl r = None then kn_apply K r k else k)"

definition perform_all :: "'k nl_kernel \<Rightarrow> netlink \<Rightarrow> nl_request list \<Rightarrow> 'k \<Rightarrow> 'k" where
  "perform_all K nl reqs k = fold (perform K nl) reqs k"

definition netlink_requests :: "client_action list \<Rightarrow> nl_request list" where
  "netlink_requests acts = concat (map (\<lambda>a. case a of Netlink r \<Rightarrow> [r] | _ \<Rightarrow> []) acts)"

lemma perform_all_simps [simp]:
  "perform_all K nl [] k = k"
  "perform_all K nl (r # rs) k = perform_all K nl rs (perform K nl r k)"
  "perform_all K nl (rs @ rs') k = perform_all K nl rs' (perform_all K nl rs k)"
  by (simp_all add: perform_all_def)

lemma netlink_requests_map [simp]:
  "netlink_requests (map Netlink reqs) = reqs"
  "netlink_requests (map Netlink reqs @ [SleepFor d]) = reqs"
  by (induction reqs) (simp_all add: netlink_requests_def)

text \<open>An address of interface \<open>i\<close> is flushed if some dumped entry that holds it is deleted.\<close>

definition deleted_by :: "netlink \<Rightarrow> nl_address list \<Rightarrow> u32 \<Rightarrow> ipv4 \<Rightarrow> bool" where
  "deleted_by nl xs i b \<longleftrightarrow>
     (\<exists>x \<in> set xs. nl_index x = i \<and> b \<in> set (nl_locals x) \<and> nl_change nl (DelAddress x) = None)"

lemma perform_deletions:
  assumes "nl_documented K"
  shows "kn_addresses K (perform_all K nl (map DelAddress xs) k) i =
    {p \<in> kn_addresses K k i. \<not> deleted_by nl xs i (fst p)}"
proof (induction xs arbitrary: k)
  case (Cons x xs)
  have "kn_addresses K (perform K nl (DelAddress x) k) i =
      {p \<in> kn_addresses K k i. \<not> deleted_by nl [x] i (fst p)}"
    using assms by (auto simp: perform_def nl_documented_def deleted_by_def)
  with Cons show ?case by (auto simp: deleted_by_def)
qed (simp add: deleted_by_def)

text \<open>An interface has routes only while it has an address; flushing keeps it so.\<close>

definition routed :: "'k nl_kernel \<Rightarrow> 'k \<Rightarrow> u32 \<Rightarrow> bool" where
  "routed K k i \<longleftrightarrow> (kn_addresses K k i = {} \<longrightarrow> iface_routes K k i = {})"

lemma routed_deletions:
  assumes doc: "nl_documented K"
  shows "routed K k i \<Longrightarrow> routed K (perform_all K nl (map DelAddress xs) k) i \<and>
    iface_routes K (perform_all K nl (map DelAddress xs) k) i \<subseteq> iface_routes K k i"
proof (induction xs arbitrary: k)
  case (Cons x xs)
  have del: "iface_routes K (kn_apply K (DelAddress x) k) i \<subseteq> iface_routes K k i"
    "kn_addresses K k i \<noteq> {} \<and> kn_addresses K (kn_apply K (DelAddress x) k) i = {} \<Longrightarrow>
      iface_routes K (kn_apply K (DelAddress x) k) i = {}"
    using doc unfolding nl_documented_def by blast+
  then have "routed K (perform K nl (DelAddress x) k) i \<and>
      iface_routes K (perform K nl (DelAddress x) k) i \<subseteq> iface_routes K k i"
    using Cons.prems unfolding routed_def perform_def by (auto simp del: subset_empty)
  with Cons.IH show ?case by (simp del: subset_empty) blast
qed simp

lemma perform_routes:
  assumes "nl_documented K"
  shows "iface_routes K (perform K nl (LinkUp j) k) i = iface_routes K k i"
    and "iface_routes K (perform K nl (AddAddress j a n) k) i = iface_routes K k i"
    and "nl_change nl (AddDefaultRoute g j) = None \<Longrightarrow>
      iface_routes K (perform K nl (AddDefaultRoute g j) k) i =
        (if i = j then insert g (iface_routes K k i) else iface_routes K k i)"
  using assms by (auto simp: perform_def nl_documented_def iface_routes_def)

lemma perform_others:
  assumes "nl_documented K"
  shows "kn_addresses K (perform K nl (LinkUp j) k) i = kn_addresses K k i"
    and "kn_addresses K (perform K nl (AddDefaultRoute g j) k) i = kn_addresses K k i"
    and "nl_change nl (AddAddress j a n) = None \<Longrightarrow> kn_addresses K (perform K nl (AddAddress j a n) k) i =
      (if i = j then insert (a, n) (kn_addresses K k i) else kn_addresses K k i)"
    and "nl_change nl (AddDefaultRoute g j) = None \<Longrightarrow> (g, j) \<in> kn_routes K (perform K nl (AddDefaultRoute g j) k)"
  using assms by (simp_all add: perform_def nl_documented_def)

lemma deleted_by_filter:
  "deleted_by nl (filter (\<lambda>x. nl_index x = j \<and> P x) xs) i b \<longleftrightarrow>
     i = j \<and> deleted_by nl (filter P xs) i b"
  by (auto simp: deleted_by_def)

lemma configured_addresses:
  assumes doc: "nl_documented K" and conf: "configure_wan nl name a m gw = (reqs, Inr ())"
  obtains i n where "nl_link nl = Inr (Some i)" and "mask_to_prefix_len m = Inr n"
    and "kn_addresses K (perform_all K nl reqs k) i =
      insert (a, n) {p \<in> kn_addresses K k i. \<not> deleted_by nl (nl_dump nl) i (fst p)}"
    and "\<And>j. j \<noteq> i \<Longrightarrow> kn_addresses K (perform_all K nl reqs k) j = kn_addresses K k j"
    and "routed K k i \<Longrightarrow> kn_addresses K (perform_all K nl (map DelAddress (filter (\<lambda>x. nl_index x = i) (nl_dump nl))) k) i = {} \<Longrightarrow>
      (\<And>g. gw = Some g \<Longrightarrow> nl_change nl (AddDefaultRoute g i) = None) \<Longrightarrow>
      iface_routes K (perform_all K nl reqs k) i = set_option gw"
proof -
  from conf obtain i n where i: "nl_link nl = Inr (Some i)" and n: "mask_to_prefix_len m = Inr n"
    and reqs: "reqs = map DelAddress (filter (\<lambda>x. nl_index x = i) (nl_dump nl)) @
      [LinkUp i, AddAddress i a n] @ (case gw of None \<Rightarrow> [] | Some g \<Rightarrow> [AddDefaultRoute g i])"
    and add: "nl_change nl (AddAddress i a n) = None"
    by (auto simp: configure_wan_def Let_def split: sum.splits option.splits)
  have del: "deleted_by nl (filter (\<lambda>x. nl_index x = i) (nl_dump nl)) j b \<longleftrightarrow>
      j = i \<and> deleted_by nl (nl_dump nl) j b" for j b
    by (auto simp: deleted_by_def)
  show ?thesis
  proof (rule that [OF i n])
    show "kn_addresses K (perform_all K nl reqs k) i =
        insert (a, n) {p \<in> kn_addresses K k i. \<not> deleted_by nl (nl_dump nl) i (fst p)}"
      using add by (auto simp: reqs perform_others [OF doc] perform_deletions [OF doc] del split: option.split)
    show "kn_addresses K (perform_all K nl reqs k) j = kn_addresses K k j" if "j \<noteq> i" for j
      using add that
      by (auto simp: reqs perform_others [OF doc] perform_deletions [OF doc] del split: option.split)
    show "iface_routes K (perform_all K nl reqs k) i = set_option gw"
      if "routed K k i" and "kn_addresses K (perform_all K nl (map DelAddress
          (filter (\<lambda>x. nl_index x = i) (nl_dump nl))) k) i = {}"
        and "\<And>g. gw = Some g \<Longrightarrow> nl_change nl (AddDefaultRoute g i) = None"
      using routed_deletions [OF doc that(1), of nl "filter (\<lambda>x. nl_index x = i) (nl_dump nl)"] that(2,3)
      by (cases gw) (simp_all add: reqs perform_routes [OF doc] routed_def)
  qed
qed

section \<open>The interface follows the published lease\<close>

text \<open>
  The specification of the interface is the published lease: its address with the prefix of its
  mask and nothing else, or no address at all.
\<close>

definition lease_addresses :: "wan_lease \<Rightarrow> (ipv4 \<times> nat) set" where
  "lease_addresses L = {(a, n). wl_ip L = Some a \<and> (\<exists>m. wl_mask L = Some m \<and> mask_to_prefix_len m = Inr n)}"

text \<open>The default routes through it: the gateway of the lease, if it has an address.\<close>

definition lease_routes :: "wan_lease \<Rightarrow> ipv4 set" where
  "lease_routes L = (if lease_addresses L = {} then {} else set_option (wl_gateway L))"

definition follows :: "'k nl_kernel \<Rightarrow> 'k \<Rightarrow> u32 \<Rightarrow> wan_lease \<Rightarrow> bool" where
  "follows K k i L \<longleftrightarrow> kn_addresses K k i = lease_addresses L \<and> iface_routes K k i = lease_routes L"

lemma follows_routed: "follows K k i L \<Longrightarrow> routed K k i"
  by (simp add: follows_def routed_def lease_routes_def)

text \<open>The kernel answers every request about interface \<open>i\<close>, and its dump lists all addresses.\<close>

definition kernel_cooperates :: "'k nl_kernel \<Rightarrow> netlink \<Rightarrow> 'k \<Rightarrow> u32 \<Rightarrow> bool" where
  "kernel_cooperates K nl k i \<longleftrightarrow>
     nl_connect nl = Inr () \<and> nl_link nl = Inr (Some i) \<and> nl_dump_error nl = None \<and>
     (\<forall>r. nl_change nl r = None) \<and>
     (\<forall>p \<in> kn_addresses K k i. \<exists>x \<in> set (nl_dump nl). nl_index x = i \<and> fst p \<in> set (nl_locals x))"

lemma cooperating_deletes:
  "kernel_cooperates K nl k i \<Longrightarrow> p \<in> kn_addresses K k i \<Longrightarrow> deleted_by nl (nl_dump nl) i (fst p)"
  by (auto simp: kernel_cooperates_def deleted_by_def)

lemma deconfigure_follows:
  assumes doc: "nl_documented K" and coop: "kernel_cooperates K nl k i"
    and before: "follows K k i L" and d: "deconfigure nl name L = (L', reqs)"
  shows "follows K (perform_all K nl reqs k) i L'"
proof -
  have none: "lease_addresses L' = {}"
    using d by (auto simp: deconfigure_def lease_addresses_def wan_lease_default_def)
  obtain xs where reqs: "reqs = map DelAddress xs"
    using d by (auto simp: deconfigure_def deconfigure_wan_def split: option.splits sum.splits)
  have "kn_addresses K (perform_all K nl reqs k) i = {}"
  proof (cases "lease_addresses L = {}")
    case True
    with before show ?thesis by (simp add: reqs perform_deletions [OF doc] follows_def)
  next
    case False
    then obtain a m n where L: "wl_ip L = Some a" "wl_mask L = Some m" "mask_to_prefix_len m = Inr n"
      and only: "lease_addresses L = {(a, n)}" by (auto simp: lease_addresses_def)
    let ?xs = "filter (\<lambda>x. nl_index x = i \<and> a \<in> set (nl_locals x)) (nl_dump nl)"
    have reqs: "reqs = map DelAddress ?xs"
      using d L coop by (auto simp: deconfigure_def deconfigure_wan_def kernel_cooperates_def)
    have "deleted_by nl ?xs i a"
      using cooperating_deletes [OF coop, of "(a, n)"] before only
      by (auto simp: deleted_by_def follows_def)
    then show ?thesis using before only by (auto simp: reqs perform_deletions [OF doc] follows_def)
  qed
  moreover from routed_deletions [OF doc follows_routed [OF before], of nl xs] calculation
  have "iface_routes K (perform_all K nl reqs k) i = {}" by (simp add: reqs routed_def)
  ultimately show ?thesis by (simp add: follows_def none lease_routes_def)
qed

lemma configure_follows:
  assumes doc: "nl_documented K" and coop: "kernel_cooperates K nl k i" and routed: "routed K k i"
    and conf: "configure_wan nl name a m gw = (reqs, Inr ())"
  shows "\<exists>n. mask_to_prefix_len m = Inr n \<and> kn_addresses K (perform_all K nl reqs k) i = {(a, n)} \<and>
    iface_routes K (perform_all K nl reqs k) i = set_option gw"
proof (rule configured_addresses [OF doc conf, of k])
  fix j n
  assume j: "nl_link nl = Inr (Some j)" and n: "mask_to_prefix_len m = Inr n"
    and after: "kn_addresses K (perform_all K nl reqs k) j =
      insert (a, n) {p \<in> kn_addresses K k j. \<not> deleted_by nl (nl_dump nl) j (fst p)}"
    and routes: "routed K k j \<Longrightarrow> kn_addresses K (perform_all K nl (map DelAddress
        (filter (\<lambda>x. nl_index x = j) (nl_dump nl))) k) j = {} \<Longrightarrow>
      (\<And>g. gw = Some g \<Longrightarrow> nl_change nl (AddDefaultRoute g j) = None) \<Longrightarrow>
      iface_routes K (perform_all K nl reqs k) j = set_option gw"
  have "j = i" and ok: "nl_change nl r = None" for r using coop j by (simp_all add: kernel_cooperates_def)
  have "kn_addresses K (perform_all K nl (map DelAddress (filter (\<lambda>x. nl_index x = i) (nl_dump nl))) k) i = {}"
    using cooperating_deletes [OF coop] deleted_by_filter [of nl i "\<lambda>_. True" "nl_dump nl"]
    by (auto simp: perform_deletions [OF doc])
  with routes ok routed after n cooperating_deletes [OF coop] \<open>j = i\<close> show ?thesis by auto
qed

lemma enter_bound_follows:
  assumes doc: "nl_documented K" and coop: "kernel_cooperates K nl k i"
    and before: "follows K k i (cs_lease s)"
    and step: "enter_bound c nl ack now s = (acts, s')" and ok: "cs_phase s' = BoundTop ack now"
  shows "follows K (perform_all K nl (netlink_requests acts) k) i (cs_lease s')"
proof -
  obtain L reqs where app: "apply_lease_config nl (cc_wan_interface c) (ack_ip ack) (ack_mask ack)
      (ack_gateway ack) (ack_dns_servers ack) (cs_lease s) = (L, reqs, Inr ())"
    and acts: "acts = map Netlink reqs" and s': "cs_lease s' = L"
    using step ok by (auto simp: enter_bound_def split: prod.splits sum.splits)
  have L: "L = lease_of_ack ack"
    using apply_lease [of nl "cc_wan_interface c" ack "cs_lease s"] app by simp
  show ?thesis
  proof (cases "reqs = [] \<and> L = cs_lease s")
    case True
    then show ?thesis using before s' by (simp add: acts netlink_requests_def)
  next
    case False
    then have "configure_wan nl (cc_wan_interface c) (ack_ip ack) (ack_mask ack) (ack_gateway ack) =
        (reqs, Inr ())"
      using app by (auto simp: apply_lease_config_def Let_def split: if_splits)
    from configure_follows [OF doc coop follows_routed [OF before] this] obtain n where
      n: "mask_to_prefix_len (ack_mask ack) = Inr n"
      "kn_addresses K (perform_all K nl reqs k) i = {(ack_ip ack, n)}"
      "iface_routes K (perform_all K nl reqs k) i = set_option (ack_gateway ack)" by blast
    then have "lease_addresses L = {(ack_ip ack, n)}" "wl_gateway L = ack_gateway ack"
      by (auto simp: L lease_addresses_def lease_of_ack_def)
    with n show ?thesis by (simp add: acts s' follows_def lease_routes_def)
  qed
qed

text \<open>The netlink answers an event carries.\<close>

fun event_netlink :: "client_event \<Rightarrow> netlink option" where
  "event_netlink (EvStart _) = None"
| "event_netlink (EvWaited _ _ nl _) = Some nl"
| "event_netlink (EvBound _ _ nl) = Some nl"
| "event_netlink (EvRenew _ _ _ nl) = Some nl"

text \<open>Every step leaves the lease and the interface alone, withdraws both, or applies an
  acknowledgement.\<close>

lemma client_step_effect:
  assumes "client_step c ev s = (acts, s')"
  shows "netlink_requests acts = [] \<and> cs_lease s' = cs_lease s
    \<or> (\<exists>nl reqs. event_netlink ev = Some nl \<and> netlink_requests acts = reqs \<and>
         deconfigure nl (cc_wan_interface c) (cs_lease s) = (cs_lease s', reqs))
    \<or> (\<exists>nl ack now. event_netlink ev = Some nl \<and> enter_bound c nl ack now s = (acts, s'))"
proof -
  have give: "give_up c nl s = (a, u) \<Longrightarrow>
      deconfigure nl (cc_wan_interface c) (cs_lease s) = (cs_lease u, netlink_requests a)"
    "leave_bound c nl s = (a, u) \<Longrightarrow>
      deconfigure nl (cc_wan_interface c) (cs_lease s) = (cs_lease u, netlink_requests a)" for nl a u
    by (auto simp: give_up_def leave_bound_def split: prod.splits)
  have quiet: "netlink_requests [] = []" "netlink_requests [SendMessage d a] = []"
    "netlink_requests [SleepFor t] = []" for d a t by (simp_all add: netlink_requests_def)
  show ?thesis
  proof (cases ev)
    case (EvStart x)
    with assms show ?thesis
      by (cases "cs_phase s") (auto simp: client_step_def quiet send_discover_action_def)
  next
    case (EvWaited r ws nl now)
    with assms show ?thesis
      by (cases "cs_phase s") (auto simp: client_step_def offer_step_def ack_step_def renewal_step_def
          Let_def quiet send_discover_action_def send_request_action_def dest!: give
          split: option.splits sum.splits parse_ack_result.splits)
  next
    case (EvBound now x nl)
    with assms show ?thesis
      by (cases "cs_phase s") (auto simp: client_step_def bound_step_def Let_def quiet dest!: give
          split: if_splits)
  next
    case (EvRenew t1 t2 t3 nl)
    with assms show ?thesis
      by (cases "cs_phase s") (auto simp: client_step_def renew_step_def Let_def quiet dest!: give
          split: if_splits prod.splits)
  qed
qed

text \<open>The client and the kernel together: the requests of a step are carried out.\<close>

definition wired_step ::
  "'k nl_kernel \<Rightarrow> client_config \<Rightarrow> client_event \<Rightarrow> client_state \<times> 'k \<Rightarrow>
     client_action list \<times> client_state \<times> 'k" where
  "wired_step K c ev sk =
     (let (acts, s') = client_step c ev (fst sk)
      in (acts, s', case event_netlink ev of
                      None \<Rightarrow> snd sk
                    | Some nl \<Rightarrow> perform_all K nl (netlink_requests acts) (snd sk)))"

text \<open>The kernel cooperates in every step of a run, and no configuration fails.\<close>

fun cooperative_run ::
  "'k nl_kernel \<Rightarrow> u32 \<Rightarrow> client_config \<Rightarrow> client_event list \<Rightarrow> client_state \<times> 'k \<Rightarrow> bool" where
  "cooperative_run K i c [] sk \<longleftrightarrow> True"
| "cooperative_run K i c (ev # evs) sk \<longleftrightarrow>
     (\<forall>nl. event_netlink ev = Some nl \<longrightarrow> kernel_cooperates K nl (snd sk) i) \<and>
     (let s' = snd (client_step c ev (fst sk)) in cs_phase s' = Idle \<longrightarrow> wl_ip (cs_lease s') = None) \<and>
     cooperative_run K i c evs (snd (wired_step K c ev sk))"

lemma wired_step_state: "fst (snd (wired_step K c ev sk)) = snd (client_step c ev (fst sk))"
  by (simp add: wired_step_def split: prod.split)

lemma wired_step_follows:
  assumes doc: "nl_documented K"
    and coop: "\<And>nl. event_netlink ev = Some nl \<Longrightarrow> kernel_cooperates K nl k i"
    and ok: "cs_phase (snd (client_step c ev s)) = Idle \<Longrightarrow> wl_ip (cs_lease (snd (client_step c ev s))) = None"
    and before: "follows K k i (cs_lease s)"
    and step: "wired_step K c ev (s, k) = (acts, s', k')"
  shows "follows K k' i (cs_lease s')"
proof -
  have cs: "client_step c ev s = (acts, s')"
    and k': "k' = (case event_netlink ev of None \<Rightarrow> k | Some nl \<Rightarrow> perform_all K nl (netlink_requests acts) k)"
    using step by (auto simp: wired_step_def split: prod.splits option.splits)
  from client_step_effect [OF cs] show ?thesis
  proof (elim disjE exE conjE)
    assume "netlink_requests acts = []" "cs_lease s' = cs_lease s"
    with before k' show ?thesis by (simp split: option.split)
  next
    fix nl reqs
    assume "event_netlink ev = Some nl" "netlink_requests acts = reqs"
      "deconfigure nl (cc_wan_interface c) (cs_lease s) = (cs_lease s', reqs)"
    with deconfigure_follows [OF doc coop before] k' show ?thesis by simp
  next
    fix nl ack now
    assume nl: "event_netlink ev = Some nl" and eb: "enter_bound c nl ack now s = (acts, s')"
    have held: "cs_lease s' = lease_of_ack ack"
      using enter_bound_lease [of c nl ack now s] eb by simp
    have "cs_phase s' \<noteq> Idle"
      using ok cs held by (auto simp: lease_of_ack_def)
    then have "cs_phase s' = BoundTop ack now"
      using enter_bound_phase [of c nl ack now s] eb by simp
    from enter_bound_follows [OF doc coop [OF nl] before eb this] k' nl show ?thesis by simp
  qed
qed

lemma wired_run_follows:
  assumes doc: "nl_documented K"
  shows "cooperative_run K i c evs (s, k) \<Longrightarrow> follows K k i (cs_lease s) \<Longrightarrow>
    client_inv s \<Longrightarrow> run_events (wired_step K c) evs (s, k) = (s', k') \<Longrightarrow>
    follows K k' i (cs_lease s') \<and> client_inv s'"
proof (induction evs arbitrary: s k)
  case (Cons ev evs)
  obtain acts s1 k1 where step: "wired_step K c ev (s, k) = (acts, s1, k1)"
    by (cases "wired_step K c ev (s, k)") auto
  have s1: "snd (client_step c ev s) = s1"
    using step by (auto simp: wired_step_def split: prod.splits)
  have "follows K k1 i (cs_lease s1)"
    using Cons.prems(1,2) by (intro wired_step_follows [OF doc _ _ _ step]) (auto simp: Let_def)
  moreover have "client_inv s1" using client_inv_step [OF Cons.prems(3), of c ev] s1 by simp
  ultimately show ?case using Cons.IH [of s1 k1] Cons.prems(1,4) step by simp
qed simp


text \<open>A kernel for examples: the addresses of each interface and the default routes.\<close>

fun table_apply :: "nl_request \<Rightarrow> (u32 \<Rightarrow> (ipv4 \<times> nat) set) \<times> (ipv4 \<times> u32) set \<Rightarrow>
    (u32 \<Rightarrow> (ipv4 \<times> nat) set) \<times> (ipv4 \<times> u32) set" where
  "table_apply (LinkUp j) (A, R) = (A, R)"
| "table_apply (DelAddress x) (A, R) =
     (let left = {p \<in> A (nl_index x). fst p \<notin> set (nl_locals x)}
      in (A(nl_index x := left), if left = {} then {r \<in> R. snd r \<noteq> nl_index x} else R))"
| "table_apply (AddAddress j a n) (A, R) = (A(j := insert (a, n) (A j)), R)"
| "table_apply (AddDefaultRoute g j) (A, R) = (A, insert (g, j) R)"

definition table_kernel :: "((u32 \<Rightarrow> (ipv4 \<times> nat) set) \<times> (ipv4 \<times> u32) set) nl_kernel" where
  "table_kernel = \<lparr>kn_apply = table_apply, kn_addresses = fst, kn_routes = snd\<rparr>"

lemma table_kernel_documented: "nl_documented table_kernel"
  by (auto simp: nl_documented_def table_kernel_def iface_routes_def Let_def)

lemma sample_wired:
  "wired_step table_kernel sample_client (EvStart 77) (client_start, k) =
     ([send_discover_action sample_client 77], sample_discovering, k)"
  "wired_step table_kernel sample_client (sample_wait 1) (sample_discovering, k) =
     ([send_request_action sample_client 77 \<lparr>offered_ip = ipv4_new 10 0 0 5, offer_server_ip = None\<rparr>],
      sample_requesting, k)"
  by (simp_all add: wired_step_def sample_discovering_def client_step_def client_start_def
      sample_wait_def offer_step_def sample_offer_wait INITIAL_RETRY_DELAY_SECS_def
      sample_requesting_eq netlink_requests_def send_request_action_def)

lemma sample_bound_step: "snd (client_step sample_client (sample_wait 9) sample_requesting) = sample_bound"
  by (simp add: sample_bound_def sample_requesting_def sample_wait_def Let_def)

definition sample_tables :: "(u32 \<Rightarrow> (ipv4 \<times> nat) set) \<times> (ipv4 \<times> u32) set" where
  "sample_tables = ((\<lambda>_. {}), {})"


end
