(* ===== verification/Client_Socket.thy ===== *)
theory Client_Socket
  imports Dhcp_Client_Run
begin

text \<open>
  The socket of the DHCP client, \<open>make_client_socket\<close> of \<open>src/services/dhcp_client.rs\<close>: a UDP
  socket whose options are set one after the other before it is used. The answers of the kernel
  are an argument; the result has the calls made, in order.
\<close>

section \<open>Making the socket\<close>

datatype udp_call =
    BindAddr int ipv4 u16
  | SetBroadcast int
  | SetBindToDevice int string
  | SetDontRoute int
  | SetNonblock int
  | RegisterSocket int
  | DropSocket int

record udp_kernel =
  uk_bind :: "string + int"
  uk_call :: "udp_call \<Rightarrow> string option"

text \<open>A sequence of calls ended by \<open>?\<close>: the first error drops the socket.\<close>

fun try_calls :: "udp_kernel \<Rightarrow> int \<Rightarrow> udp_call list \<Rightarrow> udp_call list \<times> (string + int)" where
  "try_calls k fd [] = ([], Inr fd)"
| "try_calls k fd (c # cs) =
     (case uk_call k c of
        Some e \<Rightarrow> ([c, DropSocket fd], Inl e)
      | None \<Rightarrow> (let (done, res) = try_calls k fd cs in (c # done, res)))"

definition socket_options :: "int \<Rightarrow> string \<Rightarrow> udp_call list" where
  "socket_options fd interface_name =
     [SetBroadcast fd, SetBindToDevice fd interface_name, SetDontRoute fd, SetNonblock fd, RegisterSocket fd]"

definition DHCP_CLIENT_PORT :: u16 where "DHCP_CLIENT_PORT = 68"

definition make_client_socket :: "udp_kernel \<Rightarrow> string \<Rightarrow> udp_call list \<times> (string + int)" where
  "make_client_socket k interface_name =
     (case uk_bind k of
        Inl e \<Rightarrow> ([], Inl e)
      | Inr fd \<Rightarrow>
          (let (done, res) = try_calls k fd (socket_options fd interface_name)
           in (BindAddr fd ipv4_unspecified DHCP_CLIENT_PORT # done, res)))"

section \<open>The calls made\<close>

lemma try_calls_run:
  "try_calls k fd cs =
     (case find (\<lambda>c. uk_call k c \<noteq> None) cs of
        None \<Rightarrow> (cs, Inr fd)
      | Some c \<Rightarrow> (takeWhile (\<lambda>c. uk_call k c = None) cs @ [c, DropSocket fd], Inl (the (uk_call k c))))"
  by (induction cs) (auto split: option.split)

text \<open>The client's socket is usable only if it is restricted to the WAN interface: making it
  succeeds exactly if binding and every option succeed, in the order of the code, and on the
  first failure the later calls are not made, the error is the result and the socket is dropped
  last, so no half-configured socket is ever used or left open.\<close>

theorem client_socket_all_or_nothing:
  assumes "uk_bind k = Inr fd"
  shows "case make_client_socket k name of (calls, res) \<Rightarrow>
      (res = Inr fd \<longleftrightarrow> (\<forall>c \<in> set (socket_options fd name). uk_call k c = None))
    \<and> (res = Inr fd \<longrightarrow> calls = [BindAddr fd 0 68, SetBroadcast fd, SetBindToDevice fd name,
         SetDontRoute fd, SetNonblock fd, RegisterSocket fd])
    \<and> (\<forall>e. res = Inl e \<longrightarrow> (\<exists>pre c post. socket_options fd name = pre @ c # post \<and>
         (\<forall>c' \<in> set pre. uk_call k c' = None) \<and> uk_call k c = Some e \<and>
         calls = BindAddr fd 0 68 # pre @ [c, DropSocket fd]))"
proof (cases "find (\<lambda>c. uk_call k c \<noteq> None) (socket_options fd name)")
  case None
  then have "\<forall>c \<in> set (socket_options fd name). uk_call k c = None"
    by (simp add: find_None_iff)
  with None assms show ?thesis
    by (simp add: make_client_socket_def try_calls_run)
      (simp add: socket_options_def DHCP_CLIENT_PORT_def ipv4_unspecified_def)
next
  case (Some c)
  then obtain pre post where split: "socket_options fd name = pre @ c # post"
    "uk_call k c \<noteq> None" "\<forall>c' \<in> set pre. uk_call k c' = None"
    by (auto simp: find_Some_split)
  then have "takeWhile (\<lambda>c. uk_call k c = None) (socket_options fd name) = pre" by simp
  with Some assms have run: "make_client_socket k name =
      (BindAddr fd 0 68 # pre @ [c, DropSocket fd], Inl (the (uk_call k c)))"
    by (simp add: make_client_socket_def try_calls_run DHCP_CLIENT_PORT_def ipv4_unspecified_def)
  have "c \<in> set (socket_options fd name)" using split(1) by simp
  with split(2) have "\<not> (\<forall>c \<in> set (socket_options fd name). uk_call k c = None)"
    by (intro notI) (drule (1) bspec, simp)
  then show ?thesis using split unfolding run by auto
qed

definition sample_udp :: udp_kernel where
  "sample_udp = \<lparr>uk_bind = Inr 5, uk_call = (\<lambda>c. if c = SetBindToDevice 5 ''eth0'' then Some ''ENODEV'' else None)\<rparr>"

theorem client_socket_all_or_nothing_witness:
  "\<exists>pre c. fst (make_client_socket sample_udp ''eth0'') = BindAddr 5 0 68 # pre @ [c, DropSocket 5]"
proof -
  have "snd (make_client_socket sample_udp ''eth0'') = Inl ''ENODEV''"
    by (simp add: make_client_socket_def sample_udp_def socket_options_def)
  then show ?thesis
    using client_socket_all_or_nothing [of sample_udp 5 "''eth0''"]
    by (auto simp: sample_udp_def case_prod_beta)
qed

section \<open>Errors as text\<close>

text \<open>\<open>impl Display for DhcpError\<close>, with the texts of the protocol errors the sources build;
  \<open>mask_text\<close> prints an address.\<close>

fun protocol_error_display :: "(ipv4 \<Rightarrow> string) \<Rightarrow> protocol_error \<Rightarrow> string" where
  "protocol_error_display mask_text (InvalidMask m) = ''Invalid non-contiguous subnet mask: '' @ mask_text m"
| "protocol_error_display mask_text LeaseExpired = ''Lease expired''"
| "protocol_error_display mask_text LeaseExpiredDuringRenewal = ''Lease expired during renewal''"
| "protocol_error_display mask_text (EncodeError e) = e"

fun dhcp_error_display :: "(ipv4 \<Rightarrow> string) \<Rightarrow> dhcp_error \<Rightarrow> string" where
  "dhcp_error_display mask_text (Io e) = ''IO error: '' @ e"
| "dhcp_error_display mask_text (Protocol p) = ''DHCP protocol error: '' @ protocol_error_display mask_text p"
| "dhcp_error_display mask_text NakReceived = ''DHCPNAK received''"
| "dhcp_error_display mask_text (InterfaceNotFound iface) = ''Interface not found: '' @ iface"
| "dhcp_error_display mask_text (RtNetlink e) = ''Netlink error: '' @ e"

end
