(* ===== verification/Dns_Service.thy ===== *)
theory Dns_Service
  imports Dns_Liveness
begin

text \<open>
  The loops around the forwarder's tasks: \<open>start_dns_forwarder\<close> binds its two sockets, starts the
  receiver and the cleanup, and then receives queries. A turn of one of the three loops is an
  event of \<open>dns_step\<close>, or an error of the socket, which is only slept on.
\<close>

section \<open>Starting\<close>

definition CLEANUP_INTERVAL :: duration where "CLEANUP_INTERVAL = from_secs 60"

text \<open>The errors of binding port 53 and the upstream socket; the result is the time slept and the
  running forwarder, or none if the function has returned.\<close>

definition start_dns_forwarder :: "string option \<Rightarrow> string option \<Rightarrow> duration \<times> dns_state option" where
  "start_dns_forwarder bind_error upstream_error =
     (case bind_error of
        Some e \<Rightarrow> (from_secs 5, None)
      | None \<Rightarrow>
          (case upstream_error of
             Some e \<Rightarrow> (0, None)
           | None \<Rightarrow> (0, Some dns_start)))"

section \<open>The loops\<close>

text \<open>
  A turn of the query loop, of the upstream receiver (which only keeps the address of a sender),
  of the cleanup, or a piece of a query task or of the DHCP client.
\<close>

datatype service_turn =
    QueryReceived "string + bytes \<times> client_addr"
  | UpstreamReceived "string + bytes \<times> (ipv4 \<times> u16)"
  | CleanupWoke instant
  | TaskPiece dns_event

fun turn_events :: "service_turn \<Rightarrow> dns_event list" where
  "turn_events (QueryReceived (Inl e)) = []"
| "turn_events (QueryReceived (Inr (buf, src))) = [EvQuery buf src]"
| "turn_events (UpstreamReceived (Inl e)) = []"
| "turn_events (UpstreamReceived (Inr (buf, (from_ip, from_port)))) = [EvReply buf from_ip]"
| "turn_events (CleanupWoke now) = [EvCleanup now]"
| "turn_events (TaskPiece ev) = [ev]"

text \<open>What the loop sleeps in the turn, beside waiting for its socket.\<close>

fun turn_sleep :: "service_turn \<Rightarrow> duration" where
  "turn_sleep (QueryReceived (Inl e)) = from_secs 1"
| "turn_sleep (UpstreamReceived (Inl e)) = 100000000"
| "turn_sleep (CleanupWoke now) = CLEANUP_INTERVAL"
| "turn_sleep _ = 0"

definition is_socket_error :: "service_turn \<Rightarrow> bool" where
  "is_socket_error t \<longleftrightarrow> turn_events t = []"

definition run_service :: "dns_parser \<Rightarrow> service_turn list \<Rightarrow> dns_state \<Rightarrow> dns_state" where
  "run_service parse turns s = run_events (dns_step parse) (concat (map turn_events turns)) s"

lemma run_service_exec: "run_service parse turns s = dns_exec parse (concat (map turn_events turns)) s"
  by (simp add: run_service_def run_events_def dns_exec_def)

lemma errors_skipped:
  "concat (map turn_events (filter (\<lambda>t. \<not> is_socket_error t) turns)) = concat (map turn_events turns)"
  by (induction turns) (simp_all add: is_socket_error_def)

text \<open>Socket errors cost the forwarder time and nothing else: once both sockets are bound, a
  run of its loops, with any errors of either socket in between, ends in the state the same run
  without the errors ends in, that state is one of the reachable states all the other properties
  speak of, and an error of the query socket is slept on for one second, one of the upstream
  socket for a tenth. If a socket cannot be bound, the forwarder does not run at all.\<close>

theorem socket_errors_only_delay:
  "(case start_dns_forwarder e1 e2 of
      (slept, None) \<Rightarrow> e1 \<noteq> None \<or> e2 \<noteq> None
    | (slept, Some s) \<Rightarrow> e1 = None \<and> e2 = None \<and>
        run_service parse turns s = run_service parse (filter (\<lambda>t. \<not> is_socket_error t) turns) s \<and>
        dns_run parse (rev (concat (map turn_events turns))) (run_service parse turns s))
   \<and> (is_socket_error t \<longrightarrow> turn_sleep t = (case t of QueryReceived _ \<Rightarrow> from_secs 1 | _ \<Rightarrow> 100000000))"
proof
  have "dns_run parse (rev (concat (map turn_events turns))) (run_service parse turns dns_start)"
    using dns_run_exec [OF dns_run.start, of parse "concat (map turn_events turns)"]
    by (simp add: run_service_exec)
  then show "case start_dns_forwarder e1 e2 of
      (slept, None) \<Rightarrow> e1 \<noteq> None \<or> e2 \<noteq> None
    | (slept, Some s) \<Rightarrow> e1 = None \<and> e2 = None \<and>
        run_service parse turns s = run_service parse (filter (\<lambda>t. \<not> is_socket_error t) turns) s \<and>
        dns_run parse (rev (concat (map turn_events turns))) (run_service parse turns s)"
    by (simp add: start_dns_forwarder_def run_service_def errors_skipped split: option.split)
  show "is_socket_error t \<longrightarrow> turn_sleep t = (case t of QueryReceived _ \<Rightarrow> from_secs 1 | _ \<Rightarrow> 100000000)"
    by (cases t rule: turn_events.cases) (simp_all add: is_socket_error_def)
qed

theorem socket_errors_only_delay_witness:
  "turn_sleep (QueryReceived (Inl ''EIO'')) = from_secs 1 \<and>
     ds_next (run_service sample_parse [QueryReceived (Inl ''EIO''), QueryReceived (Inr ([1], sample_src))] dns_start) =
     ds_next (run_service sample_parse [QueryReceived (Inr ([1], sample_src))] dns_start)"
  using socket_errors_only_delay [of None None sample_parse
      "[QueryReceived (Inl ''EIO''), QueryReceived (Inr ([1], sample_src))]" "QueryReceived (Inl ''EIO'')"]
  by (simp add: start_dns_forwarder_def is_socket_error_def)

end
