(* ===== verification/Rust_Text.thy ===== *)
theory Rust_Text
  imports Prelude
begin

text \<open>
  The text functions of Rust's standard library that the sources use: splitting, trimming,
  lines and file names. A character is one of the first 256 code points; among these the
  white space is that of Unicode.
\<close>

section \<open>Splitting\<close>

definition is_whitespace :: "char \<Rightarrow> bool" where
  "is_whitespace c \<longleftrightarrow>
     (let n = of_char c :: nat in 9 \<le> n \<and> n \<le> 13 \<or> n = 32 \<or> n = 133 \<or> n = 160)"

text \<open>\<open>split\<close>: always at least one piece.\<close>

fun split_by :: "(char \<Rightarrow> bool) \<Rightarrow> string \<Rightarrow> string list" where
  "split_by P [] = [[]]"
| "split_by P (c # cs) =
     (if P c then [] # split_by P cs
      else (case split_by P cs of [] \<Rightarrow> [[c]] | w # ws \<Rightarrow> (c # w) # ws))"

definition split_whitespace :: "string \<Rightarrow> string list" where
  "split_whitespace s = filter (\<lambda>w. w \<noteq> []) (split_by is_whitespace s)"

definition trim :: "string \<Rightarrow> string" where
  "trim s = rev (dropWhile is_whitespace (rev (dropWhile is_whitespace s)))"

definition newline :: char where "newline = CHR 0x0A"
definition carriage_return :: char where "carriage_return = CHR 0x0D"

definition strip_cr :: "string \<Rightarrow> string" where
  "strip_cr s = (if s \<noteq> [] \<and> last s = carriage_return then butlast s else s)"

text \<open>\<open>lines\<close>: a final line end starts no further line, and only a carriage return in front of
  a line end is dropped.\<close>

definition text_lines :: "string \<Rightarrow> string list" where
  "text_lines s =
     (let parts = split_by (\<lambda>c. c = newline) s
      in map strip_cr (butlast parts) @ (if last parts = [] then [] else [last parts]))"

fun strip_prefix :: "string \<Rightarrow> string \<Rightarrow> string option" where
  "strip_prefix [] s = Some s"
| "strip_prefix (p # ps) [] = None"
| "strip_prefix (p # ps) (c # cs) = (if p = c then strip_prefix ps cs else None)"

section \<open>Paths\<close>

definition path_join :: "string \<Rightarrow> string \<Rightarrow> string" where
  "path_join a b =
     (case b of
        [] \<Rightarrow> a @ ''/''
      | c # _ \<Rightarrow> if c = CHR ''/'' then b
                else if a = [] \<or> last a = CHR ''/'' then a @ b else a @ ''/'' @ b)"

text \<open>\<open>file_name\<close>: the last component, unless it is \<open>..\<close> or there is none.\<close>

definition file_name :: "string \<Rightarrow> string option" where
  "file_name p =
     (let parts = filter (\<lambda>w. w \<noteq> [] \<and> w \<noteq> ''.'') (split_by (\<lambda>c. c = CHR ''/'') p)
      in if parts = [] \<or> last parts = ''..'' then None else Some (last parts))"

text \<open>\<open>split('.').next()\<close>, and \<open>extension\<close>: what follows the last dot that is not the first
  character.\<close>

definition stem :: "string \<Rightarrow> string" where
  "stem f = takeWhile (\<lambda>c. c \<noteq> CHR ''.'') f"

definition extension :: "string \<Rightarrow> string option" where
  "extension p =
     (case file_name p of
        None \<Rightarrow> None
      | Some f \<Rightarrow>
          (let ext = rev (takeWhile (\<lambda>c. c \<noteq> CHR ''.'') (rev f))
           in if length ext + 1 < length f then Some ext else None))"

section \<open>Laws\<close>

lemma split_by_not_Nil [simp]: "split_by P s \<noteq> []"
  by (induction s) (auto split: list.split)

lemma hd_split_by: "hd (split_by (\<lambda>c. c = x) s) = takeWhile (\<lambda>c. c \<noteq> x) s"
proof (induction s)
  case (Cons c s)
  then show ?case by (cases "split_by (\<lambda>c. c = x) s") auto
qed simp

lemma split_by_no_sep: "w \<in> set (split_by P s) \<Longrightarrow> c \<in> set w \<Longrightarrow> \<not> P c"
proof (induction s arbitrary: w)
  case (Cons a s)
  obtain v vs where v: "split_by P s = v # vs" by (cases "split_by P s") auto
  from Cons.prems Cons.IH [of v] Cons.IH [of w] show ?case by (auto simp: v split: if_splits)
qed simp

lemma split_whitespace_word:
  "w \<in> set (split_whitespace s) \<Longrightarrow> w \<noteq> [] \<and> (\<forall>c \<in> set w. \<not> is_whitespace c)"
  using split_by_no_sep by (fastforce simp: split_whitespace_def)

lemma strip_prefix_iff: "strip_prefix p s = Some r \<longleftrightarrow> s = p @ r"
  by (induction p s rule: strip_prefix.induct) auto

lemma split_by_append: "P c \<Longrightarrow> split_by P (a @ c # b) = split_by P a @ split_by P b"
proof (induction a)
  case (Cons x a)
  then show ?case by (cases "split_by P a") auto
qed simp

lemma split_by_none: "\<forall>c \<in> set s. \<not> P c \<Longrightarrow> split_by P s = [s]"
  by (induction s) auto

text \<open>Words joined by single spaces split back into themselves.\<close>

fun unwords :: "string list \<Rightarrow> string" where
  "unwords [] = []"
| "unwords [w] = w"
| "unwords (w # ws) = w @ '' '' @ unwords ws"

definition is_word :: "string \<Rightarrow> bool" where
  "is_word w \<longleftrightarrow> w \<noteq> [] \<and> (\<forall>c \<in> set w. \<not> is_whitespace c)"

lemma space_is_whitespace [simp]: "is_whitespace (CHR '' '')"
  by (simp add: is_whitespace_def)

lemma split_whitespace_unwords:
  "\<forall>w \<in> set ws. is_word w \<Longrightarrow> split_whitespace (unwords ws) = ws"
proof (induction ws rule: unwords.induct)
  case (2 w)
  then show ?case by (simp add: split_whitespace_def split_by_none is_word_def)
next
  case (3 w v ws)
  then show ?case
    by (simp add: split_whitespace_def split_by_append split_by_none is_word_def)
qed (simp add: split_whitespace_def)

end
