(* ===== verification/Kmod.thy ===== *)
theory Kmod
  imports Rust_Text
begin

text \<open>
  The kernel module loader, \<open>src/kmod.rs\<close>: finding module files, the decompression by file
  extension, loading a module after its dependencies, and the \<open>modprobe\<close> entry point with
  its argument parsing and alias resolution. The file system, the decompressors and the kernel
  are the parameter \<open>kmod_env\<close>; the kernel has a state of its own, of any type, so that what
  \<open>init_module\<close> answers may depend on what was loaded before.
\<close>

section \<open>Environment and state\<close>

datatype errno = EEXIST | OtherErrno string

datatype fs_entry = FileEntry string | DirEntry string "fs_entry list"

record 'k kmod_env =
  uname_release :: string
  read_dir :: "string \<Rightarrow> fs_entry list option"
  path_exists :: "string \<Rightarrow> bool"
  read_to_string :: "string \<Rightarrow> string option"
  read_file :: "string \<Rightarrow> string + bytes"
  xz_decompress :: "bytes \<Rightarrow> string + bytes"
  gz_decompress :: "bytes \<Rightarrow> string + bytes"
  zst_decompress :: "bytes \<Rightarrow> string + bytes"
  init_module :: "bytes \<Rightarrow> 'k \<Rightarrow> errno option \<times> 'k"

text \<open>
  \<open>LOADED_MODULES\<close> and the kernel's state; \<open>km_attempts\<close> records the paths given to
  \<open>load_module\<close>, in order.
\<close>

record 'k kmod_state =
  km_loaded :: "string set"
  km_kernel :: 'k
  km_attempts :: "string list"

definition modules_dir :: "'k kmod_env \<Rightarrow> string" where
  "modules_dir env = path_join ''/lib/modules'' (uname_release env)"

section \<open>Module files\<close>

text \<open>The search goes through the entries in order, into each directory before what follows it.\<close>

fun find_module_recursive :: "string \<Rightarrow> string \<Rightarrow> fs_entry list \<Rightarrow> string option" where
  "find_module_recursive dir base_name [] = None"
| "find_module_recursive dir base_name (FileEntry n # es) =
     (if stem n = stem base_name then Some (path_join dir n)
      else find_module_recursive dir base_name es)"
| "find_module_recursive dir base_name (DirEntry n sub # es) =
     (case find_module_recursive (path_join dir n) base_name sub of
        Some found \<Rightarrow> Some found
      | None \<Rightarrow> find_module_recursive dir base_name es)"

definition find_module_file :: "'k kmod_env \<Rightarrow> string \<Rightarrow> string option" where
  "find_module_file env name =
     (if uname_release env = [] then None
      else (case read_dir env (modules_dir env) of
              None \<Rightarrow> None
            | Some entries \<Rightarrow> find_module_recursive (modules_dir env) (name @ ''.ko'') entries))"

definition decompress_module :: "'k kmod_env \<Rightarrow> bytes \<Rightarrow> string \<Rightarrow> string + bytes" where
  "decompress_module env data path =
     (let ext = (case extension path of None \<Rightarrow> [] | Some e \<Rightarrow> e)
      in if ext = ''xz'' then xz_decompress env data
         else if ext = ''gz'' then gz_decompress env data
         else if ext = ''zst'' then zst_decompress env data
         else Inr data)"

text \<open>The answer is whether the load succeeded; a module that is already there counts.\<close>

definition load_module :: "'k kmod_env \<Rightarrow> string \<Rightarrow> 'k kmod_state \<Rightarrow> (string + unit) \<times> 'k kmod_state" where
  "load_module env path s0 =
     (let s = s0\<lparr>km_attempts := km_attempts s0 @ [path]\<rparr>
      in case obind (read_file env path) (\<lambda>raw. decompress_module env raw path) of
           Inl e \<Rightarrow> (Inl e, s)
         | Inr data \<Rightarrow>
             (case init_module env data (km_kernel s) of
                (res, k) \<Rightarrow>
                  (case res of
                     None \<Rightarrow> Inr ()
                   | Some EEXIST \<Rightarrow> Inr ()
                   | Some (OtherErrno e) \<Rightarrow> Inl e,
                   s\<lparr>km_kernel := k\<rparr>)))"

definition load_single_module :: "'k kmod_env \<Rightarrow> string \<Rightarrow> 'k kmod_state \<Rightarrow> 'k kmod_state" where
  "load_single_module env mod_name s =
     (case find_module_file env mod_name of
        None \<Rightarrow> s
      | Some path \<Rightarrow> snd (load_module env path s))"

section \<open>Loading with dependencies\<close>

text \<open>The name and the dependencies a line of \<open>modules.dep\<close> gives.\<close>

definition path_stem :: "string \<Rightarrow> string option" where
  "path_stem p = (case file_name p of None \<Rightarrow> None | Some f \<Rightarrow> Some (stem f))"

definition dep_line :: "string \<Rightarrow> (string \<times> string \<times> string list) option" where
  "dep_line l =
     (let parts = split_by (\<lambda>c. c = CHR '':'') l;
          mod_path = trim (parts ! 0)
      in case path_stem mod_path of
           None \<Rightarrow> None
         | Some name \<Rightarrow>
             Some (name, mod_path, if length parts > 1 then split_whitespace (parts ! 1) else []))"

fun find_dep_line :: "string \<Rightarrow> string list \<Rightarrow> (string \<times> string list) option" where
  "find_dep_line mod_name [] = None"
| "find_dep_line mod_name (l # ls) =
     (case dep_line l of
        None \<Rightarrow> find_dep_line mod_name ls
      | Some (name, mod_path, deps) \<Rightarrow>
          if name = mod_name then Some (mod_path, deps) else find_dep_line mod_name ls)"

text \<open>Load a file unless its module is in the set, and record it if that succeeds.\<close>

definition load_unless_loaded ::
  "'k kmod_env \<Rightarrow> string \<Rightarrow> string \<Rightarrow> 'k kmod_state \<Rightarrow> 'k kmod_state" where
  "load_unless_loaded env name path s =
     (if name \<in> km_loaded s then s
      else (case load_module env path s of
              (Inl e, s) \<Rightarrow> s
            | (Inr _, s) \<Rightarrow> s\<lparr>km_loaded := insert name (km_loaded s)\<rparr>))"

definition dep_stem :: "string \<Rightarrow> string" where
  "dep_stem path = (case path_stem path of None \<Rightarrow> [] | Some n \<Rightarrow> n)"

definition load_with_deps ::
  "'k kmod_env \<Rightarrow> string \<Rightarrow> string \<Rightarrow> string list \<Rightarrow> 'k kmod_state \<Rightarrow> 'k kmod_state" where
  "load_with_deps env mod_name mod_path deps s =
     (let s = fold (\<lambda>dep. let dep_path = path_join (modules_dir env) dep
                          in load_unless_loaded env (dep_stem dep_path) dep_path)
                (rev deps) s
      in load_unless_loaded env mod_name (path_join (modules_dir env) mod_path) s)"

definition load_module_with_dependencies ::
  "'k kmod_env \<Rightarrow> string \<Rightarrow> 'k kmod_state \<Rightarrow> 'k kmod_state" where
  "load_module_with_dependencies env mod_name s =
     (if mod_name \<in> km_loaded s then s
      else if uname_release env = [] then load_single_module env mod_name s
      else
        (let dep_file = path_join (modules_dir env) ''modules.dep''
         in if \<not> path_exists env dep_file then load_single_module env mod_name s
            else (case read_to_string env dep_file of
                    None \<Rightarrow> load_single_module env mod_name s
                  | Some content \<Rightarrow>
                      (case find_dep_line mod_name (text_lines content) of
                         Some (mod_path, deps) \<Rightarrow> load_with_deps env mod_name mod_path deps s
                       | None \<Rightarrow> load_single_module env mod_name s))))"

definition required_modules :: "string list" where
  "required_modules = [''virtio_net'', ''virtio_pci'', ''virtio_mmio'', ''nft_masq'',
     ''nft_chain_nat'', ''nft_ct'']"

definition load_required_modules :: "'k kmod_env \<Rightarrow> 'k kmod_state \<Rightarrow> 'k kmod_state" where
  "load_required_modules env s = fold (load_module_with_dependencies env) required_modules s"

section \<open>modprobe\<close>

fun module_argument :: "string list \<Rightarrow> string option" where
  "module_argument [] = None"
| "module_argument (arg # rest) =
     (if arg = ''--'' then (case rest of [] \<Rightarrow> None | n # _ \<Rightarrow> Some n)
      else if take 1 arg \<noteq> ''-'' \<and> arg \<noteq> ''modprobe'' then Some arg
      else module_argument rest)"

definition parse_args_for_mod_name :: "string list \<Rightarrow> string option" where
  "parse_args_for_mod_name args = module_argument (drop 1 args)"

fun wildcard_match :: "string \<Rightarrow> string \<Rightarrow> bool" where
  "wildcard_match [] s = (s = [])"
| "wildcard_match (p # ps) s =
     (if p = CHR ''*''
      then ps = [] \<or> list_ex (\<lambda>i. wildcard_match ps (drop i s)) [0..<length s + 1]
      else (case s of
              [] \<Rightarrow> False
            | c # cs \<Rightarrow> (p = CHR ''?'' \<or> p = c) \<and> wildcard_match ps cs))"

fun first_alias :: "string \<Rightarrow> string list \<Rightarrow> string option" where
  "first_alias name [] = None"
| "first_alias name (l # ls) =
     (let parts = split_whitespace l
      in if 3 \<le> length parts \<and> parts ! 0 = ''alias'' \<and> wildcard_match (parts ! 1) name
         then Some (parts ! 2) else first_alias name ls)"

definition resolve_alias :: "'k kmod_env \<Rightarrow> string \<Rightarrow> string" where
  "resolve_alias env name =
     (if uname_release env = [] then name
      else
        (let alias_file = path_join (modules_dir env) ''modules.alias''
         in if \<not> path_exists env alias_file then name
            else (case read_to_string env alias_file of
                    None \<Rightarrow> name
                  | Some content \<Rightarrow>
                      (case first_alias name (text_lines content) of
                         None \<Rightarrow> name
                       | Some m \<Rightarrow> m))))"

datatype modprobe_error = MissingModuleName

definition run_as_modprobe ::
  "'k kmod_env \<Rightarrow> string list \<Rightarrow> 'k kmod_state \<Rightarrow> (modprobe_error + unit) \<times> 'k kmod_state" where
  "run_as_modprobe env args s =
     (case parse_args_for_mod_name args of
        None \<Rightarrow> (Inl MissingModuleName, s)
      | Some raw_name \<Rightarrow>
          (Inr (), load_module_with_dependencies env (resolve_alias env raw_name) s))"

text \<open>
  The choice \<open>main\<close> makes: the program acts as \<open>modprobe\<close> if it is called by such a name or with
  that first argument, and then exits with the code given; otherwise it runs as init.
\<close>

fun contains_text :: "string \<Rightarrow> string \<Rightarrow> bool" where
  "contains_text p [] = (p = [])"
| "contains_text p (c # cs) = (take (length p) (c # cs) = p \<or> contains_text p cs)"

definition is_modprobe :: "string list \<Rightarrow> bool" where
  "is_modprobe args =
     ((case args of [] \<Rightarrow> False | arg0 # _ \<Rightarrow> contains_text ''modprobe'' arg0) \<or>
      (case args of _ # arg1 # _ \<Rightarrow> arg1 = ''modprobe'' | _ \<Rightarrow> False))"

definition run_main :: "'k kmod_env \<Rightarrow> string list \<Rightarrow> 'k kmod_state \<Rightarrow> (nat \<times> 'k kmod_state) option" where
  "run_main env args s =
     (if is_modprobe args
      then (case run_as_modprobe env args s of
              (Inl e, s') \<Rightarrow> Some (1, s')
            | (Inr _, s') \<Rightarrow> Some (0, s'))
      else None)"

lemma contains_text_iff: "contains_text p s \<longleftrightarrow> (\<exists>u v. s = u @ p @ v)"
proof (induction s)
  case (Cons c s)
  have "(\<exists>u v. c # s = u @ p @ v) \<longleftrightarrow> (\<exists>v. c # s = p @ v) \<or> (\<exists>u v. s = u @ p @ v)"
    by (metis Cons_eq_append_conv append_Cons append_Nil)
  moreover have "take (length p) (c # s) = p \<longleftrightarrow> (\<exists>v. c # s = p @ v)"
    by (metis append_eq_conv_conj append_take_drop_id)
  ultimately show ?case using Cons.IH by simp
qed simp

section \<open>Patterns\<close>

text \<open>What a pattern stands for: the set of texts it matches.\<close>

fun pattern_texts :: "string \<Rightarrow> string set" where
  "pattern_texts [] = {[]}"
| "pattern_texts (p # ps) =
     (if p = CHR ''*'' then {u @ v | u v. v \<in> pattern_texts ps}
      else if p = CHR ''?'' then {c # v | c v. v \<in> pattern_texts ps}
      else {p # v | v. v \<in> pattern_texts ps})"

lemma suffix_index:
  "(\<exists>i \<in> set [0..<length s + 1]. P (drop i s)) \<longleftrightarrow> (\<exists>u v. s = u @ v \<and> P v)"
proof
  assume "\<exists>i \<in> set [0..<length s + 1]. P (drop i s)"
  then obtain i where "P (drop i s)" by blast
  then show "\<exists>u v. s = u @ v \<and> P v" by (metis append_take_drop_id)
next
  assume "\<exists>u v. s = u @ v \<and> P v"
  then obtain u v where "s = u @ v" "P v" by blast
  then show "\<exists>i \<in> set [0..<length s + 1]. P (drop i s)"
    by (intro bexI [of _ "length u"]) auto
qed

lemma wildcard_match_texts: "wildcard_match p s \<longleftrightarrow> s \<in> pattern_texts p"
proof (induction p arbitrary: s)
  case (Cons p ps)
  show ?case
  proof (cases "p = CHR ''*''")
    case True
    have "wildcard_match (p # ps) s \<longleftrightarrow>
        ps = [] \<or> (\<exists>i \<in> set [0..<length s + 1]. wildcard_match ps (drop i s))"
      by (simp add: True list_ex_iff)
    also have "\<dots> \<longleftrightarrow> ps = [] \<or> (\<exists>u v. s = u @ v \<and> v \<in> pattern_texts ps)"
      unfolding Cons.IH suffix_index [of s "\<lambda>v. v \<in> pattern_texts ps"] by (rule refl)
    also have "\<dots> \<longleftrightarrow> s \<in> pattern_texts (p # ps)"
      by (cases "ps = []") (auto simp: True)
    finally show ?thesis .
  next
    case False
    then show ?thesis by (cases s) (auto simp: Cons.IH)
  qed
qed simp

text \<open>C40: The pattern matcher of alias resolution is exact: it accepts a text exactly if the
  text is in the set the pattern denotes, where a star stands for any text, a question mark for
  any one character, and every other character for itself; its short cut for a final star
  agrees with the search it replaces.\<close>

theorem wildcard_match_exact: "wildcard_match p s \<longleftrightarrow> s \<in> pattern_texts p"
  by (rule wildcard_match_texts)

section \<open>Order of loading\<close>

lemma load_module_bookkeeping:
  "km_loaded (snd (load_module env path s)) = km_loaded s"
  "km_attempts (snd (load_module env path s)) = km_attempts s @ [path]"
  by (simp_all add: load_module_def Let_def split: sum.split prod.split)

lemma load_unless_loaded_skip [simp]: "name \<in> km_loaded s \<Longrightarrow> load_unless_loaded env name path s = s"
  by (simp add: load_unless_loaded_def)

lemma load_unless_loaded_cases:
  assumes "name \<notin> km_loaded s"
  shows "load_unless_loaded env name path s =
    (let s' = snd (load_module env path s)
     in if isl (fst (load_module env path s)) then s' else s'\<lparr>km_loaded := insert name (km_loaded s')\<rparr>)"
proof -
  obtain r t where l: "load_module env path s = (r, t)" by (cases "load_module env path s")
  show ?thesis by (cases r) (simp_all add: load_unless_loaded_def assms l)
qed

lemma load_unless_loaded_attempts:
  "name \<notin> km_loaded s \<Longrightarrow>
     km_attempts (load_unless_loaded env name path s) = km_attempts s @ [path]"
  by (simp add: load_unless_loaded_cases Let_def load_module_bookkeeping)

lemma load_unless_loaded_set:
  "km_loaded (load_unless_loaded env name path s) =
    (if name \<in> km_loaded s \<or> isl (fst (load_module env path s)) then km_loaded s
     else insert name (km_loaded s))"
proof (cases "name \<in> km_loaded s")
  case False
  then show ?thesis
    by (simp add: load_unless_loaded_cases [OF False] Let_def load_module_bookkeeping)
qed simp

lemma load_unless_loaded_loaded:
  "km_loaded s \<subseteq> km_loaded (load_unless_loaded env name path s)"
  "km_loaded (load_unless_loaded env name path s) \<subseteq> insert name (km_loaded s)"
  unfolding load_unless_loaded_set by (simp_all add: subset_insertI)

text \<open>The loads of a list of files, one after the other.\<close>

definition load_all :: "'k kmod_env \<Rightarrow> (string \<times> string) list \<Rightarrow> 'k kmod_state \<Rightarrow> 'k kmod_state" where
  "load_all env files s = fold (\<lambda>(name, path). load_unless_loaded env name path) files s"

lemma load_all_Nil [simp]: "load_all env [] s = s"
  by (simp add: load_all_def)

lemma load_all_Cons [simp]:
  "load_all env ((name, path) # files) s = load_all env files (load_unless_loaded env name path s)"
  by (simp add: load_all_def)

lemma load_all_append: "load_all env (as @ bs) s = load_all env bs (load_all env as s)"
  by (simp add: load_all_def)

text \<open>The order of the loads of one line: the dependencies from right to left, then the module.\<close>

definition load_order :: "'k kmod_env \<Rightarrow> string \<Rightarrow> string \<Rightarrow> string list \<Rightarrow> (string \<times> string) list" where
  "load_order env mod_name mod_path deps =
     map (\<lambda>dep. (dep_stem (path_join (modules_dir env) dep), path_join (modules_dir env) dep)) (rev deps)
     @ [(mod_name, path_join (modules_dir env) mod_path)]"

lemma load_with_deps_order:
  "load_with_deps env mod_name mod_path deps s = load_all env (load_order env mod_name mod_path deps) s"
  by (simp add: load_with_deps_def load_order_def load_all_def fold_map comp_def Let_def)

lemma load_all_attempts:
  assumes "distinct (map fst files)"
  shows "km_attempts (load_all env files s) =
      km_attempts s @ map snd (filter (\<lambda>(name, path). name \<notin> km_loaded s) files)
    \<and> km_loaded s \<subseteq> km_loaded (load_all env files s)
    \<and> km_loaded (load_all env files s) \<subseteq> km_loaded s \<union> fst ` set files"
  using assms
proof (induction files arbitrary: s)
  case (Cons f files)
  obtain name path where f: "f = (name, path)" by (cases f)
  let ?s = "load_unless_loaded env name path s"
  note grow = load_unless_loaded_loaded [where s = s and env = env and name = name and path = path]
  have same: "filter (\<lambda>(n, p). n \<notin> km_loaded ?s) files = filter (\<lambda>(n, p). n \<notin> km_loaded s) files"
    using grow Cons.prems by (intro filter_cong) (force simp: f)+
  have ih: "km_attempts (load_all env files ?s) =
      km_attempts ?s @ map snd (filter (\<lambda>(n, p). n \<notin> km_loaded s) files)
    \<and> km_loaded ?s \<subseteq> km_loaded (load_all env files ?s)
    \<and> km_loaded (load_all env files ?s) \<subseteq> km_loaded ?s \<union> fst ` set files"
    using Cons.IH [of ?s] Cons.prems unfolding same by (simp add: f)
  moreover have "km_attempts ?s = km_attempts s @ (if name \<in> km_loaded s then [] else [path])"
    by (simp add: load_unless_loaded_attempts)
  ultimately show ?case
    using grow by (auto simp: f)
qed simp

definition sorted_dependencies :: "(string \<Rightarrow> string \<Rightarrow> bool) \<Rightarrow> string list \<Rightarrow> bool" where
  "sorted_dependencies needs deps \<longleftrightarrow>
     (\<forall>i < length deps. \<forall>d. needs (deps ! i) d \<longrightarrow> d \<in> set (drop (i + 1) deps))"

lemma rev_dependencies_first:
  assumes "sorted_dependencies needs deps" and "rev deps = before @ m # after" and "needs m d"
  shows "d \<in> set before"
proof -
  have deps: "deps = rev after @ m # rev before"
    using assms(2) by (metis append.assoc append_Cons append_Nil rev.simps(2) rev_append rev_rev_ident)
  then have "deps ! length after = m" "length after < length deps" by (simp_all add: nth_append)
  with assms(1,3) have "d \<in> set (drop (length after + 1) deps)"
    by (auto simp: sorted_dependencies_def)
  then show ?thesis by (simp add: deps)
qed

text \<open>C30: A module is loaded after what it needs. If the module's line of \<open>modules.dep\<close> is in
  depmod's order (what a file of the line needs stands to its right, and the module needs only
  files of the line), then the loads attempted are, in this order, the files of the line from
  right to left and then the module, every file after all those it needs; the files whose
  modules are recorded as loaded are left out, no file is attempted twice, a failed load does
  not stop the others, and the record only grows, by modules of the line.\<close>

theorem dependencies_loaded_first:
  fixes env :: "'k kmod_env" and s :: "'k kmod_state"
  assumes "uname_release env \<noteq> []" and "path_exists env (path_join (modules_dir env) ''modules.dep'')"
    and "read_to_string env (path_join (modules_dir env) ''modules.dep'') = Some content"
    and "find_dep_line m (text_lines content) = Some (mod_path, deps)" and "m \<notin> km_loaded s"
    and "distinct (map fst (load_order env m mod_path deps))"
    and "sorted_dependencies needs deps" and "\<forall>d. needs mod_path d \<longrightarrow> d \<in> set deps"
    and "mod_path \<notin> set deps"
  defines "s' \<equiv> load_module_with_dependencies env m s"
  shows "km_attempts s' = km_attempts s @
      map snd [f \<leftarrow> load_order env m mod_path deps. fst f \<notin> km_loaded s]
    \<and> (\<forall>before f after. rev deps @ [mod_path] = before @ f # after \<longrightarrow>
         (\<forall>d. needs f d \<longrightarrow> d \<in> set before))
    \<and> km_loaded s \<subseteq> km_loaded s'
    \<and> km_loaded s' \<subseteq> km_loaded s \<union> fst ` set (load_order env m mod_path deps)"
proof -
  have s': "s' = load_all env (load_order env m mod_path deps) s"
    using assms(1-5) by (simp add: s'_def load_module_with_dependencies_def Let_def load_with_deps_order)
  have "d \<in> set before" if split: "rev deps @ [mod_path] = before @ f # after" and n: "needs f d"
    for before f after d
  proof (cases "after = []")
    case True
    then have "before = rev deps" "f = mod_path" using split by simp_all
    then show ?thesis using n assms(8) by simp
  next
    case False
    then obtain after' where "after = after' @ [mod_path]"
      using split by (metis append_butlast_last_id last_ConsR last_append last_snoc list.distinct(1))
    then have "rev deps = before @ f # after'" using split by simp
    then show ?thesis using rev_dependencies_first [OF assms(7)] n by blast
  qed
  then show ?thesis
    using load_all_attempts [OF assms(6), where s = s] by (simp add: s' case_prod_beta')
qed

definition sample_env :: "unit kmod_env" where
  "sample_env = \<lparr>uname_release = ''6'', read_dir = (\<lambda>_. None), path_exists = (\<lambda>_. True),
     read_to_string = (\<lambda>_. Some ''a/b.ko: c.ko.xz d.ko''), read_file = (\<lambda>_. Inr [1]),
     xz_decompress = Inr, gz_decompress = Inr, zst_decompress = Inr,
     init_module = (\<lambda>d k. (None, k))\<rparr>"

definition sample_kmod :: "unit kmod_state" where
  "sample_kmod = \<lparr>km_loaded = {''d''}, km_kernel = (), km_attempts = []\<rparr>"

definition sample_needs :: "string \<Rightarrow> string \<Rightarrow> bool" where
  "sample_needs a b \<longleftrightarrow> (a, b) \<in> {(''a/b.ko'', ''c.ko.xz''), (''c.ko.xz'', ''d.ko'')}"

lemma sample_env_line:
  "find_dep_line ''b'' (text_lines ''a/b.ko: c.ko.xz d.ko'') = Some (''a/b.ko'', [''c.ko.xz'', ''d.ko''])"
  by (simp add: text_lines_def newline_def dep_line_def trim_def is_whitespace_def path_stem_def
      file_name_def stem_def split_whitespace_def)

lemma sample_env_order:
  "load_order sample_env ''b'' ''a/b.ko'' [''c.ko.xz'', ''d.ko''] =
     [(''d'', ''/lib/modules/6/d.ko''), (''c'', ''/lib/modules/6/c.ko.xz''),
      (''b'', ''/lib/modules/6/a/b.ko'')]"
  by (simp add: load_order_def modules_dir_def sample_env_def path_join_def dep_stem_def path_stem_def
      file_name_def stem_def)

theorem dependencies_loaded_first_witness:
  "km_attempts (load_module_with_dependencies sample_env ''b'' sample_kmod) =
     [''/lib/modules/6/c.ko.xz'', ''/lib/modules/6/a/b.ko'']"
proof -
  have "sorted_dependencies sample_needs [''c.ko.xz'', ''d.ko'']"
    by (auto simp: sorted_dependencies_def sample_needs_def less_Suc_eq)
  moreover have "distinct (map fst (load_order sample_env ''b'' ''a/b.ko'' [''c.ko.xz'', ''d.ko'']))"
    unfolding sample_env_order by simp
  moreover have "\<forall>d. sample_needs ''a/b.ko'' d \<longrightarrow> d \<in> set [''c.ko.xz'', ''d.ko'']"
    by (auto simp: sample_needs_def)
  ultimately show ?thesis
    using dependencies_loaded_first [of sample_env _ "''b''" "''a/b.ko''" "[''c.ko.xz'', ''d.ko'']"
        sample_kmod sample_needs, OF _ _ _ sample_env_line]
    unfolding sample_env_order
    by (simp add: sample_kmod_def) (simp add: sample_env_def)
qed

section \<open>Aliases\<close>

definition alias_line :: "string \<Rightarrow> string \<Rightarrow> string \<Rightarrow> bool" where
  "alias_line name m l \<longleftrightarrow>
     (\<exists>pattern rest. split_whitespace l = ''alias'' # pattern # m # rest \<and> name \<in> pattern_texts pattern)"

lemma alias_line_iff:
  "alias_line name m l \<longleftrightarrow>
     (let parts = split_whitespace l
      in 3 \<le> length parts \<and> parts ! 0 = ''alias'' \<and> wildcard_match (parts ! 1) name \<and> m = parts ! 2)"
proof -
  have "wildcard_match p s \<longleftrightarrow> s \<in> pattern_texts p" for p s
    by (rule wildcard_match_texts)
  then show ?thesis
    by (cases "split_whitespace l"; cases "tl (split_whitespace l)"; cases "tl (tl (split_whitespace l))")
      (auto simp: alias_line_def Let_def)
qed

lemma first_alias_here: "alias_line name m l \<Longrightarrow> first_alias name (l # ls) = Some m"
  by (simp add: alias_line_iff Let_def)

lemma first_alias_skip: "\<forall>m. \<not> alias_line name m l \<Longrightarrow> first_alias name (l # ls) = first_alias name ls"
  by (auto simp: alias_line_iff Let_def)

lemma first_alias_first:
  "alias_line name m l \<Longrightarrow> \<forall>l' \<in> set before. \<forall>m'. \<not> alias_line name m' l' \<Longrightarrow>
     first_alias name (before @ l # after) = Some m"
proof (induction before)
  case Nil
  then show ?case using first_alias_here by simp
next
  case (Cons v before)
  then have "first_alias name ((v # before) @ l # after) = first_alias name (before @ l # after)"
    using first_alias_skip [of name v] by simp
  then show ?case using Cons by simp
qed

lemma first_alias_None:
  "first_alias name ls = None \<longleftrightarrow> (\<forall>l \<in> set ls. \<forall>m. \<not> alias_line name m l)"
proof (induction ls)
  case (Cons l ls)
  show ?case
  proof (cases "\<exists>m. alias_line name m l")
    case True
    then show ?thesis using first_alias_here [of name _ l ls] by auto
  next
    case False
    then show ?thesis using first_alias_skip [of name l ls] Cons.IH by simp
  qed
qed simp

text \<open>The program \<open>modprobe\<close> resolves a name by the alias file exactly as its lines say: to the module
  of the first line, in file order, that is an alias whose pattern denotes the name, and to the
  name itself if there is no such line, or no alias file; it then loads that module with its
  dependencies, and without a module name it fails and changes nothing.\<close>

theorem modprobe_resolves_first_alias:
  assumes "uname_release env \<noteq> []"
    and "path_exists env (path_join (modules_dir env) ''modules.alias'')"
    and "read_to_string env (path_join (modules_dir env) ''modules.alias'') = Some content"
  shows "run_as_modprobe env args s =
      (case parse_args_for_mod_name args of
         None \<Rightarrow> (Inl MissingModuleName, s)
       | Some name \<Rightarrow> (Inr (), load_module_with_dependencies env (resolve_alias env name) s))
    \<and> (\<forall>before l after m. text_lines content = before @ l # after \<and> alias_line name m l \<and>
         (\<forall>l' \<in> set before. \<forall>m'. \<not> alias_line name m' l') \<longrightarrow> resolve_alias env name = m)
    \<and> ((\<forall>l \<in> set (text_lines content). \<forall>m. \<not> alias_line name m l) \<longrightarrow> resolve_alias env name = name)"
proof -
  have "resolve_alias env name = (case first_alias name (text_lines content) of None \<Rightarrow> name | Some m \<Rightarrow> m)"
    using assms by (simp add: resolve_alias_def Let_def)
  moreover have "first_alias name (text_lines content) = Some m"
    if "text_lines content = before @ l # after" "alias_line name m l"
      "\<forall>l' \<in> set before. \<forall>m'. \<not> alias_line name m' l'" for before l after m
    unfolding that(1) using that(2,3) by (rule first_alias_first)
  moreover have "first_alias name (text_lines content) = None"
    if "\<forall>l \<in> set (text_lines content). \<forall>m. \<not> alias_line name m l"
    using that unfolding first_alias_None .
  ultimately show ?thesis by (auto simp: run_as_modprobe_def split: option.split)
qed

definition alias_env :: "unit kmod_env" where
  "alias_env = sample_env\<lparr>read_to_string := (\<lambda>_. Some ''alias pci:* virtio_pci'')\<rparr>"

theorem modprobe_resolves_first_alias_witness:
  "resolve_alias alias_env ''pci:v1'' = ''virtio_pci''"
proof -
  have line: "text_lines ''alias pci:* virtio_pci'' = [] @ ''alias pci:* virtio_pci'' # []"
    by (simp add: text_lines_def newline_def)
  have match: "alias_line ''pci:v1'' ''virtio_pci'' ''alias pci:* virtio_pci''"
    by (auto simp: alias_line_def split_whitespace_def is_whitespace_def)
  have "uname_release alias_env \<noteq> []" "path_exists alias_env (path_join (modules_dir alias_env) ''modules.alias'')"
      "read_to_string alias_env (path_join (modules_dir alias_env) ''modules.alias'') =
        Some ''alias pci:* virtio_pci''"
    by (simp_all add: alias_env_def sample_env_def)
  from modprobe_resolves_first_alias [OF this] line match show ?thesis by fastforce
qed

end
