(* ===== verification/Config.thy ===== *)
theory Config
  imports Rust_Text
begin

text \<open>
  \<open>RouterConfig::parse\<close> of \<open>src/config.rs\<close>: the environment is the argument \<open>env_var\<close>
  (\<open>env::var(..).ok()\<close>), the answer of \<open>read_cmdline\<close> the argument \<open>cmdline\<close>, \<open>None\<close> when it
  fails.
\<close>

record router_config =
  cfg_wan_interface :: string
  cfg_lan_interface :: string
  cfg_lan_ip :: string

record parsed_args =
  parsed_wan :: "string option"
  parsed_lan :: "string option"
  parsed_lan_ip :: "string option"

text \<open>The body of the loop over the arguments.\<close>

definition parse_arg :: "string \<Rightarrow> parsed_args \<Rightarrow> parsed_args" where
  "parse_arg arg p =
     (case strip_prefix ''rustyrouter.wan='' arg of
        Some val \<Rightarrow> p\<lparr>parsed_wan := Some val\<rparr>
      | None \<Rightarrow>
     (case strip_prefix ''rustyrouter.lan='' arg of
        Some val \<Rightarrow> p\<lparr>parsed_lan := Some val\<rparr>
      | None \<Rightarrow>
     (case strip_prefix ''rustyrouter.lan_ip='' arg of
        Some val \<Rightarrow> p\<lparr>parsed_lan_ip := Some val\<rparr>
      | None \<Rightarrow> p)))"

definition unwrap_or :: "'a option \<Rightarrow> 'a \<Rightarrow> 'a" where
  "unwrap_or x d = (case x of Some a \<Rightarrow> a | None \<Rightarrow> d)"

definition parse_config :: "(string \<Rightarrow> string option) \<Rightarrow> string option \<Rightarrow> router_config" where
  "parse_config env_var cmdline =
     (case (env_var ''RUSTYROUTER_WAN'', env_var ''RUSTYROUTER_LAN'', env_var ''RUSTYROUTER_LAN_IP'') of
        (Some w, Some l, Some ip) \<Rightarrow>
          \<lparr>cfg_wan_interface = w, cfg_lan_interface = l, cfg_lan_ip = ip\<rparr>
      | _ \<Rightarrow>
          (let start = \<lparr>parsed_wan = None, parsed_lan = None, parsed_lan_ip = None\<rparr>;
               p = (case cmdline of
                      Some text \<Rightarrow> fold parse_arg (split_whitespace text) start
                    | None \<Rightarrow> start)
           in \<lparr>cfg_wan_interface = unwrap_or (parsed_wan p) ''eth0'',
               cfg_lan_interface = unwrap_or (parsed_lan p) ''eth1'',
               cfg_lan_ip = unwrap_or (parsed_lan_ip p) ''192.168.1.1/24''\<rparr>))"

section \<open>What a command line sets\<close>

text \<open>The values a list of arguments gives to a key, in order.\<close>

definition settings :: "string \<Rightarrow> string list \<Rightarrow> string list" where
  "settings key args = List.map_filter (strip_prefix key) args"

definition last_setting :: "string \<Rightarrow> string list \<Rightarrow> string option" where
  "last_setting key args = (case settings key args of [] \<Rightarrow> None | v # vs \<Rightarrow> Some (last (v # vs)))"

lemma settings_snoc:
  "settings key (args @ [a]) =
     settings key args @ (case strip_prefix key a of None \<Rightarrow> [] | Some v \<Rightarrow> [v])"
  by (cases "strip_prefix key a") (simp_all add: settings_def List.map_filter_def)

lemma last_setting_snoc:
  "last_setting key (args @ [a]) =
     (case strip_prefix key a of None \<Rightarrow> last_setting key args | Some v \<Rightarrow> Some v)"
  by (cases "settings key args") (auto simp: last_setting_def settings_snoc split: option.split)

lemma keys_disjoint:
  "strip_prefix ''rustyrouter.wan='' a = Some v \<Longrightarrow>
     strip_prefix ''rustyrouter.lan='' a = None \<and> strip_prefix ''rustyrouter.lan_ip='' a = None"
  "strip_prefix ''rustyrouter.lan='' a = Some v \<Longrightarrow>
     strip_prefix ''rustyrouter.wan='' a = None \<and> strip_prefix ''rustyrouter.lan_ip='' a = None"
  by (auto simp: strip_prefix_iff)

lemma fold_parse_arg:
  "fold parse_arg args \<lparr>parsed_wan = None, parsed_lan = None, parsed_lan_ip = None\<rparr> =
     \<lparr>parsed_wan = last_setting ''rustyrouter.wan='' args,
      parsed_lan = last_setting ''rustyrouter.lan='' args,
      parsed_lan_ip = last_setting ''rustyrouter.lan_ip='' args\<rparr>"
proof (induction args rule: rev_induct)
  case Nil
  show ?case by (simp add: last_setting_def settings_def List.map_filter_def)
next
  case (snoc a args)
  show ?case
    unfolding fold_append comp_def snoc.IH last_setting_snoc
    using keys_disjoint [of a]
    by (auto simp: parse_arg_def split: option.split)
qed

text \<open>How the router is configured: if all three environment variables are set they are the
  configuration; otherwise they are ignored, all of them, and each setting is the last value the
  kernel command line gives it, wherever it stands among the other arguments, or the default
  eth0, eth1 and 192.168.1.1/24, also when the command line cannot be read.\<close>

theorem configuration_sources:
  assumes "\<forall>w \<in> set args. is_word w"
  shows "(env_var ''RUSTYROUTER_WAN'' = Some w \<and> env_var ''RUSTYROUTER_LAN'' = Some l \<and>
      env_var ''RUSTYROUTER_LAN_IP'' = Some ip \<longrightarrow>
        parse_config env_var cmdline = \<lparr>cfg_wan_interface = w, cfg_lan_interface = l, cfg_lan_ip = ip\<rparr>)
    \<and> (None \<in> {env_var ''RUSTYROUTER_WAN'', env_var ''RUSTYROUTER_LAN'', env_var ''RUSTYROUTER_LAN_IP''} \<longrightarrow>
        parse_config env_var (Some (unwords args)) =
          \<lparr>cfg_wan_interface = unwrap_or (last_setting ''rustyrouter.wan='' args) ''eth0'',
           cfg_lan_interface = unwrap_or (last_setting ''rustyrouter.lan='' args) ''eth1'',
           cfg_lan_ip = unwrap_or (last_setting ''rustyrouter.lan_ip='' args) ''192.168.1.1/24''\<rparr> \<and>
        parse_config env_var None =
          \<lparr>cfg_wan_interface = ''eth0'', cfg_lan_interface = ''eth1'', cfg_lan_ip = ''192.168.1.1/24''\<rparr>)"
  unfolding parse_config_def
  by (auto simp: Let_def fold_parse_arg split_whitespace_unwords [OF assms] unwrap_or_def
      split: option.splits)

theorem configuration_sources_witness:
  "parse_config (\<lambda>_. None) (Some (unwords [''rustyrouter.lan=lan0'', ''quiet'', ''rustyrouter.lan=lan1''])) =
     \<lparr>cfg_wan_interface = ''eth0'', cfg_lan_interface = ''lan1'', cfg_lan_ip = ''192.168.1.1/24''\<rparr>"
proof -
  have words: "\<forall>w \<in> set [''rustyrouter.lan=lan0'', ''quiet'', ''rustyrouter.lan=lan1'']. is_word w"
    by (simp add: is_word_def is_whitespace_def)
  show ?thesis
    using configuration_sources [OF words, of "\<lambda>_. None"]
    by (simp add: last_setting_def settings_def List.map_filter_def unwrap_or_def del: unwords.simps)
qed

end
