(* ===== verification/Sntp_Client.thy ===== *)
theory Sntp_Client
  imports Wan_Lease Backoff
begin

text \<open>
  The SNTP client, \<open>src/services/sntp_client.rs\<close>: its loop with the retry delays, the resolution
  of its server through the router's own DNS forwarder (\<open>resolve_dns_a_record\<close> of
  \<open>src/services/utils.rs\<close>), and \<open>sync_time\<close>, which sets the clock. The NTP exchange is the crate
  \<open>rsntp\<close>'s: its answers are arguments.
\<close>

section \<open>The loop\<close>

definition SYNC_INTERVAL :: duration where "SYNC_INTERVAL = from_secs 1800"
definition RETRY_INTERVAL :: duration where "RETRY_INTERVAL = from_secs 60"
definition MAX_RETRY_INTERVAL :: duration where "MAX_RETRY_INTERVAL = from_secs 900"

text \<open>
  One turn: the time slept and the retry delay after it, from whether the shared lease has an
  address and, if so, whether the synchronisation succeeded.
\<close>

definition sntp_turn :: "wan_lease \<Rightarrow> string option \<Rightarrow> duration \<Rightarrow> duration \<times> duration" where
  "sntp_turn lease sync_error current_retry_delay =
     (let has_wan = (wl_ip lease \<noteq> None)
      in if \<not> has_wan then (from_secs 5, RETRY_INTERVAL)
         else (case sync_error of
                 None \<Rightarrow> (SYNC_INTERVAL, RETRY_INTERVAL)
               | Some e \<Rightarrow>
                   (current_retry_delay, min (current_retry_delay * 2) MAX_RETRY_INTERVAL)))"

fun sntp_sleeps :: "(wan_lease \<times> string option) list \<Rightarrow> duration \<Rightarrow> duration list" where
  "sntp_sleeps [] delay = []"
| "sntp_sleeps ((lease, err) # turns) delay =
     (let (slept, delay) = sntp_turn lease err delay in slept # sntp_sleeps turns delay)"

definition start_sntp_client :: "(wan_lease \<times> string option) list \<Rightarrow> duration list" where
  "start_sntp_client turns = sntp_sleeps turns RETRY_INTERVAL"

section \<open>Resolving the server\<close>

text \<open>What the code reads of a parsed reply: its transaction id, and of each answer the address
  if it is an A record.\<close>

record dns_reply =
  reply_id :: u16
  reply_answers :: "ipv4 option list"

text \<open>
  The answers of the socket, the random transaction id, and the crate \<open>dns_parser\<close>: the bytes of
  a recursive query for the A record of a host, if they can be built, and the parsed reply.
  \<open>re_recv\<close> is what came within three seconds and from whom; \<open>None\<close> is the time-out.
\<close>

record resolve_env =
  re_bind :: "string option"
  re_query_id :: u16
  re_build :: "u16 \<Rightarrow> string \<Rightarrow> bytes option"
  re_send :: "string option"
  re_recv :: "(string + bytes \<times> (ipv4 \<times> u16)) option"
  re_parse :: "bytes \<Rightarrow> string + dns_reply"

definition dns_server :: "ipv4 \<times> u16" where
  "dns_server = (ipv4_new 127 0 0 1, 53)"

fun first_a_record :: "ipv4 option list \<Rightarrow> ipv4 option" where
  "first_a_record [] = None"
| "first_a_record (Some a # as) = Some a"
| "first_a_record (None # as) = first_a_record as"

definition read_answer :: "resolve_env \<Rightarrow> string \<Rightarrow> string + ipv4" where
  "read_answer env host =
     (case re_recv env of
        None \<Rightarrow> Inl ''DNS query timed out''
      | Some (Inl e) \<Rightarrow> Inl (''Socket receive error: '' @ e)
      | Some (Inr (buf, addr)) \<Rightarrow>
          if addr \<noteq> dns_server then Inl ''Received packet from unexpected source''
          else (case re_parse env (take 512 buf) of
                  Inl e \<Rightarrow> Inl (''Failed to parse DNS response: '' @ e)
                | Inr packet \<Rightarrow>
                    if reply_id packet \<noteq> re_query_id env then Inl ''Transaction ID mismatch''
                    else (case first_a_record (reply_answers packet) of
                            None \<Rightarrow> Inl (''No A record resolved for '' @ host)
                          | Some a \<Rightarrow> Inr a)))"

text \<open>The datagrams sent to the local forwarder, and the result.\<close>

definition resolve_dns_a_record :: "resolve_env \<Rightarrow> string \<Rightarrow> bytes list \<times> (string + ipv4)" where
  "resolve_dns_a_record env host =
     (case re_bind env of
        Some e \<Rightarrow> ([], Inl (''Failed to bind DNS query socket: '' @ e))
      | None \<Rightarrow>
     case re_build env (re_query_id env) host of
        None \<Rightarrow> ([], Inl ''Failed to build DNS query packet'')
      | Some query \<Rightarrow>
     case re_send env of
        Some e \<Rightarrow> ([], Inl (''Failed to send DNS query: '' @ e))
      | None \<Rightarrow> ([query], read_answer env host))"

lemma first_a_record_Some:
  "first_a_record as = Some a \<longleftrightarrow> (\<exists>post k. as = replicate k None @ Some a # post)"
proof (induction as rule: first_a_record.induct)
  case (2 b as)
  show ?case
  proof
    show "first_a_record (Some b # as) = Some a \<Longrightarrow> \<exists>post k. Some b # as = replicate k None @ Some a # post"
      by (intro exI [of _ as] exI [of _ 0]) simp
    assume "\<exists>post k. Some b # as = replicate k None @ Some a # post"
    then obtain post k where "Some b # as = replicate k None @ Some a # post" by blast
    then show "first_a_record (Some b # as) = Some a" by (cases k) auto
  qed
next
  case (3 as)
  show ?case
  proof
    assume "first_a_record (None # as) = Some a"
    then obtain post k where "as = replicate k None @ Some a # post" using 3 by auto
    then show "\<exists>post k. None # as = replicate k None @ Some a # post"
      by (intro exI [of _ post] exI [of _ "Suc k"]) simp
  next
    assume "\<exists>post k. None # as = replicate k None @ Some a # post"
    then obtain post k where "None # as = replicate k None @ Some a # post" by blast
    then show "first_a_record (None # as) = Some a" using 3 by (cases k) auto
  qed
qed simp

text \<open>An address is resolved only from the local forwarder's reply to this very query, and is
  its first A record.\<close>

lemma resolve_dns_a_record_ok:
  "snd (resolve_dns_a_record env host) = Inr a \<longleftrightarrow>
     re_bind env = None \<and> re_send env = None \<and> re_build env (re_query_id env) host \<noteq> None \<and>
     (\<exists>buf packet. re_recv env = Some (Inr (buf, dns_server)) \<and>
        re_parse env (take 512 buf) = Inr packet \<and> reply_id packet = re_query_id env \<and>
        first_a_record (reply_answers packet) = Some a)"
  by (auto simp: resolve_dns_a_record_def read_answer_def split: option.splits sum.splits prod.splits if_splits)

section \<open>Setting the clock\<close>

text \<open>
  The NTP exchange is the crate \<open>rsntp\<close>'s: \<open>se_synchronize\<close> asks the server, \<open>se_datetime\<close> converts
  its result to the nanoseconds since 1970 the \<open>chrono\<close> date stands for. \<open>se_settime\<close> is the
  kernel's answer to \<open>clock_settime\<close> for a \<open>TimeSpec\<close> of seconds and nanoseconds.
\<close>

record 'r sntp_env =
  se_resolve :: resolve_env
  se_synchronize :: "ipv4 \<times> u16 \<Rightarrow> string + 'r"
  se_datetime :: "'r \<Rightarrow> string + int"
  se_settime :: "nat \<times> nat \<Rightarrow> string option"

text \<open>\<open>duration.to_std().unwrap()\<close> panics on a date before 1970.\<close>

definition timespec_of :: "int \<Rightarrow> (nat \<times> nat) outcome" where
  "timespec_of t =
     (if t < 0 then Inl UnwrapOnErr else Inr (nat t div 1000000000, nat t mod 1000000000))"

text \<open>The settings of the clock that were requested, and the result.\<close>

definition sync_time :: "'r sntp_env \<Rightarrow> (nat \<times> nat) list \<times> (string + int) outcome" where
  "sync_time env =
     (case snd (resolve_dns_a_record (se_resolve env) ''pool.ntp.org'') of
        Inl e \<Rightarrow> ([], Inr (Inl e))
      | Inr ntp_server_ip \<Rightarrow>
     case se_synchronize env (ntp_server_ip, 123) of
        Inl e \<Rightarrow> ([], Inr (Inl (''NTP synchronization failed: '' @ e)))
      | Inr result \<Rightarrow>
     case se_datetime env result of
        Inl e \<Rightarrow> ([], Inr (Inl (''Failed to convert NTP datetime: '' @ e)))
      | Inr chrono_dt \<Rightarrow>
     case timespec_of chrono_dt of
        Inl p \<Rightarrow> ([], Inl p)
      | Inr timespec \<Rightarrow>
     case se_settime env timespec of
        Some e \<Rightarrow> ([timespec], Inr (Inl (''Failed to set system clock: '' @ e)))
      | None \<Rightarrow> ([timespec], Inr (Inr chrono_dt)))"

text \<open>A turn of the client's loop with the synchronisation it makes: queries sent, clock settings,
  and time slept with the next retry delay.\<close>

definition sntp_pass ::
  "wan_lease \<Rightarrow> 'r sntp_env \<Rightarrow> duration \<Rightarrow>
     (bytes list \<times> (nat \<times> nat) list \<times> duration \<times> duration) outcome" where
  "sntp_pass lease env delay =
     (if wl_ip lease = None then Inr ([], [], sntp_turn lease None delay)
      else (case sync_time env of
              (clock, Inl p) \<Rightarrow> Inl p
            | (clock, Inr (Inl e)) \<Rightarrow>
                Inr (fst (resolve_dns_a_record (se_resolve env) ''pool.ntp.org''), clock,
                     sntp_turn lease (Some e) delay)
            | (clock, Inr (Inr t)) \<Rightarrow>
                Inr (fst (resolve_dns_a_record (se_resolve env) ''pool.ntp.org''), clock,
                     sntp_turn lease None delay)))"

lemma timespec_of_exact:
  "timespec_of t = Inr (s, n) \<longleftrightarrow> t = int s * 1000000000 + int n \<and> n < 1000000000"
proof
  assume "timespec_of t = Inr (s, n)"
  then show "t = int s * 1000000000 + int n \<and> n < 1000000000"
    by (auto simp: timespec_of_def zdiv_int zmod_int split: if_splits)
next
  assume t: "t = int s * 1000000000 + int n \<and> n < 1000000000"
  then have "t = int (s * 1000000000 + n)" by simp
  then have "nat t = s * 1000000000 + n" and "0 \<le> t" by (simp_all only: nat_int of_nat_0_le_iff)
  then show "timespec_of t = Inr (s, n)" using t by (simp add: timespec_of_def)
qed

lemma sync_time_clock:
  assumes "(s, n) \<in> set (fst (sync_time env))"
  shows "\<exists>a r. snd (resolve_dns_a_record (se_resolve env) ''pool.ntp.org'') = Inr a \<and>
    se_synchronize env (a, 123) = Inr r \<and> se_datetime env r = Inr (int s * 1000000000 + int n) \<and>
    n < 1000000000"
  using assms by (auto simp: sync_time_def timespec_of_exact split: sum.splits option.splits)

text \<open>C32: The SNTP client sets the clock only to the time it was told and only over a working
  WAN connection: while the published lease has no address, no query is sent and the clock is
  left alone; otherwise the clock is set at most once in a turn, and then to exactly the
  instant, to the nanosecond, that the NTP exchange with the first address resolved by the local
  forwarder in answer to this very query gave. A synchronisation that reports success has set
  it. The task panics exactly if that instant lies before 1970.\<close>

theorem clock_set_exactly:
  "case sync_time env of (clock, res) \<Rightarrow>
     (\<forall>s n. (s, n) \<in> set clock \<longrightarrow> clock = [(s, n)] \<and> n < 1000000000 \<and>
        (\<exists>a r. snd (resolve_dns_a_record (se_resolve env) ''pool.ntp.org'') = Inr a \<and>
           se_synchronize env (a, 123) = Inr r \<and>
           se_datetime env r = Inr (int s * 1000000000 + int n)))
   \<and> (\<forall>t. res = Inr (Inr t) \<longrightarrow> (\<exists>s n. clock = [(s, n)] \<and> t = int s * 1000000000 + int n \<and>
        se_settime env (s, n) = None))
   \<and> ((\<exists>p. res = Inl p) \<longleftrightarrow> (\<exists>a r t.
        snd (resolve_dns_a_record (se_resolve env) ''pool.ntp.org'') = Inr a \<and>
        se_synchronize env (a, 123) = Inr r \<and> se_datetime env r = Inr t \<and> t < 0))
   \<and> (wl_ip lease = None \<longrightarrow> sntp_pass lease env delay = Inr ([], [], from_secs 5, from_secs 60))"
proof -
  have pass: "wl_ip lease = None \<Longrightarrow> sntp_pass lease env delay = Inr ([], [], from_secs 5, from_secs 60)"
    by (simp add: sntp_pass_def sntp_turn_def RETRY_INTERVAL_def)
  show ?thesis
  proof (cases "\<exists>a r t. snd (resolve_dns_a_record (se_resolve env) ''pool.ntp.org'') = Inr a \<and>
      se_synchronize env (a, 123) = Inr r \<and> se_datetime env r = Inr t")
    case False
    then have "fst (sync_time env) = []" "\<exists>e. snd (sync_time env) = Inr (Inl e)"
      by (auto simp: sync_time_def split: sum.splits option.splits)
    with False pass show ?thesis by (auto simp: case_prod_beta)
  next
    case True
    then obtain a r t where ok: "snd (resolve_dns_a_record (se_resolve env) ''pool.ntp.org'') = Inr a"
      "se_synchronize env (a, 123) = Inr r" "se_datetime env r = Inr t" by blast
    show ?thesis
    proof (cases "timespec_of t")
      case (Inl p)
      then have "t < 0" by (auto simp: timespec_of_def split: if_splits)
      with ok Inl pass show ?thesis by (simp add: sync_time_def)
    next
      case (Inr ts)
      obtain s n where ts: "ts = (s, n)" by (cases ts)
      from Inr [unfolded ts timespec_of_exact] have t: "t = int s * 1000000000 + int n" "n < 1000000000"
        by simp_all
      with ok Inr ts pass show ?thesis
        by (cases "se_settime env (s, n)") (auto simp: sync_time_def)
    qed
  qed
qed

definition sample_resolve :: resolve_env where
  "sample_resolve = \<lparr>re_bind = None, re_query_id = 9, re_build = (\<lambda>i h. Some [0, 9]), re_send = None,
     re_recv = Some (Inr ([0, 9], dns_server)),
     re_parse = (\<lambda>b. Inr \<lparr>reply_id = 9, reply_answers = [None, Some (ipv4_new 10 0 0 1)]\<rparr>)\<rparr>"

definition sample_sntp :: "int sntp_env" where
  "sample_sntp = \<lparr>se_resolve = sample_resolve, se_synchronize = (\<lambda>_. Inr 1700000000000000005),
     se_datetime = Inr, se_settime = (\<lambda>_. None)\<rparr>"

theorem clock_set_exactly_witness:
  "\<exists>s n. fst (sync_time sample_sntp) = [(s, n)] \<and> 1700000000000000005 = int s * 1000000000 + int n"
proof -
  have "snd (sync_time sample_sntp) = Inr (Inr 1700000000000000005)"
    by (simp add: sync_time_def sample_sntp_def resolve_dns_a_record_def read_answer_def sample_resolve_def
        timespec_of_def)
  then show ?thesis using clock_set_exactly [of sample_sntp wan_lease_default 0] by (auto simp: case_prod_beta)
qed

section \<open>Retry delays\<close>

definition double_retry :: "duration \<Rightarrow> duration" where
  "double_retry d = min (d * 2) MAX_RETRY_INTERVAL"

interpretation sntp: capped_backoff double_retry "\<lambda>d. d" MAX_RETRY_INTERVAL
  by unfold_locales (simp add: double_retry_def mult.commute)

definition failing :: "wan_lease \<times> string option \<Rightarrow> bool" where
  "failing t \<longleftrightarrow> wl_ip (fst t) \<noteq> None \<and> snd t \<noteq> None"

lemma sntp_turn_failing: "failing (l, e) \<Longrightarrow> sntp_turn l e d = (d, double_retry d)"
  by (auto simp: failing_def sntp_turn_def double_retry_def)

lemma sntp_turn_ok:
  "\<not> failing (l, e) \<Longrightarrow>
     sntp_turn l e d = (if wl_ip l = None then from_secs 5 else SYNC_INTERVAL, RETRY_INTERVAL)"
  by (auto simp: failing_def sntp_turn_def split: option.split)

lemma sntp_failures:
  "\<forall>t \<in> set fs. failing t \<Longrightarrow>
     sntp_sleeps (fs @ ts) d =
       map (\<lambda>i. (double_retry ^^ i) d) [0..<length fs] @ sntp_sleeps ts ((double_retry ^^ length fs) d)"
proof (induction fs arbitrary: d)
  case (Cons t fs)
  obtain l e where t: "t = (l, e)" by (cases t)
  have "map (\<lambda>i. (double_retry ^^ i) d) [0..<length (t # fs)] =
      d # map (\<lambda>i. (double_retry ^^ i) (double_retry d)) [0..<length fs]"
    by (subst upt_conv_Cons) (auto simp: map_Suc_upt [symmetric] funpow_swap1 simp del: upt_Suc)
  then show ?case
    using Cons by (simp add: t sntp_turn_failing funpow_swap1 del: upt_Suc)
qed simp

lemma sntp_append: "\<exists>d'. sntp_sleeps (ts @ us) d = sntp_sleeps ts d @ sntp_sleeps us d'"
proof (induction ts arbitrary: d)
  case (Cons t ts)
  then show ?case by (cases t) (auto simp: split: prod.split)
qed auto

lemma sntp_reset:
  "\<not> failing t \<Longrightarrow> \<exists>slept. sntp_sleeps (ts @ t # us) d =
     sntp_sleeps ts d @ slept # sntp_sleeps us RETRY_INTERVAL"
proof (induction ts arbitrary: d)
  case Nil
  then show ?case by (cases t) (auto simp: sntp_turn_ok)
next
  case (Cons v ts)
  then show ?case by (cases v) (auto split: prod.split)
qed

text \<open>The SNTP client backs off and recovers: after a turn without WAN address or with a
  successful synchronisation (or at the start), a run of failures sleeps 60 seconds, then twice
  as long each time up to 900 seconds and never longer, and the next turn that does not fail
  sets the delay back to 60 seconds.\<close>

theorem sntp_backs_off:
  assumes "\<forall>t \<in> set fails. failing t" and "\<not> failing ok"
  shows "\<exists>before slept. length before = Suc (length turns) \<and>
    start_sntp_client (turns @ ok # fails @ ok # rest) =
      before @ map (\<lambda>i. from_secs (min (60 * 2 ^ i) 900)) [0..<length fails] @
      slept # sntp_sleeps rest RETRY_INTERVAL"
proof -
  have len: "length (sntp_sleeps ts d) = length ts" for ts d
    by (induction ts arbitrary: d) (auto split: prod.split)
  have secs: "(double_retry ^^ i) RETRY_INTERVAL = from_secs (min (60 * 2 ^ i) 900)" for i
    using sntp.seconds_iterate [of RETRY_INTERVAL i]
    by (simp add: RETRY_INTERVAL_def MAX_RETRY_INTERVAL_def from_secs_def min_def)
  obtain slept where "sntp_sleeps (turns @ ok # fails @ ok # rest) RETRY_INTERVAL =
      sntp_sleeps turns RETRY_INTERVAL @ slept # sntp_sleeps (fails @ ok # rest) RETRY_INTERVAL"
    using sntp_reset [OF assms(2)] by blast
  moreover obtain slept' where "sntp_sleeps (ok # rest) d = slept' # sntp_sleeps rest RETRY_INTERVAL" for d
    using sntp_turn_ok [of "fst ok" "snd ok"] assms(2) by (cases ok) auto
  ultimately have "start_sntp_client (turns @ ok # fails @ ok # rest) =
      (sntp_sleeps turns RETRY_INTERVAL @ [slept]) @
      map (\<lambda>i. from_secs (min (60 * 2 ^ i) 900)) [0..<length fails] @
      slept' # sntp_sleeps rest RETRY_INTERVAL"
    using sntp_failures [OF assms(1)] by (simp add: start_sntp_client_def secs)
  then show ?thesis using len [of turns RETRY_INTERVAL]
    by (intro exI [of _ "sntp_sleeps turns RETRY_INTERVAL @ [slept]"] exI [of _ slept']) simp
qed

definition lease_up :: wan_lease where
  "lease_up = wan_lease_default\<lparr>wl_ip := Some (ipv4_new 10 0 0 5)\<rparr>"

theorem sntp_backs_off_witness:
  "\<exists>before slept. start_sntp_client ([] @ (wan_lease_default, None) #
       replicate 6 (lease_up, Some ''timeout'') @ (wan_lease_default, None) # []) =
     before @ map (\<lambda>i. from_secs (min (60 * 2 ^ i) 900)) [0..<6] @ [slept]"
proof -
  have "\<forall>t \<in> set (replicate 6 (lease_up, Some ''timeout'')). failing t"
    and "\<not> failing (wan_lease_default, None)"
    by (simp_all add: failing_def lease_up_def)
  from sntp_backs_off [OF this, of "[]" "[]"] show ?thesis by force
qed

end
