(* ===== verification/Network.thy ===== *)
theory Network
  imports Wan_Lease Rust_Text
begin

text \<open>
  The static configuration of the interfaces at boot, \<open>src/network.rs\<close>. The kernel's answers
  are the record \<open>net_kernel\<close>. Numbers and IPv4 addresses are parsed as the standard library
  does; its IPv6 parser is the parameter \<open>parse_ipv6\<close>.
\<close>

section \<open>Numbers and addresses\<close>

definition digit_value :: "char \<Rightarrow> nat option" where
  "digit_value c =
     (let n = of_char c :: nat in if 48 \<le> n \<and> n \<le> 57 then Some (n - 48) else None)"

fun digits_value :: "nat \<Rightarrow> string \<Rightarrow> nat option" where
  "digits_value acc [] = Some acc"
| "digits_value acc (c # cs) =
     (case digit_value c of None \<Rightarrow> None | Some d \<Rightarrow> digits_value (10 * acc + d) cs)"

text \<open>\<open>parse::<u8>()\<close>: an optional plus sign, digits, and no overflow.\<close>

definition parse_u8 :: "string \<Rightarrow> nat option" where
  "parse_u8 s =
     (let ds = (case s of c # cs \<Rightarrow> if c = CHR ''+'' then cs else s | [] \<Rightarrow> [])
      in if ds = [] then None
         else (case digits_value 0 ds of
                 None \<Rightarrow> None
               | Some n \<Rightarrow> if n \<le> 255 then Some n else None))"

text \<open>An octet of a dotted address: one to three digits, no leading zero, at most 255.\<close>

definition parse_octet :: "string \<Rightarrow> u8 option" where
  "parse_octet s =
     (if s = [] \<or> 3 < length s \<or> (1 < length s \<and> hd s = CHR ''0'') then None
      else (case digits_value 0 s of
              None \<Rightarrow> None
            | Some n \<Rightarrow> if n \<le> 255 then Some (of_nat n) else None))"

definition parse_ipv4 :: "string \<Rightarrow> ipv4 option" where
  "parse_ipv4 s =
     (case map parse_octet (split_by (\<lambda>c. c = CHR ''.'') s) of
        [Some a, Some b, Some c, Some d] \<Rightarrow> Some (ipv4_new a b c d)
      | _ \<Rightarrow> None)"

datatype ip_addr = V4 ipv4 | V6 "128 word"

definition parse_ip :: "(string \<Rightarrow> 128 word option) \<Rightarrow> string \<Rightarrow> ip_addr option" where
  "parse_ip parse_ipv6 s =
     (case parse_ipv4 s of
        Some a \<Rightarrow> Some (V4 a)
      | None \<Rightarrow> (case parse_ipv6 s of Some a \<Rightarrow> Some (V6 a) | None \<Rightarrow> None))"

section \<open>Interfaces\<close>

datatype net_request = NetLinkUp u32 | NetAddAddress u32 ip_addr nat

datatype net_error =
    InterfaceMissing string
  | LinkFailed string
  | BadPrefix string
  | BadAddress string
  | ForwardingFailed string
  | ConnectionFailed string

record net_kernel =
  nk_forward :: "string option"
  nk_connect :: "string option"
  nk_link :: "string \<Rightarrow> string + u32 option"
  nk_change :: "net_request \<Rightarrow> string option"

text \<open>The address and prefix length of a configured \<open>lan_ip\<close>.\<close>

definition parse_cidr :: "(string \<Rightarrow> 128 word option) \<Rightarrow> string \<Rightarrow> net_error + (ip_addr \<times> nat)" where
  "parse_cidr parse_ipv6 cidr =
     (let parts = split_by (\<lambda>c. c = CHR ''/'') cidr;
          ip_str = parts ! 0;
          prefix = (if length parts > 1
                    then (case parse_u8 (parts ! 1) of
                            None \<Rightarrow> Inl (BadPrefix (parts ! 1)) | Some n \<Rightarrow> Inr n)
                    else Inr 24)
      in obind prefix (\<lambda>prefix.
           case parse_ip parse_ipv6 ip_str of
             None \<Rightarrow> Inl (BadAddress ip_str)
           | Some ip \<Rightarrow> Inr (ip, prefix)))"

text \<open>A refused address is only reported.\<close>

definition configure_interface ::
  "(string \<Rightarrow> 128 word option) \<Rightarrow> net_kernel \<Rightarrow> string \<Rightarrow> string option \<Rightarrow>
     net_request list \<times> (net_error + unit)" where
  "configure_interface parse_ipv6 k name ip_cidr =
     (case nk_link k name of
        Inl e \<Rightarrow> ([], Inl (LinkFailed e))
      | Inr None \<Rightarrow> ([], Inl (InterfaceMissing name))
      | Inr (Some index) \<Rightarrow>
          (case nk_change k (NetLinkUp index) of
             Some e \<Rightarrow> ([NetLinkUp index], Inl (LinkFailed e))
           | None \<Rightarrow>
               (case ip_cidr of
                  None \<Rightarrow> ([NetLinkUp index], Inr ())
                | Some cidr \<Rightarrow>
                    (case parse_cidr parse_ipv6 cidr of
                       Inl e \<Rightarrow> ([NetLinkUp index], Inl e)
                     | Inr (ip, prefix) \<Rightarrow>
                         ([NetLinkUp index, NetAddAddress index ip prefix], Inr ())))))"

definition configure_network ::
  "(string \<Rightarrow> 128 word option) \<Rightarrow> net_kernel \<Rightarrow> string \<Rightarrow> string \<Rightarrow> string \<Rightarrow>
     net_request list \<times> (net_error + unit)" where
  "configure_network parse_ipv6 k wan_iface lan_iface lan_ip_cidr =
     (case nk_forward k of
        Some e \<Rightarrow> ([], Inl (ForwardingFailed e))
      | None \<Rightarrow>
     case nk_connect k of
        Some e \<Rightarrow> ([], Inl (ConnectionFailed e))
      | None \<Rightarrow>
     (let (lo_reqs, _) = configure_interface parse_ipv6 k ''lo'' None;
          (lan_reqs, lan_res) = configure_interface parse_ipv6 k lan_iface (Some lan_ip_cidr)
      in case lan_res of
           Inl e \<Rightarrow> (lo_reqs @ lan_reqs, Inl e)
         | Inr _ \<Rightarrow>
             (let (wan_reqs, wan_res) = configure_interface parse_ipv6 k wan_iface None
              in (lo_reqs @ lan_reqs @ wan_reqs, wan_res))))"

section \<open>Addresses without a prefix\<close>

lemma parse_cidr_no_slash:
  assumes "CHR ''/'' \<notin> set s" and "parse_ipv4 s = Some a"
  shows "parse_cidr parse_ipv6 s = Inr (V4 a, 24)"
proof -
  have "split_by (\<lambda>c. c = CHR ''/'') s = [s]" using assms(1) by (intro split_by_none) auto
  with assms(2) show ?thesis by (simp add: parse_cidr_def parse_ip_def)
qed

lemma configure_network_lan:
  assumes "nk_forward k = None" and "nk_connect k = None" and "nk_link k lan = Inr (Some i)"
    and "\<forall>r. nk_change k r = None" and "parse_cidr p6 cidr = Inr (ip, prefix)"
  shows "NetAddAddress i ip prefix \<in> set (fst (configure_network p6 k wan lan cidr))"
  using assms
  by (cases "configure_interface p6 k ''lo'' None"; cases "configure_interface p6 k wan None")
    (simp add: configure_network_def configure_interface_def [of p6 k lan "Some cidr"])

end
