(* ===== verification/Init.thy ===== *)
theory Init
  imports Config
begin

text \<open>
  The init process: the boot sequence \<open>run_as_init\<close> of \<open>src/main.rs\<close>, the virtual file systems
  and the panic hook of \<open>src/system.rs\<close>, one call of the reaper of \<open>src/reaper.rs\<close>, and what the
  signal monitor and the power button monitor do once they are triggered; the loops of these
  tasks are in \<open>Init_Tasks\<close>. What the kernel and the other components answer is an argument; the
  result lists what is done, in order.
\<close>

section \<open>Actions\<close>

datatype reboot_mode = RB_AUTOBOOT | RB_POWER_OFF

datatype service = Reaper | SignalMonitor | PowerButton | DhcpClient string | DhcpServer string string
  | DnsForwarder | SntpClient

datatype init_action =
    Dup2 int int
  | CloseDescriptor int
  | RegisterPanicHandler
  | Mount string string
  | SetModprobePath
  | LoadRequiredModules
  | ConfigureNetwork string string string
  | ConfigureFirewall string string
  | Reboot reboot_mode
  | SetShutdownFlag
  | SleepMillis nat
  | SleepForever
  | Spawn service

text \<open>The answers: the process id, the descriptor of the console if it opens, each mount by its
  target, the firewall (a network error is only logged), the environment and the command line.\<close>

record init_env =
  ie_pid :: int
  ie_console :: "int option"
  ie_mount :: "string \<Rightarrow> string option"
  ie_firewall :: "string option"
  ie_env_var :: "string \<Rightarrow> string option"
  ie_cmdline :: "string option"

section \<open>Start-up\<close>

text \<open>The standard descriptors of process 1; the file of the console is dropped at the end.\<close>

definition redirect_descriptors :: "init_env \<Rightarrow> init_action list" where
  "redirect_descriptors env =
     (case (ie_pid env = 1, ie_console env) of
        (True, Some fd) \<Rightarrow> [Dup2 fd 0, Dup2 fd 1, Dup2 fd 2, CloseDescriptor fd]
      | _ \<Rightarrow> [])"

text \<open>What these two calls do to a descriptor table.\<close>

fun descriptor_effect :: "init_action \<Rightarrow> (int \<Rightarrow> 'f option) \<Rightarrow> int \<Rightarrow> 'f option" where
  "descriptor_effect (Dup2 old new) fds = fds(new := fds old)"
| "descriptor_effect (CloseDescriptor fd) fds = fds(fd := None)"
| "descriptor_effect _ fds = fds"

text \<open>The console ends up on all three and its own descriptor is closed, if it is not one of the
  three itself.\<close>

lemma redirected_descriptors:
  assumes "ie_pid env = 1" and "ie_console env = Some fd" and "fd \<notin> {0, 1, 2}"
  shows "fold descriptor_effect (redirect_descriptors env) fds =
    fds(0 := fds fd, 1 := fds fd, 2 := fds fd, fd := None)"
  using assms by (simp add: redirect_descriptors_def fun_eq_iff)

text \<open>\<open>RealSystem::mount\<close>: only process 1 mounts.\<close>

definition real_mount :: "init_env \<Rightarrow> string \<Rightarrow> string \<Rightarrow> init_action list \<times> string option" where
  "real_mount env target fstype =
     (if ie_pid env \<noteq> 1 then ([], None) else ([Mount target fstype], ie_mount env target))"

fun mount_all :: "init_env \<Rightarrow> (string \<times> string) list \<Rightarrow> init_action list \<times> (string + unit)" where
  "mount_all env [] = ([], Inr ())"
| "mount_all env ((target, fstype) # ms) =
     (case real_mount env target fstype of
        (acts, Some e) \<Rightarrow> (acts, Inl (''Failed to mount '' @ target @ '': '' @ e))
      | (acts, None) \<Rightarrow> (let (acts', res) = mount_all env ms in (acts @ acts', res)))"

definition virtual_filesystems :: "(string \<times> string) list" where
  "virtual_filesystems = [(''/proc'', ''proc''), (''/sys'', ''sysfs''), (''/dev'', ''devtmpfs''),
     (''/run'', ''tmpfs'')]"

definition mount_virtual_filesystems :: "init_env \<Rightarrow> init_action list \<times> (string + unit)" where
  "mount_virtual_filesystems env =
     (case mount_all env virtual_filesystems of
        (acts, Inl e) \<Rightarrow> (acts, Inl e)
      | (acts, Inr _) \<Rightarrow> (acts @ [SetModprobePath], Inr ()))"

definition services :: "router_config \<Rightarrow> service list" where
  "services config = [Reaper, SignalMonitor, PowerButton, DhcpClient (cfg_wan_interface config),
     DhcpServer (cfg_lan_interface config) (cfg_lan_ip config), DnsForwarder, SntpClient]"

definition run_as_init :: "init_env \<Rightarrow> init_action list" where
  "run_as_init env =
     (let pid1 = (ie_pid env = 1);
          (mounts, mounted) = (if pid1 then mount_virtual_filesystems env else ([], Inr ()))
      in redirect_descriptors env @ RegisterPanicHandler # mounts @
         (case mounted of
            Inl e \<Rightarrow> [Reboot RB_AUTOBOOT]
          | Inr _ \<Rightarrow>
              (let config = parse_config (ie_env_var env) (ie_cmdline env);
                   w = cfg_wan_interface config; l = cfg_lan_interface config
               in if pid1
                  then LoadRequiredModules # ConfigureNetwork w l (cfg_lan_ip config) #
                       ConfigureFirewall w l #
                       (if ie_firewall env \<noteq> None then [Reboot RB_AUTOBOOT]
                        else map Spawn (services config))
                  else map Spawn (services config))))"

text \<open>The panic hook; the reboot's result is ignored.\<close>

definition panic_hook :: "init_env \<Rightarrow> init_action list" where
  "panic_hook env = Reboot RB_AUTOBOOT # (if ie_pid env = 1 then [SleepForever] else [])"

section \<open>Shutdown\<close>

text \<open>After one of the three signals; the argument is the error of the power-off.\<close>

definition signal_shutdown :: "string option \<Rightarrow> init_action list" where
  "signal_shutdown poweroff_error =
     [SetShutdownFlag, SleepMillis 500, Reboot RB_POWER_OFF] @
     (case poweroff_error of Some e \<Rightarrow> [Reboot RB_AUTOBOOT] | None \<Rightarrow> [])"

text \<open>An input event: whether it is a key, its code, its value; \<open>None\<close> is the end of the stream
  or an error of it.\<close>

record input_event =
  is_key :: bool
  key_code :: nat
  key_value :: int

definition KEY_POWER :: nat where "KEY_POWER = 116"

fun power_button_monitor :: "input_event option list \<Rightarrow> init_action list" where
  "power_button_monitor [] = []"
| "power_button_monitor (None # es) = []"
| "power_button_monitor (Some ev # es) =
     (if is_key ev \<and> key_code ev = KEY_POWER \<and> key_value ev = 1
      then [SetShutdownFlag, Reboot RB_POWER_OFF] else power_button_monitor es)"

section \<open>The reaper\<close>

datatype wait_answer =
    Exited int int
  | Signaled int int bool
  | StillAlive
  | OtherStatus
  | NoChildren
  | WaitError string

fun reaped_pid :: "wait_answer \<Rightarrow> int option" where
  "reaped_pid (Exited p _) = Some p"
| "reaped_pid (Signaled p _ _) = Some p"
| "reaped_pid _ = None"

text \<open>
  \<open>reap_zombies\<close> over a kernel, whose \<open>waitpid\<close> is a parameter: the reaped processes and the
  kernel's state after it, or \<open>None\<close> if it does not end.
\<close>

partial_function (option) reap_zombies ::
  "('k \<Rightarrow> wait_answer \<times> 'k) \<Rightarrow> 'k \<Rightarrow> (int list \<times> 'k) option" where
  "reap_zombies waitpid k =
     (let (answer, k') = waitpid k
      in case reaped_pid answer of
           None \<Rightarrow> Some ([], k')
         | Some p \<Rightarrow>
             Option.bind (reap_zombies waitpid k') (\<lambda>(ps, k''). Some (p # ps, k'')))"

text \<open>
  What \<open>waitpid(2)\<close> documents for any child without blocking: a reaped process was a zombie and
  no longer is, and the answer that there is nothing to reap means there is no zombie.
\<close>

definition waitpid_documented :: "('k \<Rightarrow> int set) \<Rightarrow> ('k \<Rightarrow> wait_answer \<times> 'k) \<Rightarrow> bool" where
  "waitpid_documented zombies waitpid \<longleftrightarrow>
     (\<forall>k. case reaped_pid (fst (waitpid k)) of
        Some p \<Rightarrow> p \<in> zombies k \<and> zombies (snd (waitpid k)) = zombies k - {p}
      | None \<Rightarrow> zombies k = {} \<and> snd (waitpid k) = k)"

lemma reap_zombies_reaps:
  assumes doc: "waitpid_documented zombies waitpid" and "finite (zombies k)"
  shows "\<exists>ps k'. reap_zombies waitpid k = Some (ps, k') \<and> zombies k' = {} \<and>
    set ps = zombies k \<and> distinct ps"
  using assms(2)
proof (induction "card (zombies k)" arbitrary: k rule: less_induct)
  case less
  obtain a k1 where w: "waitpid k = (a, k1)" by (cases "waitpid k")
  show ?case
  proof (cases "reaped_pid a")
    case None
    then have "zombies k = {}" "k1 = k"
      using doc [unfolded waitpid_documented_def, rule_format, of k] by (simp_all add: w)
    then show ?thesis by (subst reap_zombies.simps) (simp add: w None)
  next
    case (Some p)
    then have p: "p \<in> zombies k" "zombies k1 = zombies k - {p}"
      using doc [unfolded waitpid_documented_def, rule_format, of k] by (simp_all add: w)
    then have "card (zombies k1) < card (zombies k)"
      using less.prems by (metis card_Diff1_less)
    from less.hyps [OF this] p less.prems obtain ps k' where
      ih: "reap_zombies waitpid k1 = Some (ps, k')" "zombies k' = {}" "set ps = zombies k1" "distinct ps"
      by auto
    have "reap_zombies waitpid k = Some (p # ps, k')"
      by (subst reap_zombies.simps) (simp add: w Some ih(1))
    then show ?thesis using ih p by auto
  qed
qed

text \<open>The reaper always comes to an end and leaves no zombie: however many orphans have died,
  and in whatever order the kernel hands them out, one call reaps each of them exactly once and
  returns when none is left.\<close>

theorem reaper_leaves_no_zombie:
  assumes "waitpid_documented zombies waitpid" and "finite (zombies k)"
  shows "\<exists>ps k'. reap_zombies waitpid k = Some (ps, k') \<and> zombies k' = {} \<and>
    set ps = zombies k \<and> distinct ps"
  using reap_zombies_reaps [OF assms] .

text \<open>A kernel with a table of dead children, in the order it hands them out.\<close>

definition table_waitpid :: "int list \<Rightarrow> wait_answer \<times> int list" where
  "table_waitpid ps = (case remdups ps of [] \<Rightarrow> (StillAlive, ps) | p # _ \<Rightarrow> (Exited p 0, removeAll p ps))"

lemma table_waitpid_documented: "waitpid_documented set table_waitpid"
  unfolding waitpid_documented_def
proof
  fix k :: "int list"
  show "case reaped_pid (fst (table_waitpid k)) of
      Some p \<Rightarrow> p \<in> set k \<and> set (snd (table_waitpid k)) = set k - {p}
    | None \<Rightarrow> set k = {} \<and> snd (table_waitpid k) = k"
    by (cases "remdups k") (auto simp: table_waitpid_def simp flip: set_remdups [of k])
qed

theorem reaper_leaves_no_zombie_witness:
  "\<exists>ps k'. reap_zombies table_waitpid [42, 43] = Some (ps, k') \<and> set k' = {} \<and> set ps = {42, 43}"
  using reaper_leaves_no_zombie [OF table_waitpid_documented, of "[42, 43]"] by auto

section \<open>Order of start-up\<close>

lemma mount_all_actions:
  "set (fst (mount_all env ms)) \<subseteq> {Mount t f | t f. (t, f) \<in> set ms}"
proof (induction ms)
  case (Cons m ms)
  obtain t f where m: "m = (t, f)" by (cases m)
  show ?case
  proof (cases "ie_pid env \<noteq> 1 \<or> ie_mount env t = None")
    case True
    then have "set (fst (mount_all env (m # ms))) \<subseteq> insert (Mount t f) (set (fst (mount_all env ms)))"
      by (auto simp: m real_mount_def split: prod.split option.split)
    then show ?thesis by (rule subset_trans) (use Cons.IH m in auto)
  next
    case False
    then show ?thesis by (auto simp: m real_mount_def)
  qed
qed simp

lemma mounts_no_spawn:
  "Spawn s \<notin> set (fst (mount_virtual_filesystems env))"
  "ConfigureFirewall w l \<notin> set (fst (mount_virtual_filesystems env))"
  using mount_all_actions [of env virtual_filesystems]
  by (auto simp: mount_virtual_filesystems_def split: prod.split sum.split)

lemma split_behind:
  "xs @ ys = before @ x # after \<Longrightarrow> x \<notin> set xs \<Longrightarrow> \<exists>us. before = xs @ us"
  by (auto simp: append_eq_append_conv2 append_eq_Cons_conv in_set_conv_decomp)

text \<open>A start-up as process 1 is a part that spawns nothing, then all services or a reboot; with
  the services, the part ends in the two configurations.\<close>

lemma run_as_init_shape:
  assumes "ie_pid env = 1"
  defines "config \<equiv> parse_config (ie_env_var env) (ie_cmdline env)"
  obtains (started) b where "snd (mount_virtual_filesystems env) = Inr ()" and "ie_firewall env = None"
      and "run_as_init env = (b @ [ConfigureNetwork (cfg_wan_interface config) (cfg_lan_interface config)
        (cfg_lan_ip config), ConfigureFirewall (cfg_wan_interface config) (cfg_lan_interface config)]) @
        map Spawn (services config)"
      and "\<forall>s. Spawn s \<notin> set b"
    | (stopped) b where "\<not> (snd (mount_virtual_filesystems env) = Inr () \<and> ie_firewall env = None)"
      and "run_as_init env = b @ [Reboot RB_AUTOBOOT]" and "\<forall>s. Spawn s \<notin> set b"
proof -
  obtain mounts res where m: "mount_virtual_filesystems env = (mounts, res)"
    by (cases "mount_virtual_filesystems env")
  have quiet: "Spawn s \<notin> set mounts" "Spawn s \<notin> set (redirect_descriptors env)" for s
    using mounts_no_spawn(1) [of s env] by (simp_all add: m redirect_descriptors_def split: option.split)
  let ?pre = "redirect_descriptors env @ RegisterPanicHandler # mounts"
  let ?conf = "[ConfigureNetwork (cfg_wan_interface config) (cfg_lan_interface config) (cfg_lan_ip config),
    ConfigureFirewall (cfg_wan_interface config) (cfg_lan_interface config)]"
  note unfold = run_as_init_def m Let_def config_def
  consider "res = Inr ()" "ie_firewall env = None" | "res = Inr ()" "ie_firewall env \<noteq> None"
    | e where "res = Inl e" by (cases res) auto
  then show thesis
  proof cases
    case 1
    then show ?thesis
      using assms(1) quiet by (intro started [of "?pre @ [LoadRequiredModules]"]) (simp_all add: unfold)
  next
    case 2
    then show ?thesis
      using assms(1) quiet by (intro stopped [of "?pre @ LoadRequiredModules # ?conf"]) (simp_all add: unfold)
  next
    case (3 e)
    then show ?thesis
      using assms(1) quiet by (intro stopped [of ?pre]) (simp_all add: unfold)
  qed
qed


definition sample_init :: init_env where
  "sample_init = \<lparr>ie_pid = 1, ie_console = Some 3, ie_mount = (\<lambda>_. None), ie_firewall = Some ''EPERM'',
     ie_env_var = (\<lambda>_. None), ie_cmdline = None\<rparr>"


end
