(* ===== verification/Init_Tasks.thy ===== *)
theory Init_Tasks
  imports Init
begin

text \<open>
  The tasks of init that run beside the services: the orphan reaper of \<open>src/reaper.rs\<close> with its
  waiting loop, the signal monitor of \<open>src/signal.rs\<close> and the power button monitor of
  \<open>src/main.rs\<close>. A task is a function of the turns it waits through.
\<close>

section \<open>The reaper's loop\<close>

text \<open>
  A turn: what the load of the shutdown flag says at its start, and what happens to the kernel's
  processes while the task waits (for SIGCHLD or five seconds, or for half a second when there is
  no signal stream).
\<close>

record 'k reaper_turn =
  rp_shutdown :: bool
  rp_meanwhile :: "'k \<Rightarrow> 'k"

fun reaper_stream ::
  "('k \<Rightarrow> wait_answer \<times> 'k) \<Rightarrow> 'k reaper_turn list \<Rightarrow> 'k \<Rightarrow> (int list \<times> 'k \<times> bool) option" where
  "reaper_stream waitpid [] k = Some ([], k, False)"
| "reaper_stream waitpid (t # ts) k =
     (if rp_shutdown t then Some ([], k, True)
      else Option.bind (reap_zombies waitpid (rp_meanwhile t k)) (\<lambda>(ps, k').
           Option.bind (reaper_stream waitpid ts k') (\<lambda>(qs, k'', ended). Some (ps @ qs, k'', ended))))"

fun reaper_polling ::
  "('k \<Rightarrow> wait_answer \<times> 'k) \<Rightarrow> 'k reaper_turn list \<Rightarrow> 'k \<Rightarrow> (int list \<times> 'k \<times> bool) option" where
  "reaper_polling waitpid [] k = Some ([], k, False)"
| "reaper_polling waitpid (t # ts) k =
     (if rp_shutdown t then Some ([], k, True)
      else Option.bind (reap_zombies waitpid k) (\<lambda>(ps, k').
           Option.bind (reaper_polling waitpid ts (rp_meanwhile t k')) (\<lambda>(qs, k'', ended).
             Some (ps @ qs, k'', ended))))"

text \<open>The first argument is the answer of \<open>signal(SignalKind::child())\<close>; the result has the
  processes reaped, in order, the kernel after it, and whether the task has ended.\<close>

definition start_orphan_reaper ::
  "string option \<Rightarrow> ('k \<Rightarrow> wait_answer \<times> 'k) \<Rightarrow> 'k reaper_turn list \<Rightarrow> 'k \<Rightarrow>
     (int list \<times> 'k \<times> bool) option" where
  "start_orphan_reaper signal_error waitpid ts k =
     (case signal_error of
        Some e \<Rightarrow> reaper_polling waitpid ts k
      | None \<Rightarrow> reaper_stream waitpid ts k)"

text \<open>While the task waits, children die: \<open>died t\<close> in turn \<open>t\<close>.\<close>

definition dying :: "('k \<Rightarrow> int set) \<Rightarrow> ('k reaper_turn \<Rightarrow> int set) \<Rightarrow> 'k reaper_turn list \<Rightarrow> bool" where
  "dying zombies died ts \<longleftrightarrow>
     (\<forall>t \<in> set ts. \<not> rp_shutdown t \<and> finite (died t) \<and> (\<forall>k. zombies (rp_meanwhile t k) = zombies k \<union> died t))"

lemma reaper_stream_run:
  assumes doc: "waitpid_documented zombies waitpid"
  shows "finite (zombies k) \<Longrightarrow> dying zombies died ts \<Longrightarrow>
    \<exists>ps k'. reaper_stream waitpid ts k = Some (ps, k', False) \<and>
      set ps \<union> zombies k' = zombies k \<union> (\<Union>t \<in> set ts. died t) \<and> (ts \<noteq> [] \<longrightarrow> zombies k' = {})"
proof (induction ts arbitrary: k)
  case (Cons t ts)
  have t: "\<not> rp_shutdown t" "finite (died t)" "zombies (rp_meanwhile t k) = zombies k \<union> died t"
    and ts: "dying zombies died ts" using Cons.prems(2) by (simp_all add: dying_def)
  obtain ps k1 where reap: "reap_zombies waitpid (rp_meanwhile t k) = Some (ps, k1)"
    "zombies k1 = {}" "set ps = zombies k \<union> died t"
    using reap_zombies_reaps [OF doc, of "rp_meanwhile t k"] t(2,3) Cons.prems(1) by auto
  obtain qs k2 where rest: "reaper_stream waitpid ts k1 = Some (qs, k2, False)"
    "set qs \<union> zombies k2 = zombies k1 \<union> (\<Union>t \<in> set ts. died t)" "ts \<noteq> [] \<longrightarrow> zombies k2 = {}"
    using Cons.IH [of k1] ts reap(2) by auto
  have "ts = [] \<Longrightarrow> k2 = k1" using rest(1) by simp
  then show ?case using t(1) reap rest by auto
qed simp

lemma reaper_polling_run:
  assumes doc: "waitpid_documented zombies waitpid"
  shows "finite (zombies k) \<Longrightarrow> dying zombies died ts \<Longrightarrow>
    \<exists>ps k'. reaper_polling waitpid ts k = Some (ps, k', False) \<and>
      set ps \<union> zombies k' = zombies k \<union> (\<Union>t \<in> set ts. died t) \<and>
      (ts \<noteq> [] \<longrightarrow> zombies k' = died (last ts))"
proof (induction ts arbitrary: k)
  case (Cons t ts)
  have t: "\<not> rp_shutdown t" "finite (died t)" "\<And>k. zombies (rp_meanwhile t k) = zombies k \<union> died t"
    and ts: "dying zombies died ts" using Cons.prems(2) by (simp_all add: dying_def)
  obtain ps k1 where reap: "reap_zombies waitpid k = Some (ps, k1)" "zombies k1 = {}" "set ps = zombies k"
    using reap_zombies_reaps [OF doc, of k] Cons.prems(1) by auto
  have k1: "zombies (rp_meanwhile t k1) = died t" using t(3) [of k1] reap(2) by simp
  obtain qs k2 where rest: "reaper_polling waitpid ts (rp_meanwhile t k1) = Some (qs, k2, False)"
    "set qs \<union> zombies k2 = died t \<union> (\<Union>t \<in> set ts. died t)" "ts \<noteq> [] \<longrightarrow> zombies k2 = died (last ts)"
    using Cons.IH [of "rp_meanwhile t k1"] ts t(2) k1 by auto
  have "ts = [] \<Longrightarrow> zombies k2 = died t" using rest(1) k1 by simp
  then show ?case using t(1) reap rest k1 by auto
qed simp

lemma reaper_stops:
  "rp_shutdown t \<Longrightarrow> reaper_stream waitpid (t # ts) k = Some ([], k, True)"
  "rp_shutdown t \<Longrightarrow> reaper_polling waitpid (t # ts) k = Some ([], k, True)"
  by simp_all

text \<open>C31: The reaper keeps up: however many children die in whatever turns, each turn of its loop
  comes to an end, every child that has died has been reaped or is still a zombie and nothing
  else has been reaped, and after a turn with the SIGCHLD stream no zombie is left, without it at
  most those that died in the last half second; and a turn that finds the shutdown flag set ends
  the task at once without touching a process.\<close>

theorem reaper_keeps_up:
  assumes "waitpid_documented zombies waitpid" and "finite (zombies k)"
    and "dying zombies died ts" and "ts \<noteq> []" and "rp_shutdown stop"
  shows "\<exists>ps k'. start_orphan_reaper e waitpid ts k = Some (ps, k', False)
    \<and> set ps \<union> zombies k' = zombies k \<union> (\<Union>t \<in> set ts. died t)
    \<and> zombies k' = (if e = None then {} else died (last ts))
    \<and> start_orphan_reaper e waitpid (stop # ts) k = Some ([], k, True)"
proof (cases e)
  case None
  then show ?thesis
    using reaper_stream_run [OF assms(1-3)] assms(4,5) by (auto simp: start_orphan_reaper_def)
next
  case (Some err)
  then show ?thesis
    using reaper_polling_run [OF assms(1-3)] assms(4,5) by (auto simp: start_orphan_reaper_def)
qed

definition sample_reaper_turns :: "int list reaper_turn list" where
  "sample_reaper_turns = [\<lparr>rp_shutdown = False, rp_meanwhile = (\<lambda>ps. 50 # ps)\<rparr>,
     \<lparr>rp_shutdown = False, rp_meanwhile = (\<lambda>ps. 51 # ps)\<rparr>]"

theorem reaper_keeps_up_witness:
  "\<exists>ps. start_orphan_reaper None table_waitpid sample_reaper_turns [42] = Some (ps, [], False) \<and>
     set ps = {42, 50, 51}"
proof -
  let ?died = "\<lambda>t :: int list reaper_turn. set (rp_meanwhile t [])"
  have "dying set ?died sample_reaper_turns" by (auto simp: dying_def sample_reaper_turns_def)
  from reaper_keeps_up [OF table_waitpid_documented _ this, of "[42]" "\<lparr>rp_shutdown = True, rp_meanwhile = id\<rparr>" None]
  show ?thesis by (auto simp: sample_reaper_turns_def)
qed

section \<open>The signal monitor\<close>

datatype shutdown_signal = SIGINT | SIGTERM | SIGPWR

text \<open>
  The three streams are created first; \<open>expect\<close> panics if one cannot be. Then the task waits:
  the argument \<open>received\<close> is the signal that comes, if one does.
\<close>

definition start_signal_monitor ::
  "(shutdown_signal \<Rightarrow> string option) \<Rightarrow> shutdown_signal option \<Rightarrow> string option \<Rightarrow> init_action list outcome" where
  "start_signal_monitor stream_error received poweroff_error =
     (if stream_error SIGINT \<noteq> None \<or> stream_error SIGTERM \<noteq> None \<or> stream_error SIGPWR \<noteq> None
      then Inl UnwrapOnErr
      else (case received of
              None \<Rightarrow> Inr []
            | Some sig \<Rightarrow> Inr (signal_shutdown poweroff_error)))"

section \<open>The power button\<close>

text \<open>
  An input device: whether it opens, whether its event stream starts, and the items of the
  stream. The devices are \<open>/dev/input/event0\<close> to \<open>event4\<close>, each with a task of its own; the result
  is the devices monitored, with what their tasks do.
\<close>

record input_device =
  dev_opens :: bool
  dev_streams :: bool
  dev_events :: "input_event option list"

definition device_path :: "nat \<Rightarrow> string" where
  "device_path i = ''/dev/input/event'' @ [CHR ''0'', CHR ''1'', CHR ''2'', CHR ''3'', CHR ''4''] ! i # []"

definition device_task :: "input_device \<Rightarrow> init_action list" where
  "device_task d = (if dev_streams d then power_button_monitor (dev_events d) else [])"

definition start_power_button_monitor :: "(string \<Rightarrow> input_device) \<Rightarrow> (string \<times> init_action list) list" where
  "start_power_button_monitor devices =
     map (\<lambda>p. (p, device_task (devices p))) (filter (\<lambda>p. dev_opens (devices p)) (map device_path [0..<5]))"

definition power_press :: "input_event \<Rightarrow> bool" where
  "power_press ev \<longleftrightarrow> is_key ev \<and> key_code ev = 116 \<and> key_value ev = 1"

lemma power_button_presses:
  "power_button_monitor es =
     (if \<exists>ev \<in> set (takeWhile (\<lambda>e. e \<noteq> None) es). power_press (the ev)
      then [SetShutdownFlag, Reboot RB_POWER_OFF] else [])"
  by (induction es rule: power_button_monitor.induct) (auto simp: power_press_def KEY_POWER_def)

text \<open>Every way to switch the router off powers it off, after the shutdown flag is set. Each
  of the three signals sets the flag, waits half a second and powers off, with a reboot as the
  fallback if that is refused; a press of the power key (not its release or another key) on any
  of the five devices that opens and streams does so at once, however many other events come
  before it; no other event of a device does anything; and if a signal stream cannot be created,
  the task panics, which reboots the machine.\<close>

theorem shutdown_paths:
  "(\<forall>sig. (\<forall>s. stream_error s = None) \<longrightarrow>
      start_signal_monitor stream_error (Some sig) poweroff_error =
        Inr ([SetShutdownFlag, SleepMillis 500, Reboot RB_POWER_OFF] @
             (if poweroff_error = None then [] else [Reboot RB_AUTOBOOT])) \<and>
      start_signal_monitor stream_error None poweroff_error = Inr [])
   \<and> ((\<exists>s. stream_error s \<noteq> None) \<longrightarrow>
      (\<exists>p. start_signal_monitor stream_error received poweroff_error = Inl p) \<and>
      hd (panic_hook env) = Reboot RB_AUTOBOOT)
   \<and> (\<forall>i < 5. dev_opens (devices (device_path i)) \<and> dev_streams (devices (device_path i)) \<longrightarrow>
      (device_path i,
       if \<exists>ev \<in> set (takeWhile (\<lambda>e. e \<noteq> None) (dev_events (devices (device_path i)))). power_press (the ev)
       then [SetShutdownFlag, Reboot RB_POWER_OFF] else [])
        \<in> set (start_power_button_monitor devices))"
proof (intro conjI allI impI)
  fix sig
  assume "\<forall>s. stream_error s = None"
  then show "start_signal_monitor stream_error (Some sig) poweroff_error =
      Inr ([SetShutdownFlag, SleepMillis 500, Reboot RB_POWER_OFF] @
           (if poweroff_error = None then [] else [Reboot RB_AUTOBOOT]))"
    and "start_signal_monitor stream_error None poweroff_error = Inr []"
    by (auto simp: start_signal_monitor_def signal_shutdown_def)
next
  assume "\<exists>s. stream_error s \<noteq> None"
  then obtain s where "stream_error s \<noteq> None" by blast
  then show "\<exists>p. start_signal_monitor stream_error received poweroff_error = Inl p"
    by (cases s) (simp_all add: start_signal_monitor_def)
  show "hd (panic_hook env) = Reboot RB_AUTOBOOT" by (simp add: panic_hook_def)
next
  fix i :: nat
  assume i: "i < 5" and dev: "dev_opens (devices (device_path i)) \<and> dev_streams (devices (device_path i))"
  then have "(device_path i, device_task (devices (device_path i))) \<in> set (start_power_button_monitor devices)"
    by (auto simp: start_power_button_monitor_def)
  with dev show "(device_path i,
      if \<exists>ev \<in> set (takeWhile (\<lambda>e. e \<noteq> None) (dev_events (devices (device_path i)))). power_press (the ev)
      then [SetShutdownFlag, Reboot RB_POWER_OFF] else []) \<in> set (start_power_button_monitor devices)"
    by (simp add: device_task_def power_button_presses)
qed

definition sample_device :: input_device where
  "sample_device = \<lparr>dev_opens = True, dev_streams = True,
     dev_events = [Some \<lparr>is_key = True, key_code = 116, key_value = 0\<rparr>,
                   Some \<lparr>is_key = True, key_code = 116, key_value = 1\<rparr>]\<rparr>"

theorem shutdown_paths_witness:
  "(''/dev/input/event2'', [SetShutdownFlag, Reboot RB_POWER_OFF]) \<in> set (start_power_button_monitor (\<lambda>_. sample_device))"
  using shutdown_paths [of "\<lambda>_. None" None None sample_init "\<lambda>_. sample_device",
      THEN conjunct2, THEN conjunct2, rule_format, of 2]
  by (simp add: sample_device_def power_press_def device_path_def)

end
