(* ===== verification/Netfilter.thy ===== *)
theory Netfilter
  imports Prelude
begin

text \<open>
  The firewall of \<open>src/netfilter.rs\<close>: the tables, chains and rules it sends to the kernel, as
  data. How the kernel runs a rule is nftables' business: it is the parameter \<open>runs\<close>, with the
  documented meaning of the expressions the rules use as the hypothesis \<open>nft_documented\<close>.
\<close>

section \<open>Rules as data\<close>

datatype nf_expr =
    MetaIifName
  | MetaOifName
  | CmpEq bytes
  | CmpNeq bytes
  | ConntrackState
  | Bitwise bytes bytes
  | PayloadProtocol
  | PayloadUdpDport
  | MatchIcmp
  | MasqueradeExpr
  | Accept

datatype nf_policy = PolicyAccept | PolicyDrop
datatype nf_hook = PostRouting int | LocalIn int | Forwarding int
datatype nf_chain_type = NatChain | FilterChain

record nf_chain =
  chain_name :: string
  chain_hook :: nf_hook
  chain_type :: nf_chain_type
  chain_policy :: nf_policy

record nf_rule =
  rule_chain :: string
  rule_exprs :: "nf_expr list"

datatype nf_message = AddTable string | DelTable string | AddChain nf_chain | AddRule nf_rule

definition char_byte :: "char \<Rightarrow> u8" where
  "char_byte c = of_nat (of_char c)"

definition pad_interface_name :: "string \<Rightarrow> bytes" where
  "pad_interface_name name =
     (let name_bytes = map char_byte name;
          len = min (length name_bytes) 16
      in take len name_bytes @ replicate (16 - len) 0)"

definition nat_chain :: nf_chain where
  "nat_chain = \<lparr>chain_name = ''nat_postrouting'', chain_hook = PostRouting 100,
     chain_type = NatChain, chain_policy = PolicyAccept\<rparr>"

definition filter_chain :: nf_chain where
  "filter_chain = \<lparr>chain_name = ''filter_input'', chain_hook = LocalIn 0,
     chain_type = FilterChain, chain_policy = PolicyDrop\<rparr>"

definition masq_rule :: "string \<Rightarrow> nf_rule" where
  "masq_rule wan_iface = \<lparr>rule_chain = chain_name nat_chain,
     rule_exprs = [MetaOifName, CmpEq (pad_interface_name wan_iface), MasqueradeExpr]\<rparr>"

definition iif_rule :: "string \<Rightarrow> nf_rule" where
  "iif_rule iface = \<lparr>rule_chain = chain_name filter_chain,
     rule_exprs = [MetaIifName, CmpEq (pad_interface_name iface), Accept]\<rparr>"

text \<open>\<open>ESTABLISHED\<close> is 2 and \<open>RELATED\<close> 4; the mask is in little-endian bytes.\<close>

definition ct_rule :: nf_rule where
  "ct_rule = \<lparr>rule_chain = chain_name filter_chain,
     rule_exprs = [ConntrackState, Bitwise [6, 0, 0, 0] [0, 0, 0, 0], CmpNeq [0, 0, 0, 0], Accept]\<rparr>"

definition wan_dhcp_rule :: "string \<Rightarrow> nf_rule" where
  "wan_dhcp_rule wan_iface = \<lparr>rule_chain = chain_name filter_chain,
     rule_exprs = [MetaIifName, CmpEq (pad_interface_name wan_iface), PayloadProtocol, CmpEq [17],
       PayloadUdpDport, CmpEq (u16_to_be_bytes 68), Accept]\<rparr>"

definition icmp_rule :: nf_rule where
  "icmp_rule = \<lparr>rule_chain = chain_name filter_chain, rule_exprs = [MatchIcmp, Accept]\<rparr>"

definition firewall_batch :: "string \<Rightarrow> string \<Rightarrow> nf_message list" where
  "firewall_batch wan_iface lan_iface =
     [AddTable ''rustyrouter'', AddChain nat_chain, AddChain filter_chain,
      AddRule (masq_rule wan_iface), AddRule (iif_rule ''lo''), AddRule (iif_rule lan_iface),
      AddRule (wan_dhcp_rule wan_iface), AddRule icmp_rule, AddRule ct_rule]"

text \<open>
  The batches sent and the result: building a rule may fail, the deletion of the old table may
  fail unnoticed, the last batch decides.
\<close>

definition configure_firewall ::
  "string option \<Rightarrow> string option \<Rightarrow> string \<Rightarrow> string \<Rightarrow> nf_message list list \<times> (string + unit)" where
  "configure_firewall build_error send_error wan_iface lan_iface =
     (let del_batch = [DelTable ''rustyrouter'']
      in case build_error of
           Some e \<Rightarrow> ([del_batch], Inl e)
         | None \<Rightarrow>
             ([del_batch, firewall_batch wan_iface lan_iface],
              case send_error of Some e \<Rightarrow> Inl e | None \<Rightarrow> Inr ()))"

section \<open>What the kernel does with them\<close>

text \<open>A packet on its way in or out, by what the rules look at; names are padded as the kernel
  pads them, the connection tracking state is its four bytes.\<close>

record nf_packet =
  pk_iif :: bytes
  pk_oif :: bytes
  pk_ct_state :: bytes
  pk_protocol :: u8
  pk_udp_dport :: u16

definition bytes_and :: "bytes \<Rightarrow> bytes \<Rightarrow> bytes" where
  "bytes_and a b = map2 (AND) a b"

definition bytes_xor :: "bytes \<Rightarrow> bytes \<Rightarrow> bytes" where
  "bytes_xor a b = map2 (XOR) a b"

text \<open>\<open>runs reg exprs p\<close>: with this content of the register, a rule's remaining expressions lead
  to its verdict for the packet, to accept or to masquerade it. Loading expressions fill the
  register, a comparison that fails ends the rule.\<close>

definition nft_documented :: "(bytes \<Rightarrow> nf_expr list \<Rightarrow> nf_packet \<Rightarrow> bool) \<Rightarrow> bool" where
  "nft_documented runs \<longleftrightarrow>
     (\<forall>reg es p.
        runs reg (Accept # es) p \<and> runs reg (MasqueradeExpr # es) p \<and>
        (runs reg (MetaOifName # es) p \<longleftrightarrow> runs (pk_oif p) es p) \<and>
        (runs reg (MetaIifName # es) p \<longleftrightarrow> runs (pk_iif p) es p) \<and>
        (runs reg (PayloadProtocol # es) p \<longleftrightarrow> runs [pk_protocol p] es p) \<and>
        (runs reg (PayloadUdpDport # es) p \<longleftrightarrow> runs (u16_to_be_bytes (pk_udp_dport p)) es p) \<and>
        (runs reg (ConntrackState # es) p \<longleftrightarrow> runs (pk_ct_state p) es p) \<and>
        (\<forall>m x. runs reg (Bitwise m x # es) p \<longleftrightarrow> runs (bytes_xor (bytes_and reg m) x) es p) \<and>
        (\<forall>b. runs reg (CmpEq b # es) p \<longleftrightarrow> reg = b \<and> runs reg es p) \<and>
        (\<forall>b. runs reg (CmpNeq b # es) p \<longleftrightarrow> reg \<noteq> b \<and> runs reg es p) \<and>
        (runs reg (MatchIcmp # es) p \<longleftrightarrow> pk_protocol p = 1 \<and> runs reg es p))"

text \<open>The input chain: a packet is accepted if a rule of it accepts it, and else by its policy.\<close>

definition chain_rules :: "string \<Rightarrow> nf_message list \<Rightarrow> nf_rule list" where
  "chain_rules name batch =
     concat (map (\<lambda>m. case m of AddRule r \<Rightarrow> if rule_chain r = name then [r] else [] | _ \<Rightarrow> []) batch)"

definition input_accepts ::
  "(bytes \<Rightarrow> nf_expr list \<Rightarrow> nf_packet \<Rightarrow> bool) \<Rightarrow> nf_message list \<Rightarrow> nf_packet \<Rightarrow> bool" where
  "input_accepts runs batch p \<longleftrightarrow>
     (\<exists>r \<in> set (chain_rules (chain_name filter_chain) batch). runs [] (rule_exprs r) p)
     \<or> list_ex (\<lambda>m. case m of
            AddChain ch \<Rightarrow> chain_name ch = chain_name filter_chain \<and> chain_policy ch = PolicyAccept
          | _ \<Rightarrow> False) batch"

text \<open>Behind routing: a packet that leaves is given the router's address if a rule of the NAT chain
  says so.\<close>

definition masqueraded ::
  "(bytes \<Rightarrow> nf_expr list \<Rightarrow> nf_packet \<Rightarrow> bool) \<Rightarrow> nf_message list \<Rightarrow> nf_packet \<Rightarrow> bool" where
  "masqueraded runs batch p \<longleftrightarrow>
     (\<exists>r \<in> set (chain_rules (chain_name nat_chain) batch). runs [] (rule_exprs r) p)"

text \<open>Packets that are routed through meet the chains of the forward hook only.\<close>

definition filters_forwarding :: "nf_message list \<Rightarrow> bool" where
  "filters_forwarding batch \<longleftrightarrow>
     list_ex (\<lambda>m. case m of
         AddChain ch \<Rightarrow> (case chain_hook ch of Forwarding _ \<Rightarrow> True | _ \<Rightarrow> False)
       | _ \<Rightarrow> False) batch"

section \<open>Interface names\<close>

lemma char_byte_inj: "char_byte c = char_byte d \<longleftrightarrow> c = d"
proof
  assume "char_byte c = char_byte d"
  then have "unat (char_byte c) = unat (char_byte d)" by simp
  then have "(of_char c :: nat) = of_char d"
    by (simp add: char_byte_def unsigned_of_nat take_bit_nat_eq_self)
  then show "c = d" by (metis char_of_char)
qed simp

text \<open>The kernel's names have at most 15 characters, none of them the null character.\<close>

definition interface_name :: "string \<Rightarrow> bool" where
  "interface_name n \<longleftrightarrow> length n \<le> 15 \<and> CHR 0x00 \<notin> set n"

lemma pad_interface_name_inj:
  assumes "interface_name a" and "interface_name b" and "pad_interface_name a = pad_interface_name b"
  shows "a = b"
proof -
  have zero: "0 \<notin> set (map char_byte n)" if "interface_name n" for n
  proof
    assume "0 \<in> set (map char_byte n)"
    then obtain c where c: "c \<in> set n" "char_byte c = char_byte (CHR 0x00)"
      by (auto simp: char_byte_def)
    then show False using that by (simp add: char_byte_inj interface_name_def)
  qed
  have strip: "takeWhile (\<lambda>x. x \<noteq> 0) (pad_interface_name n) = map char_byte n"
    if "interface_name n" for n
  proof -
    have "pad_interface_name n = map char_byte n @ replicate (16 - length n) 0"
      using that by (simp add: pad_interface_name_def interface_name_def Let_def)
    moreover have "takeWhile (\<lambda>x. x \<noteq> 0) (map char_byte n @ replicate (16 - length n) 0) =
        map char_byte n @ takeWhile (\<lambda>x. x \<noteq> 0) (replicate (16 - length n) (0 :: u8))"
      using zero [OF that] by (intro takeWhile_append2) metis
    ultimately show ?thesis by (simp add: takeWhile_replicate)
  qed
  have "map char_byte a = map char_byte b"
    using strip [OF assms(1)] strip [OF assms(2)] assms(3) by simp
  then show ?thesis
    using inj_map_eq_map [of char_byte a b] by (simp add: inj_def char_byte_inj)
qed

section \<open>The input policy\<close>

lemma u16_to_be_bytes_inj: "u16_to_be_bytes a = u16_to_be_bytes b \<longleftrightarrow> a = b"
proof
  assume eq: "u16_to_be_bytes a = u16_to_be_bytes b"
  have "u16_from_be_bytes (u16_to_be_bytes w ! 0) (u16_to_be_bytes w ! 1) = w" for w
    by (simp add: u16_to_be_bytes_def)
  then show "a = b" using eq by metis
qed simp

lemma firewall_input_rules:
  "chain_rules (chain_name filter_chain) (firewall_batch wan lan) =
     [iif_rule ''lo'', iif_rule lan, wan_dhcp_rule wan, icmp_rule, ct_rule]"
  by (simp add: chain_rules_def firewall_batch_def filter_chain_def nat_chain_def masq_rule_def
      iif_rule_def wan_dhcp_rule_def icmp_rule_def ct_rule_def)

lemma firewall_nat_rules:
  "chain_rules (chain_name nat_chain) (firewall_batch wan lan) = [masq_rule wan]"
  by (simp add: chain_rules_def firewall_batch_def filter_chain_def nat_chain_def masq_rule_def
      iif_rule_def wan_dhcp_rule_def icmp_rule_def ct_rule_def)

lemma lo_is_name: "interface_name ''lo''"
  by (simp add: interface_name_def)

lemma pad_eq_iff:
  "interface_name a \<Longrightarrow> interface_name b \<Longrightarrow> pad_interface_name a = pad_interface_name b \<longleftrightarrow> a = b"
  using pad_interface_name_inj by blast

lemma ct_mask: "bytes_xor (bytes_and [a, b, c, d] [6, 0, 0, 0]) [0, 0, 0, 0] = [a AND 6, 0, 0, 0]"
  by (simp add: bytes_xor_def bytes_and_def)


text \<open>A kernel that runs rules as documented.\<close>

fun run_rule :: "bytes \<Rightarrow> nf_expr list \<Rightarrow> nf_packet \<Rightarrow> bool" where
  "run_rule reg [] p = False"
| "run_rule reg (e # es) p =
     (case e of
        Accept \<Rightarrow> True
      | MetaIifName \<Rightarrow> run_rule (pk_iif p) es p
      | MetaOifName \<Rightarrow> run_rule (pk_oif p) es p
      | PayloadProtocol \<Rightarrow> run_rule [pk_protocol p] es p
      | PayloadUdpDport \<Rightarrow> run_rule (u16_to_be_bytes (pk_udp_dport p)) es p
      | ConntrackState \<Rightarrow> run_rule (pk_ct_state p) es p
      | Bitwise m x \<Rightarrow> run_rule (bytes_xor (bytes_and reg m) x) es p
      | CmpEq b \<Rightarrow> reg = b \<and> run_rule reg es p
      | CmpNeq b \<Rightarrow> reg \<noteq> b \<and> run_rule reg es p
      | MatchIcmp \<Rightarrow> pk_protocol p = 1 \<and> run_rule reg es p
      | MasqueradeExpr \<Rightarrow> True)"

lemma run_rule_documented: "nft_documented run_rule"
  by (simp add: nft_documented_def)


end
