(* ===== verification/Log_Prefix.thy ===== *)
theory Log_Prefix
  imports Main
begin

text \<open>
  The prefix of every log line: \<open>get_timestamp_prefix\<close> of \<open>src/services/utils.rs\<close>, which the
  \<open>println!\<close> and \<open>eprintln!\<close> macros of \<open>src/main.rs\<close> print first. The date is that of \<open>chrono\<close>'s
  clock, broken down.
\<close>

record utc_time =
  ut_year :: nat
  ut_month :: nat
  ut_day :: nat
  ut_hour :: nat
  ut_minute :: nat
  ut_second :: nat
  ut_millis :: nat

text \<open>A number with leading zeros, as \<open>chrono\<close> prints the fields of a date.\<close>

fun decimal :: "nat \<Rightarrow> nat \<Rightarrow> string" where
  "decimal 0 n = []"
| "decimal (Suc k) n = decimal k (n div 10) @ [char_of (48 + n mod 10)]"

text \<open>\<open>now.format("[%Y-%m-%dT%H:%M:%S%.3fZ] ")\<close>, for the years up to 9999.\<close>

definition get_timestamp_prefix :: "utc_time \<Rightarrow> string" where
  "get_timestamp_prefix now =
     ''['' @ decimal 4 (ut_year now) @ ''-'' @ decimal 2 (ut_month now) @ ''-'' @ decimal 2 (ut_day now) @
     ''T'' @ decimal 2 (ut_hour now) @ '':'' @ decimal 2 (ut_minute now) @ '':'' @
     decimal 2 (ut_second now) @ ''.'' @ decimal 3 (ut_millis now) @ ''Z] ''"

text \<open>The \<open>println!\<close> macro.\<close>

definition print_line :: "utc_time \<Rightarrow> string \<Rightarrow> string" where
  "print_line now message = get_timestamp_prefix now @ message @ [CHR 0x0A]"

definition in_range :: "utc_time \<Rightarrow> bool" where
  "in_range t \<longleftrightarrow> ut_year t < 10000 \<and> ut_month t < 100 \<and> ut_day t < 100 \<and> ut_hour t < 100 \<and>
     ut_minute t < 100 \<and> ut_second t < 100 \<and> ut_millis t < 1000"

lemma length_decimal [simp]: "length (decimal k n) = k"
  by (induction k n rule: decimal.induct) simp_all

lemma decimal_inject:
  "n < 10 ^ k \<Longrightarrow> m < 10 ^ k \<Longrightarrow> decimal k n = decimal k m \<longleftrightarrow> n = m"
proof (induction k arbitrary: n m)
  case (Suc k)
  have byte: "take_bit 8 (48 + a mod 10) = 48 + a mod 10" for a :: nat
    using mod_less_divisor [of 10 a] by (intro take_bit_nat_eq_self) simp
  have digit: "char_of (48 + a mod 10) = char_of (48 + b mod 10) \<longleftrightarrow> a mod 10 = b mod 10" for a b :: nat
    by (simp add: char_of_eq_iff byte)
  have "n div 10 < 10 ^ k" "m div 10 < 10 ^ k" using Suc.prems by (simp_all add: less_mult_imp_div_less mult.commute)
  then have "decimal (Suc k) n = decimal (Suc k) m \<longleftrightarrow> n div 10 = m div 10 \<and> n mod 10 = m mod 10"
    using Suc.IH digit by simp
  also have "\<dots> \<longleftrightarrow> n = m" by (metis div_mult_mod_eq)
  finally show ?case .
qed simp

text \<open>Every log line carries its time to the millisecond: the prefix has 27 characters, with
  a T between date and time (not the space of the specification), and two prefixes are equal only
  if all fields of the two times are, so the time can be read back from it.\<close>

theorem log_prefix_exact:
  assumes "in_range t"
  shows "length (get_timestamp_prefix t) = 27 \<and> get_timestamp_prefix t ! 11 = CHR ''T''
    \<and> (in_range t' \<longrightarrow> (get_timestamp_prefix t = get_timestamp_prefix t' \<longleftrightarrow> t = t'))"
proof -
  have "get_timestamp_prefix t ! 11 = CHR ''T''"
    by (simp add: get_timestamp_prefix_def nth_append)
  moreover have "t = t'" if "in_range t'" "get_timestamp_prefix t = get_timestamp_prefix t'"
    using that assms by (cases t; cases t') (simp add: get_timestamp_prefix_def in_range_def decimal_inject)
  ultimately show ?thesis by (auto simp: get_timestamp_prefix_def)
qed

theorem log_prefix_exact_witness:
  "get_timestamp_prefix \<lparr>ut_year = 2026, ut_month = 7, ut_day = 18, ut_hour = 15, ut_minute = 18,
     ut_second = 30, ut_millis = 123\<rparr> ! 11 = CHR ''T''"
  using log_prefix_exact [of "\<lparr>ut_year = 2026, ut_month = 7, ut_day = 18, ut_hour = 15, ut_minute = 18,
     ut_second = 30, ut_millis = 123\<rparr>"] by (simp add: in_range_def)

end
