(* ===== verification/Lease_Service.thy ===== *)
theory Lease_Service
  imports Dhcp_Server Machines
begin

text \<open>
  What the LAN DHCP server promises, as a specification of its own: a service that keeps a map
  of leases and either lets leases lapse, gives one, or takes one back. The server of
  \<open>src/services/dhcp_server.rs\<close> implements it, through the map its table stands for; and what it
  sends says what its table says.
\<close>

section \<open>The specification\<close>

type_synonym lease_map = "mac \<Rightarrow> client_lease option"

text \<open>Nothing is lost but what has expired by the time \<open>t\<close>.\<close>

definition lapses :: "instant \<Rightarrow> lease_map \<Rightarrow> lease_map \<Rightarrow> bool" where
  "lapses t L L' \<longleftrightarrow> (\<forall>m. L' m = L m \<or> L' m = None \<and> (\<exists>l. L m = Some l \<and> lease_expiry l \<le> t))"

definition lease_time :: duration where "lease_time = from_secs 3600"

text \<open>
  A step from one time to another: some leases lapse and, in \<open>give\<close>, a client gets an address of
  the network that is not the server's and that nobody else holds, for one hour from a moment
  between the two times; in \<open>take_back\<close>, a client's lease ends.
\<close>

inductive lease_service :: "ipv4_net \<Rightarrow> lease_map \<times> instant \<Rightarrow> lease_map \<times> instant \<Rightarrow> bool" for net where
  lapse: "t \<le> t' \<Longrightarrow> lapses t' L L' \<Longrightarrow> lease_service net (L, t) (L', t')"
| give: "t \<le> t' \<Longrightarrow> lapses t' L L' \<Longrightarrow>
    (\<And>m' l'. m' \<noteq> m \<Longrightarrow> L' m' = Some l' \<Longrightarrow> t' < lease_expiry l' \<Longrightarrow> lease_ip l' \<noteq> lease_ip l) \<Longrightarrow>
    net_contains net (lease_ip l) \<Longrightarrow> lease_ip l \<noteq> net_addr net \<Longrightarrow>
    t + lease_time \<le> lease_expiry l \<Longrightarrow> lease_expiry l \<le> t' + lease_time \<Longrightarrow>
    lease_service net (L, t) (L'(m \<mapsto> l), t')"
| take_back: "t \<le> t' \<Longrightarrow> lease_service net (L, t) (L(m := None), t')"

inductive_cases lease_serviceE: "lease_service net (L, t) (L', t')"

lemma lapses_refl [simp]: "lapses t L L"
  by (simp add: lapses_def)

lemma lapses_SomeD: "lapses t L L' \<Longrightarrow> L' m = Some l \<Longrightarrow> L m = Some l"
  unfolding lapses_def by (metis option.distinct(1))

lemma lapses_evicted: "(\<And>m. clk m \<le> t) \<Longrightarrow> lapses t L (evicted clk L)"
  unfolding lapses_def evicted_def
  by (auto split: option.splits) (meson le_trans not_less)+

text \<open>The specification keeps its leases apart, inside the network, and at most an hour long.\<close>

definition service_ok :: "ipv4_net \<Rightarrow> lease_map \<times> instant \<Rightarrow> bool" where
  "service_ok net a \<longleftrightarrow> (case a of (L, t) \<Rightarrow>
     live_unique t L \<and>
     leases_within (\<lambda>x. net_contains net x \<and> x \<noteq> net_addr net) L \<and>
     (\<forall>m l. L m = Some l \<longrightarrow> lease_expiry l \<le> t + lease_time))"

lemma service_ok_empty: "fst a = Map.empty \<Longrightarrow> service_ok net a"
  by (cases a) (simp add: service_ok_def live_unique_def leases_within_def)

lemma service_ok_step:
  assumes "service_ok net a" and "lease_service net a a'"
  shows "service_ok net a'"
  using assms(2)
proof cases
  case (lapse t t' L L')
  then show ?thesis
    using assms(1) lapses_SomeD [OF lapse(4)] live_unique_submap [of t' L L'] live_unique_mono [of t L t']
      leases_within_submap [of _ L L']
    by (fastforce simp: service_ok_def)
next
  case (give t t' L L' m l)
  have "live_unique t' L'" "leases_within (\<lambda>x. net_contains net x \<and> x \<noteq> net_addr net) L'"
    using assms(1) give lapses_SomeD [OF give(4)] live_unique_submap [of t' L L']
      live_unique_mono [of t L t'] leases_within_submap [of _ L L']
    by (auto simp: service_ok_def)
  moreover have "lease_expiry l' \<le> t' + lease_time" if "L' m' = Some l'" for m' l'
    using assms(1) give(1,3) lapses_SomeD [OF give(4) that] by (fastforce simp: service_ok_def)
  ultimately show ?thesis
    using give by (auto simp: service_ok_def leases_within_update intro!: live_unique_update)
next
  case (take_back t t' L m)
  then show ?thesis
    using assms(1) live_unique_submap [of t' L "L(m := None)"] live_unique_mono [of t L t']
      leases_within_submap [of _ L "L(m := None)"]
    by (fastforce simp: service_ok_def split: if_splits)
qed

section \<open>The server implements it\<close>

definition server_transition ::
  "libs \<Rightarrow> ipv4_net \<Rightarrow> server_state \<times> instant \<Rightarrow> server_state \<times> instant \<Rightarrow> bool" where
  "server_transition E net c c' \<longleftrightarrow> (case (c, c') of ((s, t), (s', t')) \<Rightarrow>
     t \<le> t' \<and> (\<exists>ev out. event_between t t' ev \<and> server_step E net ev s = Inr (out, s')))"

definition server_initial :: "ipv4_net \<Rightarrow> server_state \<times> instant \<Rightarrow> bool" where
  "server_initial net c \<longleftrightarrow> net_documented net \<and>
     fst c = \<lparr>sv_phase = SettingUp, sv_leases = lease_table_new, sv_open_fds = {}\<rparr>"

definition server_ok :: "ipv4_net \<Rightarrow> server_state \<times> instant \<Rightarrow> bool" where
  "server_ok net c \<longleftrightarrow>
     net_documented net \<and> table_inv (sv_leases (fst c)) \<and> phase_ok net (fst c)"

definition granted_leases :: "server_state \<times> instant \<Rightarrow> lease_map \<times> instant" where
  "granted_leases c = (leases_of (sv_leases (fst c)), snd c)"

lemma new_lease_time:
  "lease_ip (new_lease rd a) = a" "lease_expiry (new_lease rd a) = rd_stamp rd + lease_time"
  by (simp_all add: new_lease_def lease_time_def LAN_LEASE_SECS_def)

text \<open>Each of the five transitions of the table is a step of the service.\<close>

lemma lease_step_service:
  assumes "lease_step config rd client T T'" and inv: "table_inv T" and net: "net_documented (cfg_net config)"
    and addr: "cfg_server_ip config = net_addr (cfg_net config)"
    and times: "t \<le> t'" "\<And>m. rd_entries rd m \<le> t'" "t \<le> rd_stamp rd" "rd_stamp rd \<le> t'"
  shows "lease_service (cfg_net config) (leases_of T, t) (leases_of T', t')"
  using assms(1)
proof (cases rule: lease_step.cases)
  case keep
  with times show ?thesis by (simp add: lease_service.lapse)
next
  case release
  with inv times show ?thesis by (simp add: lt.leases_take_out lease_service.take_back)
next
  case exhausted
  with inv times show ?thesis by (simp add: lt.leases_fresh lease_service.lapse lapses_evicted)
next
  case (allocate a)
  let ?L = "evicted (rd_entries rd) (leases_of T)"
  have a: "a \<in> set (net_hosts (cfg_net config))" "a \<noteq> cfg_server_ip config" "a \<notin> leased_ips ?L"
    using lt.fresh_SomeD [OF inv allocate(2)] inv by (simp_all add: lt.leases_fresh)
  have "lease_service (cfg_net config) (leases_of T, t) (?L(client \<mapsto> new_lease rd a), t')"
    using a net times
    by (intro lease_service.give lapses_evicted)
      (auto simp: net_documented_def list_all_iff addr new_lease_time leased_ips_iff)
  with allocate inv show ?thesis by (simp add: lt.leases_put lt.inv_fresh lt.leases_fresh)
next
  case (grant a)
  then have a: "a \<noteq> cfg_server_ip config" "net_contains (cfg_net config) a"
    "\<And>m l. leases_of T m = Some l \<Longrightarrow> m \<noteq> client \<Longrightarrow> lease_ip l = a \<Longrightarrow> lease_expiry l \<le> rd_entries rd m"
    using inv by (auto simp: validate_iff)
  have free: "lease_ip l' \<noteq> a"
    if "m' \<noteq> client" "leases_of T m' = Some l'" "t' < lease_expiry l'" for m' l'
    using a(3) [OF that(2,1)] that(3) times(2) [of m'] by fastforce
  have "lease_service (cfg_net config) (leases_of T, t) ((leases_of T)(client \<mapsto> new_lease rd a), t')"
    using a free times by (intro lease_service.give) (auto simp: addr new_lease_time)
  with grant inv show ?thesis by (simp add: lt.leases_put)
qed

lemma server_transition_ok:
  "server_ok net c \<Longrightarrow> server_transition E net c c' \<Longrightarrow> server_ok net c'"
  unfolding server_ok_def server_transition_def
  by (auto intro: server_step_phase) (metis server_step_lease lease_step_inv)

lemma server_transition_service:
  assumes "server_ok net c" and "server_transition E net c c'"
  shows "lease_service net (granted_leases c) (granted_leases c')"
proof -
  obtain s t s' t' where c: "c = (s, t)" "c' = (s', t')" by (cases c; cases c')
  with assms(2) obtain ev out where t: "t \<le> t'" and ev: "event_between t t' ev"
    and step: "server_step E net ev s = Inr (out, s')" by (auto simp: server_transition_def)
  from server_step_lease [OF step] show ?thesis
  proof (elim disjE exE conjE)
    assume "sv_leases s' = sv_leases s"
    with t show ?thesis by (simp add: granted_leases_def c lease_service.lapse)
  next
    fix rd frame config fd buf client
    assume rd: "ev = Received rd frame" and ph: "sv_phase s = Serving config fd buf"
      and ls: "lease_step config rd client (sv_leases s) (sv_leases s')"
    from assms(1) ph have "cfg_net config = net" "cfg_server_ip config = net_addr net"
      "table_inv (sv_leases s)" "net_documented net"
      by (simp_all add: server_ok_def phase_ok_def c)
    with lease_step_service [OF ls, of t t'] t ev rd show ?thesis
      by (simp add: granted_leases_def c)
  qed
qed

lemma server_initial_ok:
  "server_initial net c \<Longrightarrow> server_ok net c"
  "server_initial net c \<Longrightarrow> fst (granted_leases c) = Map.empty"
  by (cases c; simp add: server_initial_def server_ok_def phase_ok_def granted_leases_def fun_eq_iff)+

interpretation lan: simulation "server_initial net" "server_transition E net" "server_ok net"
  granted_leases "\<lambda>a. fst a = Map.empty" "lease_service net" for E net
  by unfold_locales
    (simp_all add: server_initial_ok server_transition_ok server_transition_service)

lemma reachable_transitions:
  "server_reachable E net s t \<Longrightarrow> \<exists>t0. (server_transition E net)\<^sup>*\<^sup>*
     (\<lparr>sv_phase = SettingUp, sv_leases = lease_table_new, sv_open_fds = {}\<rparr>, t0) (s, t)"
proof (induction rule: server_reachable.induct)
  case (step s t t' ev out s')
  then have "server_transition E net (s, t) (s', t')" by (auto simp: server_transition_def)
  with step.IH show ?case by (meson rtranclp.rtrancl_into_rtrancl)
qed blast

section \<open>What it sends\<close>

text \<open>Every encoded message fits a datagram.\<close>

definition messages_fit :: "libs \<Rightarrow> bool" where
  "messages_fit E \<longleftrightarrow>
     (\<forall>d p. message_encode (lib_dhcproto E) d = Inr p \<longrightarrow> length p \<le> 65507)"

text \<open>A frame offers or acknowledges an address to a client, or refuses a request.\<close>

definition offers :: "libs \<Rightarrow> server_config \<Rightarrow> lease_map \<Rightarrow> bytes \<Rightarrow> bool" where
  "offers E config L frame \<longleftrightarrow> (\<exists>mt dhcp client l.
     mt \<in> {Offer, Ack} \<and> L client = Some l \<and>
     carries E config (get_dest_mac_ip (msg_broadcast dhcp) client (lease_ip l))
       (reply_message E mt dhcp (lease_ip l) config) frame)"

definition refuses :: "libs \<Rightarrow> server_config \<Rightarrow> bytes \<Rightarrow> bool" where
  "refuses E config frame \<longleftrightarrow> (\<exists>dhcp client.
     carries E config (get_dest_mac_ip (msg_broadcast dhcp) client ipv4_broadcast)
       (nak_message E dhcp config) frame)"

lemma send_reply_out:
  assumes "pnet_documented (lib_pnet E)" and "messages_fit E"
    and "send_reply E config mt dhcp client a = Inr out" and "frame \<in> set out"
  shows "carries E config (get_dest_mac_ip (msg_broadcast dhcp) client a) (reply_message E mt dhcp a config) frame"
proof (cases "message_encode (lib_dhcproto E) (reply_message E mt dhcp a config)")
  case (Inl e)
  with assms(3,4) show ?thesis by (simp add: send_reply_def build_dhcp_reply_payload_def)
next
  case (Inr p)
  with assms(2) have "sendable E (reply_message E mt dhcp a config)"
    by (auto simp: sendable_def messages_fit_def)
  from send_reply_ok [OF assms(1) this, of client] assms(3,4) show ?thesis by auto
qed

lemma send_nak_out:
  assumes "pnet_documented (lib_pnet E)" and "messages_fit E"
    and "send_dhcp_nak E dhcp client config = Inr out" and "frame \<in> set out"
  shows "refuses E config frame"
proof (cases "message_encode (lib_dhcproto E) (nak_message E dhcp config)")
  case (Inl e)
  with assms(3,4) show ?thesis by (simp add: send_dhcp_nak_def)
next
  case (Inr p)
  with assms(2) have "sendable E (nak_message E dhcp config)"
    by (auto simp: sendable_def messages_fit_def)
  from send_nak_ok [OF assms(1) this, of client] assms(3,4) have "carries E config
      (get_dest_mac_ip (msg_broadcast dhcp) client ipv4_broadcast) (nak_message E dhcp config) frame"
    by auto
  then show ?thesis unfolding refuses_def by blast
qed

lemma offersI:
  assumes "pnet_documented (lib_pnet E)" and "messages_fit E"
    and "send_reply E config mt dhcp client a = Inr out" and "frame \<in> set out"
    and "mt \<in> {Offer, Ack}" and "L client = Some l" and "lease_ip l = a"
  shows "offers E config L frame"
  using send_reply_out [OF assms(1-4)] assms(5-7) unfolding offers_def by metis

lemma discover_out:
  assumes docs: "pnet_documented (lib_pnet E)" "messages_fit E" and inv: "table_inv T"
    and h: "handle_dhcp_discover E rd config dhcp client T = Inr (out, T')" and frame: "frame \<in> set out"
  shows "offers E config (leases_of T') frame"
proof (cases "lease_table_get T client")
  case (Some l)
  with h have "send_reply E config Offer dhcp client (lease_ip l) = Inr out" "T' = T"
    by (auto simp: handle_dhcp_discover_def outcome_simps)
  with Some frame show ?thesis
    by (auto simp: lease_table_get_def leases_of_def intro: offersI [OF docs])
next
  case None
  obtain x U where n: "next_available_ip (rd_entries rd) (cfg_net config) (cfg_server_ip config) T = (x, U)"
    by (cases "next_available_ip (rd_entries rd) (cfg_net config) (cfg_server_ip config) T")
  with h None frame obtain a where a: "x = Some a"
    by (cases x) (auto simp: handle_dhcp_discover_def)
  with h None n have "send_reply E config Offer dhcp client a = Inr out"
    "T' = lease_table_insert client (new_lease rd a) U"
    by (auto simp: handle_dhcp_discover_def outcome_simps)
  moreover have "table_inv U"
    using lt.inv_fresh [OF inv, of "rd_entries rd" "cfg_net config" "cfg_server_ip config"] n by simp
  ultimately show ?thesis
    using frame by (auto simp: lt.leases_put new_lease_time intro: offersI [OF docs])
qed

lemma request_out:
  assumes docs: "pnet_documented (lib_pnet E)" "messages_fit E" and inv: "table_inv T"
    and h: "handle_dhcp_request E rd config dhcp client T = Inr (out, T')" and frame: "frame \<in> set out"
  shows "offers E config (leases_of T') frame \<or> refuses E config frame"
proof -
  obtain a where a: "requested_ip dhcp client T = Some a"
    using h frame by (cases "requested_ip dhcp client T") (auto simp: handle_dhcp_request_def)
  show ?thesis
  proof (cases "validate_requested_ip (rd_entries rd) a client config T")
    case True
    with h a have "send_reply E config Ack dhcp client a = Inr out"
      "T' = lease_table_insert client (new_lease rd a) T"
      by (auto simp: handle_dhcp_request_def Let_def outcome_simps)
    with inv frame have "offers E config (leases_of T') frame"
      by (auto simp: lt.leases_put new_lease_time intro: offersI [OF docs])
    then show ?thesis ..
  next
    case False
    with h a have "send_dhcp_nak E dhcp client config = Inr out"
      by (auto simp: handle_dhcp_request_def outcome_simps)
    with send_nak_out [OF docs] frame show ?thesis by blast
  qed
qed

lemma dispatch_out:
  assumes "pnet_documented (lib_pnet E)" "messages_fit E" "table_inv T"
    and "dispatch E rd config dhcp client mt T = Inr (out, T')" and "frame \<in> set out"
  shows "offers E config (leases_of T') frame \<or> refuses E config frame"
  using assms discover_out request_out
  by (cases mt) (auto simp: dispatch_def)

lemma server_step_out:
  assumes "pnet_documented (lib_pnet E)" "messages_fit E" "server_ok net (s, t)"
    and "server_step E net ev s = Inr (out, s')" and "frame \<in> set out"
  shows "\<exists>config. cfg_net config = net \<and> cfg_server_ip config = net_addr net \<and>
    (offers E config (leases_of (sv_leases s')) frame \<or> refuses E config frame)"
proof -
  obtain rd f where ev: "ev = Received rd f"
    using assms(4,5) by (cases ev) (auto simp: Let_def split: server_phase.splits sum.splits prod.splits)
  with assms(4,5) obtain config fd buf n b where ph: "sv_phase s = Serving config fd buf"
    and p: "process_incoming_packet E rd config n b (sv_leases s) = Inr (out, sv_leases s')"
    by (auto simp: outcome_simps Let_def split: server_phase.splits)
  from process_disj [OF p] assms(5) obtain dhcp client mt where
    "dispatch E rd config dhcp client mt (sv_leases s) = Inr (out, sv_leases s')" by auto
  from dispatch_out [OF assms(1,2) _ this assms(5)] assms(3) ph show ?thesis
    by (auto simp: server_ok_def phase_ok_def)
qed



end
