(* ===== verification/Lease_Pool.thy ===== *)
theory Lease_Pool
  imports Lease_Service
begin

text \<open>
  How far the address pool of the LAN DHCP server goes: what a sequence of first DISCOVERs by
  different clients gets, from a server without leases and within one lease time. The specification
  is the list of the network's hosts without the server's own address.
\<close>

section \<open>Runs of the server\<close>

fun server_run :: "libs \<Rightarrow> ipv4_net \<Rightarrow> server_event list \<Rightarrow> server_state \<Rightarrow>
    (bytes list list \<times> server_state) outcome" where
  "server_run E net [] s = Inr ([], s)"
| "server_run E net (ev # evs) s =
     obind (server_step E net ev s) (\<lambda>(out, s1).
     obind (server_run E net evs s1) (\<lambda>(outs, s2). Inr (out # outs, s2)))"

lemma server_run_snoc:
  "server_run E net evs s = Inr (outs, s1) \<Longrightarrow> server_step E net ev s1 = Inr (out, s2) \<Longrightarrow>
     server_run E net (evs @ [ev]) s = Inr (outs @ [out], s2)"
  by (induction evs arbitrary: s outs) (auto simp: outcome_simps)

section \<open>The pool\<close>

definition pool :: "server_config \<Rightarrow> ipv4 list" where
  "pool config = filter (\<lambda>a. a \<noteq> cfg_server_ip config) (net_hosts (cfg_net config))"

lemma find_filter: "find (\<lambda>x. P x \<and> Q x) xs = find Q (filter P xs)"
  by (induction xs) auto

lemma find_not_taken:
  "distinct xs \<Longrightarrow> find (\<lambda>x. x \<notin> set (take k xs)) xs = (if k < length xs then Some (xs ! k) else None)"
proof (induction xs arbitrary: k)
  case (Cons x xs)
  show ?case
  proof (cases k)
    case (Suc j)
    have "find (\<lambda>y. y \<notin> set (take k (x # xs))) xs = find (\<lambda>y. y \<notin> set (take j xs)) xs"
      using Cons.prems Suc by (intro find_cong) auto
    with Cons Suc show ?thesis by simp
  qed simp
qed simp

text \<open>The map after the clients of the list have taken the first addresses of the pool, in order.\<close>

definition in_order :: "(readings \<times> mac) list \<Rightarrow> ipv4 list \<Rightarrow> lease_map" where
  "in_order clients as = map_of (zip (map snd clients) (map2 new_lease (map fst clients) as))"

lemma in_order_snoc:
  assumes "distinct (map snd (cs @ [c]))"
  shows "in_order (cs @ [c]) as =
    (if length cs < length as then (in_order cs as)(snd c \<mapsto> new_lease (fst c) (as ! length cs))
     else in_order cs as)"
proof (cases "length cs < length as")
  case True
  let ?l = "zip (map snd cs) (map2 new_lease (map fst cs) as)"
  have "zip (map snd (cs @ [c])) (map2 new_lease (map fst (cs @ [c])) as) =
      ?l @ [(snd c, new_lease (fst c) (as ! length cs))]"
    using True
    by (intro nth_equalityI) (auto simp: nth_append min_def less_Suc_eq)
  moreover have "snd c \<notin> dom (map_of ?l)"
    using assms by (auto simp: dom_map_of_conv_image_fst dest!: set_zip_leftD)
  then have "map_of (?l @ [(snd c, new_lease (fst c) (as ! length cs))]) =
      (map_of ?l)(snd c \<mapsto> new_lease (fst c) (as ! length cs))"
    unfolding map_of_append by (simp add: map_add_upd_left)
  ultimately show ?thesis
    using True unfolding in_order_def by simp
next
  case False
  then have "zip (map snd (cs @ [c])) (map2 new_lease (map fst (cs @ [c])) as) =
      zip (map snd cs) (map2 new_lease (map fst cs) as)"
    by (intro nth_equalityI) (auto simp: nth_append min_def)
  with False show ?thesis by (simp add: in_order_def)
qed

section \<open>One client after the other\<close>

text \<open>A frame whose first 2048 bytes the server handles as a DISCOVER of the client.\<close>

definition discovers :: "libs \<Rightarrow> bytes \<Rightarrow> mac \<Rightarrow> bool" where
  "discovers E frame client \<longleftrightarrow> (\<exists>dhcp chaddr.
     parse_dhcp_payload (lib_pnet E) (lib_dhcproto E) (take 2048 frame) SERVER_PORT = Some dhcp \<and>
     msg_opcode dhcp = BootRequest \<and> message_type_of dhcp = Some Discover \<and>
     slice_to (msg_chaddr dhcp) (unat (msg_hlen dhcp)) = Inr chaddr \<and> mac_of_octets chaddr = Some client \<and>
     eth_min (lib_pnet E) \<le> length (take 2048 frame) \<and>
     (msg_giaddr dhcp = ipv4_unspecified \<longrightarrow> eth_source (eth_view (lib_pnet E) (take 2048 frame)) = client))"

lemma discovers_process:
  assumes "discovers E frame client" and "length buf = BUF_LEN"
    and n: "n = min (length frame) (length buf)" and b: "buf' = take n frame @ drop n buf"
  shows "\<exists>dhcp. process_incoming_packet E rd config n buf' T = handle_dhcp_discover E rd config dhcp client T"
proof -
  have "take n buf' = take 2048 frame" "n \<le> length buf'"
    using assms(2) n b by (auto simp: BUF_LEN_def min_def)
  then have "slice_to buf' n = Inr (take 2048 frame)" by (simp add: slice_to_def)
  moreover from assms(1) obtain dhcp chaddr where
    "parse_dhcp_payload (lib_pnet E) (lib_dhcproto E) (take 2048 frame) SERVER_PORT = Some dhcp"
    "msg_opcode dhcp = BootRequest" "message_type_of dhcp = Some Discover"
    "slice_to (msg_chaddr dhcp) (unat (msg_hlen dhcp)) = Inr chaddr" "mac_of_octets chaddr = Some client"
    "eth_min (lib_pnet E) \<le> length (take 2048 frame)"
    "msg_giaddr dhcp = ipv4_unspecified \<longrightarrow> eth_source (eth_view (lib_pnet E) (take 2048 frame)) = client"
    unfolding discovers_def by blast
  ultimately have "process_incoming_packet E rd config n buf' T = handle_dhcp_discover E rd config dhcp client T"
    by (auto simp: process_incoming_packet_def eth_new_def dispatch_def Let_def)
  then show ?thesis ..
qed

text \<open>Every reply can be encoded into one datagram.\<close>

definition replies_sendable :: "libs \<Rightarrow> server_config \<Rightarrow> bool" where
  "replies_sendable E config \<longleftrightarrow> (\<forall>mt dhcp a. sendable E (reply_message E mt dhcp a config))"

lemma discover_first:
  assumes "pnet_documented (lib_pnet E)" and "replies_sendable E config"
    and "table_inv T" and "leases_of T client = None"
  shows "\<exists>T'. table_inv T' \<and>
    (case find (\<lambda>a. a \<notin> leased_ips (evicted (rd_entries rd) (leases_of T))) (pool config) of
       Some a \<Rightarrow> leases_of T' = (evicted (rd_entries rd) (leases_of T))(client \<mapsto> new_lease rd a) \<and>
         (\<exists>frame. handle_dhcp_discover E rd config dhcp client T = Inr ([frame], T') \<and>
            carries E config (get_dest_mac_ip (msg_broadcast dhcp) client a)
              (reply_message E Offer dhcp a config) frame)
     | None \<Rightarrow> leases_of T' = evicted (rd_entries rd) (leases_of T) \<and>
         handle_dhcp_discover E rd config dhcp client T = Inr ([], T'))"
proof -
  let ?find = "find (\<lambda>a. a \<notin> leased_ips (evicted (rd_entries rd) (leases_of T))) (pool config)"
  let ?n = "next_available_ip (rd_entries rd) (cfg_net config) (cfg_server_ip config) T"
  have fresh: "fst ?n = ?find"
    using assms(3) by (simp add: lt.fresh_eq pool_def find_filter)
  have U: "table_inv (snd ?n)" "leases_of (snd ?n) = evicted (rd_entries rd) (leases_of T)"
    using assms(3) by (simp_all add: lt.inv_fresh lt.leases_fresh)
  have get: "lease_table_get T client = None"
    using assms(4) by (simp add: lease_table_get_def leases_of_def)
  obtain x V where n: "?n = (x, V)" by (cases ?n)
  show ?thesis
  proof (cases x)
    case None
    with get n fresh U show ?thesis
      by (intro exI [of _ V]) (simp add: handle_dhcp_discover_def flip: fresh)
  next
    case (Some a)
    have "sendable E (reply_message E Offer dhcp a config)"
      using assms(2) by (simp add: replies_sendable_def)
    from send_reply_ok [OF assms(1) this, of client] obtain frame where
      "send_reply E config Offer dhcp client a = Inr [frame]"
      "carries E config (get_dest_mac_ip (msg_broadcast dhcp) client a)
         (reply_message E Offer dhcp a config) frame" by blast
    with Some get n U show ?thesis
      by (intro exI [of _ "lease_table_insert client (new_lease rd a) V"])
        (simp add: handle_dhcp_discover_def lt.inv_put lt.leases_put flip: fresh)
  qed
qed

text \<open>The answer to a client that is offered an address.\<close>

definition offered :: "libs \<Rightarrow> server_config \<Rightarrow> mac \<Rightarrow> ipv4 \<Rightarrow> bytes list \<Rightarrow> bool" where
  "offered E config client a out \<longleftrightarrow> (\<exists>frame dhcp. out = [frame] \<and>
     carries E config (get_dest_mac_ip (msg_broadcast dhcp) client a) (reply_message E Offer dhcp a config) frame)"

text \<open>What the \<open>i\<close>-th client of the sequence gets.\<close>

definition answered :: "libs \<Rightarrow> server_config \<Rightarrow> mac \<Rightarrow> nat \<Rightarrow> bytes list \<Rightarrow> bool" where
  "answered E config client i out \<longleftrightarrow>
     (if i < length (pool config) then offered E config client (pool config ! i) out else out = [])"

lemma in_order_dom: "in_order cs as m = Some l \<Longrightarrow> \<exists>rd. (rd, m) \<in> set cs \<and> lease_expiry l = rd_stamp rd + lease_time"
  by (auto simp: in_order_def set_zip new_lease_time dest!: map_of_SomeD)
    (metis nth_mem prod.collapse)

lemma leased_ips_in_order:
  assumes "distinct (map snd cs)"
  shows "leased_ips (in_order cs as) = set (take (length cs) as)"
  using assms
proof (induction cs rule: rev_induct)
  case (snoc c cs)
  have "snd c \<notin> dom (in_order cs as)"
    using snoc.prems by (auto dest!: in_order_dom simp: rev_image_eqI)
  with snoc show ?case
    by (auto simp: in_order_snoc leased_ips_def ran_map_upd domIff new_lease_time take_Suc_conv_app_nth)
qed (simp add: in_order_def leased_ips_def)

lemma evicted_in_order:
  assumes "\<And>rd m. rd \<in> fst ` set cs \<Longrightarrow> clk m < rd_stamp rd + lease_time"
  shows "evicted clk (in_order cs as) = in_order cs as"
  using assms by (fastforce simp: evicted_def fun_eq_iff dest: in_order_dom split: option.splits)

lemma pool_distinct: "net_documented (cfg_net config) \<Longrightarrow> distinct (pool config)"
  by (simp add: pool_def net_documented_def)

definition serving :: "server_state \<Rightarrow> server_config \<Rightarrow> lease_map \<Rightarrow> bool" where
  "serving s config L \<longleftrightarrow> table_inv (sv_leases s) \<and> leases_of (sv_leases s) = L \<and>
     (\<exists>fd buf. sv_phase s = Serving config fd buf \<and> length buf = BUF_LEN)"

lemma discover_answered:
  assumes docs: "pnet_documented (lib_pnet E)" "replies_sendable E config" "net_documented (cfg_net config)"
    and new: "distinct (map snd (cs @ [(rd, client)]))"
    and young: "\<And>rd' m. rd' \<in> fst ` set cs \<Longrightarrow> rd_entries rd m < rd_stamp rd' + lease_time"
    and T: "table_inv T" "leases_of T = in_order cs (pool config)"
  shows "\<exists>out T'. handle_dhcp_discover E rd config dhcp client T = Inr (out, T') \<and> table_inv T' \<and>
    leases_of T' = in_order (cs @ [(rd, client)]) (pool config) \<and> answered E config client (length cs) out"
proof -
  have "in_order cs (pool config) client = None"
    using new by (cases "in_order cs (pool config) client") (auto dest!: in_order_dom simp: rev_image_eqI)
  moreover have "evicted (rd_entries rd) (leases_of T) = in_order cs (pool config)"
    using evicted_in_order [OF young] T(2) by simp
  moreover have "find (\<lambda>a. a \<notin> leased_ips (in_order cs (pool config))) (pool config) =
      (if length cs < length (pool config) then Some (pool config ! length cs) else None)"
    using new by (simp add: leased_ips_in_order find_not_taken pool_distinct docs(3))
  ultimately show ?thesis
    using discover_first [OF docs(1,2) T(1), of client rd dhcp] T(2) new
    by (auto simp: answered_def offered_def in_order_snoc split: if_splits)
qed

lemma discover_served:
  assumes docs: "pnet_documented (lib_pnet E)" "replies_sendable E config" "net_documented (cfg_net config)"
    and new: "distinct (map snd (cs @ [(rd, client)]))"
    and young: "\<And>rd' m. rd' \<in> fst ` set cs \<Longrightarrow> rd_entries rd m < rd_stamp rd' + lease_time"
    and s: "serving s config (in_order cs (pool config))" and frame: "discovers E frame client"
  shows "\<exists>out s'. server_step E net (Received rd frame) s = Inr (out, s') \<and>
    serving s' config (in_order (cs @ [(rd, client)]) (pool config)) \<and> answered E config client (length cs) out"
proof -
  from s obtain fd buf where ph: "sv_phase s = Serving config fd buf" "length buf = BUF_LEN"
    and T: "table_inv (sv_leases s)" "leases_of (sv_leases s) = in_order cs (pool config)"
    by (auto simp: serving_def)
  let ?n = "min (length frame) (length buf)"
  obtain dhcp where p: "process_incoming_packet E rd config ?n (take ?n frame @ drop ?n buf) (sv_leases s) =
      handle_dhcp_discover E rd config dhcp client (sv_leases s)"
    using discovers_process [OF frame ph(2) refl refl] by blast
  obtain out T' where h: "handle_dhcp_discover E rd config dhcp client (sv_leases s) = Inr (out, T')"
    and T': "table_inv T'" "leases_of T' = in_order (cs @ [(rd, client)]) (pool config)"
    and a: "answered E config client (length cs) out"
    using discover_answered [OF docs new young T] by blast
  have "server_step E net (Received rd frame) s =
      Inr (out, s\<lparr>sv_phase := Serving config fd (take ?n frame @ drop ?n buf), sv_leases := T'\<rparr>)"
    using ph(1) p h by (simp add: Let_def)
  with T' a ph(2) show ?thesis by (auto simp: serving_def)
qed

section \<open>The whole sequence\<close>

text \<open>The frames of the list, each with its readings and its sender, and the clients they come from.\<close>

type_synonym discovery = "readings \<times> bytes \<times> mac"

definition received :: "discovery list \<Rightarrow> server_event list" where
  "received ds = map (\<lambda>(rd, frame, client). Received rd frame) ds"

definition askers :: "discovery list \<Rightarrow> (readings \<times> mac) list" where
  "askers ds = map (\<lambda>(rd, frame, client). (rd, client)) ds"

text \<open>First DISCOVERs of different clients, all handled within one lease time.\<close>

definition first_discovers :: "libs \<Rightarrow> discovery list \<Rightarrow> bool" where
  "first_discovers E ds \<longleftrightarrow> distinct (map snd (askers ds)) \<and>
     (\<forall>(rd, frame, client) \<in> set ds. discovers E frame client) \<and>
     (\<forall>rd \<in> fst ` set (askers ds). \<forall>rd' \<in> fst ` set (askers ds). \<forall>m.
        rd_entries rd m < rd_stamp rd' + lease_time)"

lemma sequence_simps:
  "received [] = []" "askers [] = []"
  "received (ds @ [(rd, frame, client)]) = received ds @ [Received rd frame]"
  "askers (ds @ [(rd, frame, client)]) = askers ds @ [(rd, client)]"
  "length (askers ds) = length ds"
  by (simp_all add: received_def askers_def)

lemma pool_run:
  assumes docs: "pnet_documented (lib_pnet E)" "replies_sendable E config" "net_documented (cfg_net config)"
    and s: "serving s config Map.empty"
  shows "first_discovers E ds \<Longrightarrow> \<exists>outs s'. server_run E net (received ds) s = Inr (outs, s') \<and>
    serving s' config (in_order (askers ds) (pool config)) \<and>
    list_all2 (\<lambda>(i, client). answered E config client i) (enumerate 0 (map snd (askers ds))) outs"
proof (induction ds rule: rev_induct)
  case Nil
  with s show ?case by (simp add: sequence_simps in_order_def)
next
  case (snoc d ds)
  obtain rd frame client where d: "d = (rd, frame, client)" by (cases d)
  from snoc.prems have first: "first_discovers E ds" and frame: "discovers E frame client"
    and new: "distinct (map snd (askers ds @ [(rd, client)]))"
    and young: "\<And>rd' m. rd' \<in> fst ` set (askers ds) \<Longrightarrow> rd_entries rd m < rd_stamp rd' + lease_time"
    by (auto simp: first_discovers_def d sequence_simps)
  from snoc.IH [OF first] obtain outs s1 where run: "server_run E net (received ds) s = Inr (outs, s1)"
    and s1: "serving s1 config (in_order (askers ds) (pool config))"
    and outs: "list_all2 (\<lambda>(i, client). answered E config client i) (enumerate 0 (map snd (askers ds))) outs"
    by blast
  from discover_served [OF docs new young s1 frame] obtain out s2 where
    "server_step E net (Received rd frame) s1 = Inr (out, s2)"
    "serving s2 config (in_order (askers ds @ [(rd, client)]) (pool config))"
    "answered E config client (length (askers ds)) out" by blast
  with server_run_snoc [OF run] outs show ?case
    by (auto simp: d sequence_simps enumerate_append_eq intro!: list_all2_appendI)
qed

text \<open>C16: The address pool is handed out in order and to the last address. When clients that the
  server does not know send their first DISCOVERs, one after the other and within one lease time
  of each other, to a server that serves and holds no lease, none of them stops the server, and
  the i-th client gets exactly one OFFER frame, of the i-th host of the subnet that is not the
  server's own address, as long as there is one; every later client gets no answer at all. After
  them the table holds exactly those leases, each for an hour from its DISCOVER.\<close>

theorem pool_is_allocated_in_order:
  assumes "server_reachable E net s t" and "sv_phase s = Serving config fd buf"
    and "leases_of (sv_leases s) = Map.empty"
    and "net_documented net" and "pnet_documented (lib_pnet E)" and "replies_sendable E config"
    and "first_discovers E ds"
  shows "\<exists>outs s'. server_run E net (received ds) s = Inr (outs, s') \<and> length outs = length ds \<and>
    (\<forall>i < length ds. answered E config (snd (askers ds ! i)) i (outs ! i)) \<and>
    leases_of (sv_leases s') = in_order (askers ds) (pool config)"
proof -
  have net: "net_documented (cfg_net config)" and "serving s config Map.empty"
    using server_reachable_phase [OF assms(1)] server_reachable_inv [OF assms(1)] assms(2-4)
    by (auto simp: phase_ok_def serving_def)
  from pool_run [OF assms(5,6) this assms(7)] obtain outs s' where
    "server_run E net (received ds) s = Inr (outs, s')"
    "serving s' config (in_order (askers ds) (pool config))"
    "list_all2 (\<lambda>(i, client). answered E config client i) (enumerate 0 (map snd (askers ds))) outs" by blast
  then show ?thesis
    by (auto simp: serving_def list_all2_conv_all_nth nth_enumerate_eq sequence_simps intro!: exI [of _ outs] exI [of _ s'])
qed

text \<open>A network with one free address and two clients.\<close>

definition pool_libs :: libs where
  "pool_libs = \<lparr>lib_pnet = pnet_wire,
     lib_dhcproto = scripted_dhcproto (\<lambda>x. sample_message Discover (if x = 1 then client_a else client_b) 0)\<rparr>"

lemma pool_discovers:
  "discovers pool_libs (sample_frame client_a 1) client_a"
  "discovers pool_libs (sample_frame client_b 2) client_b"
proof -
  have "eth_min pnet_wire = 14" by (simp add: pnet_wire_def)
  then show "discovers pool_libs (sample_frame client_a 1) client_a"
    "discovers pool_libs (sample_frame client_b 2) client_b"
    by (auto simp: discovers_def pool_libs_def SERVER_PORT_def sample_frame_parses sample_frame_source)
qed

definition pool_sequence :: "discovery list" where
  "pool_sequence = [(readings_at 7, sample_frame client_a 1, client_a),
                    (readings_at 8, sample_frame client_b 2, client_b)]"

lemma pool_sequence_ok: "first_discovers pool_libs pool_sequence"
  using pool_discovers by (auto simp: first_discovers_def pool_sequence_def askers_def lease_time_def from_secs_def)

lemma pool_libs_ok:
  "pnet_documented (lib_pnet pool_libs)" "replies_sendable pool_libs config" "pool sample_config = [2]"
  by (simp_all add: pool_libs_def pnet_wire_documented replies_sendable_def sendable_def scripted_dhcproto_def
      pool_def sample_config_def sample_net_def)

theorem pool_is_allocated_in_order_witness:
  "\<exists>s outs s'. server_reachable pool_libs sample_net s 0 \<and>
     server_run pool_libs sample_net (received pool_sequence) s = Inr (outs, s') \<and>
     (\<exists>out. outs = [out, []] \<and> offered pool_libs sample_config client_a 2 out) \<and>
     leases_of (sv_leases s') = [client_a \<mapsto> new_lease (readings_at 7) 2]"
proof -
  let ?s = "\<lparr>sv_phase = Serving sample_config 5 (replicate BUF_LEN 0),
     sv_leases = lease_table_new, sv_open_fds = {5}\<rparr>"
  have "server_step pool_libs sample_net (Setup (Inr (MacAddr 2 0 0 0 0 9)) (Inr 5) (Inr ()))
      \<lparr>sv_phase = SettingUp, sv_leases = lease_table_new, sv_open_fds = {}\<rparr> = Inr ([], ?s)"
    by (simp add: setup_server_socket_def sample_config_def sample_net_def)
  from server_reachable.step [OF server_reachable.start _ _ this, of 0 0]
  have r: "server_reachable pool_libs sample_net ?s 0" by simp
  have empty: "leases_of (sv_leases ?s) = Map.empty" by (simp add: fun_eq_iff)
  from pool_is_allocated_in_order [OF r _ empty sample_net_documented pool_libs_ok(1,2) pool_sequence_ok]
  obtain outs s' where run: "server_run pool_libs sample_net (received pool_sequence) ?s = Inr (outs, s')"
    and outs: "length outs = 2" "answered pool_libs sample_config client_a 0 (outs ! 0)"
      "answered pool_libs sample_config client_b 1 (outs ! 1)"
    and L: "leases_of (sv_leases s') = in_order (askers pool_sequence) (pool sample_config)"
    by (auto simp: pool_sequence_def askers_def less_Suc_eq numeral_2_eq_2)
  from outs have "\<exists>out. outs = [out, []] \<and> offered pool_libs sample_config client_a 2 out"
    by (auto simp: answered_def pool_libs_ok(3) length_Suc_conv numeral_2_eq_2)
  with r run L show ?thesis
    by (intro exI [of _ ?s]) (auto simp: in_order_def pool_sequence_def askers_def pool_libs_ok(3))
qed

end
