(* ===== verification/Dns_Freshness.thy ===== *)
theory Dns_Freshness
  imports Dns_Tasks
begin

text \<open>
  How old the forwarder's answers can be. A run of \<open>Dns_Tasks\<close> accounts for every cache entry by
  the piece of a query task that stored it, with the clock it read and the lifetime of the reply,
  so an answer from the cache is never older than its time to live allows.
\<close>

section \<open>Where a cache entry comes from\<close>

text \<open>How long a reply may be served: the least time to live in it, at most an hour.\<close>

definition lifetime :: "dns_packet \<Rightarrow> duration" where
  "lifetime p = from_secs (unat (min 3600 (response_ttl p)))"

text \<open>An entry stored by a task that woke up with a reply.\<close>

definition stored_by :: "dns_parser \<Rightarrow> dns_event \<Rightarrow> cache_entry \<Rightarrow> bool" where
  "stored_by parse ev e \<longleftrightarrow> (\<exists>t now p. ev = EvWake t now \<and> parse (response e) = Some p \<and>
     response_ttl p \<noteq> 0 \<and> expiry e = now + lifetime p)"

lemma lookup_cache_get:
  "hm_ok c \<Longrightarrow> hm_get (snd (lookup_cache now k c)) k' = Some e \<Longrightarrow> hm_get c k' = Some e"
  by (auto simp: lookup_get hm.get_remove split: option.splits if_splits)

lemma insert_cache_stored:
  assumes "hm_ok c" and "hm_get (insert_cache parse now k r c) k' = Some e"
  shows "hm_get c k' = Some e \<or> stored_by parse (EvWake t now) e"
  using assms by (auto simp: insert_cache_get stored_by_def lifetime_def split: option.splits if_splits)

lemma lookup_step_cache:
  assumes "hm_ok (ds_cache s)" and "hm_get (ds_cache (snd (lookup_step parse t task now s))) k = Some e"
  shows "hm_get (ds_cache s) k = Some e"
proof (cases "get_cache_key parse (dt_query task)")
  case None
  with assms(2) show ?thesis by (simp add: lookup_step_def Let_def split: if_splits)
next
  case (Some key)
  obtain res c where l: "lookup_cache now key (ds_cache s) = (res, c)"
    by (cases "lookup_cache now key (ds_cache s)")
  have "ds_cache (snd (lookup_step parse t task now s)) \<in> {ds_cache s, c}"
    using Some l by (cases res) (simp_all add: lookup_step_def set_phase_def Let_def split: sum.split)
  with assms lookup_cache_get [of "ds_cache s" now key k e] l show ?thesis by auto
qed

lemma dns_step_cache:
  assumes ok: "hm_ok (ds_cache s)" and e: "hm_get (ds_cache (snd (dns_step parse ev s))) k = Some e"
  shows "hm_get (ds_cache s) k = Some e \<or> stored_by parse ev e"
proof (cases "event_task ev")
  case None
  with ok e show ?thesis
    by (cases ev) (auto simp: dns_step_def reply_step_def Let_def cleanup_cache_def hm.get_retain
        split: option.splits prod.splits if_splits)
next
  case (Some t)
  show ?thesis
  proof (cases "ds_tasks s t")
    case None
    with Some e show ?thesis by (simp add: dns_step_def)
  next
    case (Some task)
    with \<open>event_task ev = Some t\<close> e have
      e': "hm_get (ds_cache (snd (task_step parse ev t task s))) k = Some e" by (simp add: dns_step_def)
    show ?thesis
    proof (cases ev)
      case (EvLookup u now)
      with e' lookup_step_cache [OF ok] show ?thesis
        by (auto simp: task_step_def split: task_phase.splits)
    next
      case (EvWake u now)
      with e' insert_cache_stored [OF ok] show ?thesis
        by (auto simp: task_step_def wake_step_def set_phase_def
            split: task_phase.splits mailbox.splits sum.splits option.splits)
    qed (use e' in \<open>auto simp: task_step_def register_step_def set_phase_def
        split: task_phase.splits mailbox.splits registration.splits sum.splits if_splits\<close>)
  qed
qed

lemma dns_run_cache_ok: "dns_run parse evs s \<Longrightarrow> hm_ok (ds_cache s)"
  using dns_run_inv by (auto simp: dns_inv_def cache_ok_def)

lemma dns_run_stored:
  "dns_run parse evs s \<Longrightarrow> hm_get (ds_cache s) k = Some e \<Longrightarrow> \<exists>ev \<in> set evs. stored_by parse ev e"
proof (induction arbitrary: k e rule: dns_run.induct)
  case start
  then show ?case by (simp add: dns_start_def hm.get_empty)
next
  case (step evs s ev out s')
  with dns_step_cache [OF dns_run_cache_ok [OF step.hyps(1)], of parse ev k e] show ?case by auto
qed

section \<open>Answers from the cache\<close>

text \<open>What the look-up of a live task answers.\<close>

lemma lookup_step_answers:
  assumes "DNS_HEADER_SIZE \<le> length (dt_query task)" and "get_cache_key parse (dt_query task) = Some k"
    and inv: "cache_ok parse E (ds_cache s)"
  shows "fst (lookup_step parse t task now s) =
    (case hm_get (ds_cache s) k of
       Some e \<Rightarrow> if now < expiry e then [Answer (take 2 (dt_query task) @ drop 2 (response e)) (dt_src task)] else []
     | None \<Rightarrow> [])"
proof -
  obtain a b q where q: "dt_query task = a # b # q"
    using assms(1) by (cases "dt_query task"; cases "tl (dt_query task)") (auto simp: DNS_HEADER_SIZE_def)
  have "write_xid a b (response e) = Inr (a # b # drop 2 (response e))"
    if "hm_get (ds_cache s) k = Some e" for e
    using genuine_length [of parse E k "response e"] that inv
    by (intro write_xid_ok) (fastforce simp: cache_ok_def DNS_HEADER_SIZE_def)
  then show ?thesis
    using assms(1,2) by (auto simp: lookup_step_def q lookup_get Let_def split: option.split)
qed

lemma stored_by_fresh:
  "stored_by parse ev e \<Longrightarrow> now < expiry e \<Longrightarrow>
     \<exists>t stored p. ev = EvWake t stored \<and> parse (response e) = Some p \<and> now < stored + lifetime p"
  by (auto simp: stored_by_def)

lemma lifetime_hour: "lifetime p \<le> from_secs 3600"
proof -
  have "min 3600 (response_ttl p) \<le> 3600" by (rule min.cobounded1)
  then have "unat (min 3600 (response_ttl p)) \<le> unat (3600 :: u32)" by (simp only: word_le_nat_alt)
  then show ?thesis by (simp add: lifetime_def from_secs_def)
qed


text \<open>The second query of a client, one second after its first was answered.\<close>

definition sample_repeated :: dns_state where
  "sample_repeated = snd (dns_step sample_parse (EvQuery (sample_query 8 2) sample_src)
     (snd (dns_step sample_parse (EvWake 0 9) sample_replied)))"

lemma sample_repeated_run:
  "dns_run sample_parse (EvQuery (sample_query 8 2) sample_src # EvWake 0 9 #
     EvReply (sample_reply 5 2) FALLBACK_DNS_SERVER # rev (sent_query 0 5 2)) sample_repeated"
  unfolding sample_repeated_def
  by (intro dns_run.step [OF dns_run.step [OF sample_replied_run]]) (rule prod.collapse [symmetric])+


end
