(* ===== verification/Time_Source.thy ===== *)
theory Time_Source
  imports Router Sntp_Client
begin

text \<open>
  The three services that share the WAN lease, run together: the SNTP client of
  \<open>src/services/sntp_client.rs\<close> beside the DHCP client and the DNS forwarder of \<open>Router\<close>. A turn of
  its loop has two atomic parts, the look at the shared lease and, if there is an address, the
  synchronisation that has come to an end; what the other two do in between is free. Its query for the address of the
  time server goes through the forwarder, so where the clock's time comes from can be traced to
  the servers the provider's acknowledgements named.
\<close>

section \<open>The machine\<close>

text \<open>Where the loop of the SNTP client is, with the current retry delay; \<open>SntpPanicked\<close> is the task
  that is gone.\<close>

datatype sntp_phase = SntpChecking duration | SntpSyncing duration | SntpPanicked

record house_state =
  hs_router :: router_state
  hs_sntp :: sntp_phase

datatype 'r house_event =
    Service router_event
  | SntpWakes
  | SntpSynced "'r sntp_env"

datatype house_output =
    ServiceDid router_output
  | ClockSet "nat \<times> nat"
  | SntpSleeps duration

definition house_start :: house_state where
  "house_start = \<lparr>hs_router = router_start, hs_sntp = SntpChecking RETRY_INTERVAL\<rparr>"

definition sntp_wakes :: "wan_lease \<Rightarrow> sntp_phase \<Rightarrow> house_output list \<times> sntp_phase" where
  "sntp_wakes lease ph =
     (case ph of
        SntpChecking delay \<Rightarrow>
          if wl_ip lease = None then ([SntpSleeps (from_secs 5)], SntpChecking RETRY_INTERVAL)
          else ([], SntpSyncing delay)
      | _ \<Rightarrow> ([], ph))"

definition sntp_synced :: "'r sntp_env \<Rightarrow> sntp_phase \<Rightarrow> house_output list \<times> sntp_phase" where
  "sntp_synced env ph =
     (case ph of
        SntpSyncing delay \<Rightarrow>
          (case sync_time env of
             (clock, Inl p) \<Rightarrow> (map ClockSet clock, SntpPanicked)
           | (clock, Inr (Inl e)) \<Rightarrow>
               (map ClockSet clock @ [SntpSleeps delay], SntpChecking (min (delay * 2) MAX_RETRY_INTERVAL))
           | (clock, Inr (Inr t)) \<Rightarrow>
               (map ClockSet clock @ [SntpSleeps SYNC_INTERVAL], SntpChecking RETRY_INTERVAL))
      | _ \<Rightarrow> ([], ph))"

definition house_step ::
  "client_config \<Rightarrow> dns_parser \<Rightarrow> 'r house_event \<Rightarrow> house_state \<Rightarrow> house_output list \<times> house_state" where
  "house_step c parse ev s =
     (case ev of
        Service e \<Rightarrow>
          (let (outs, router) = router_step c parse e (hs_router s)
           in (map ServiceDid outs, s\<lparr>hs_router := router\<rparr>))
      | SntpWakes \<Rightarrow>
          (let (outs, ph) = sntp_wakes (cs_lease (rt_client (hs_router s))) (hs_sntp s)
           in (outs, s\<lparr>hs_sntp := ph\<rparr>))
      | SntpSynced env \<Rightarrow>
          (let (outs, ph) = sntp_synced env (hs_sntp s) in (outs, s\<lparr>hs_sntp := ph\<rparr>)))"

lemma house_step_simps [simp]:
  "house_step c parse (Service e) s = (map ServiceDid (fst (router_step c parse e (hs_router s))),
     s\<lparr>hs_router := snd (router_step c parse e (hs_router s))\<rparr>)"
  "house_step c parse SntpWakes s = (fst (sntp_wakes (cs_lease (rt_client (hs_router s))) (hs_sntp s)),
     s\<lparr>hs_sntp := snd (sntp_wakes (cs_lease (rt_client (hs_router s))) (hs_sntp s))\<rparr>)"
  "house_step c parse (SntpSynced env) s = (fst (sntp_synced env (hs_sntp s)),
     s\<lparr>hs_sntp := snd (sntp_synced env (hs_sntp s))\<rparr>)"
  by (simp_all add: house_step_def case_prod_beta)

text \<open>The two parts make one pass of the client's loop.\<close>

lemma sntp_parts_make_pass:
  assumes "sntp_wakes lease (SntpChecking delay) = (outs, ph)" and "sntp_synced env ph = (outs', ph')"
  shows "case sntp_pass lease env delay of
      Inl p \<Rightarrow> wl_ip lease \<noteq> None \<and> ph' = SntpPanicked
    | Inr (queries, clock, slept, delay') \<Rightarrow>
        outs @ outs' = map ClockSet clock @ [SntpSleeps slept] \<and> ph' = SntpChecking delay'"
  using assms
  by (auto simp: sntp_pass_def sntp_wakes_def sntp_synced_def sntp_turn_def Let_def
      split: prod.splits sum.splits)

section \<open>Runs\<close>

fun service_events :: "'r house_event list \<Rightarrow> router_event list" where
  "service_events [] = []"
| "service_events (Service e # evs) = e # service_events evs"
| "service_events (_ # evs) = service_events evs"

lemma service_events_append [simp]:
  "service_events (evs @ evs') = service_events evs @ service_events evs'"
  by (induction evs rule: service_events.induct) simp_all

lemma service_events_iff: "e \<in> set (service_events evs) \<longleftrightarrow> Service e \<in> set evs"
  by (induction evs rule: service_events.induct) auto

lemma house_router:
  "hs_router (run_events (house_step c parse) evs s) =
     run_events (router_step c parse) (service_events evs) (hs_router s)"
  by (induction evs arbitrary: s rule: service_events.induct) (simp_all)

text \<open>The SNTP client leaves its loop for a synchronisation only over the lease of an
  acknowledgement that has come.\<close>

definition sntp_has_lease :: "client_config \<Rightarrow> client_event list \<Rightarrow> sntp_phase \<Rightarrow> bool" where
  "sntp_has_lease c es ph \<longleftrightarrow> (\<forall>delay. ph = SntpSyncing delay \<longrightarrow> (\<exists>d. ack_received c es d))"

lemma client_events_append [simp]: "client_events (evs @ evs') = client_events evs @ client_events evs'"
  by (induction evs rule: client_events.induct) simp_all

lemma house_sntp_has_lease:
  "sntp_has_lease c (client_events (service_events evs))
     (hs_sntp (run_events (house_step c parse) evs house_start))"
proof (induction evs rule: rev_induct)
  case Nil
  show ?case by (simp add: sntp_has_lease_def house_start_def)
next
  case (snoc ev evs)
  let ?s = "run_events (house_step c parse) evs house_start"
  show ?case
  proof (cases ev)
    case (Service e)
    with snoc show ?thesis
      using ack_received_append by (fastforce simp: sntp_has_lease_def)
  next
    case SntpWakes
    have "lease_origin c (client_events (service_events evs)) (cs_lease (rt_client (hs_router ?s)))"
      using client_run_lease [of c "client_events (service_events evs)"]
      by (simp add: house_router router_client house_start_def router_start_def)
    with SntpWakes snoc show ?thesis
      by (auto simp: sntp_has_lease_def sntp_wakes_def lease_origin_def wan_lease_default_def
          split: sntp_phase.splits)
  next
    case (SntpSynced env)
    with snoc show ?thesis
      by (auto simp: sntp_has_lease_def sntp_synced_def
          split: sntp_phase.splits prod.splits sum.splits)
  qed
qed

section \<open>What the services did\<close>

definition house_did :: "client_config \<Rightarrow> dns_parser \<Rightarrow> 'r house_event list \<Rightarrow> house_output \<Rightarrow> bool" where
  "house_did c parse evs out \<longleftrightarrow> (\<exists>pre ev post. evs = pre @ ev # post \<and>
     out \<in> set (fst (house_step c parse ev (run_events (house_step c parse) pre house_start))))"

lemma sntp_did_not: "ServiceDid out \<notin> set (fst (sntp_wakes lease ph))" "ServiceDid out \<notin> set (fst (sntp_synced env ph))"
  by (auto simp: sntp_wakes_def sntp_synced_def split: sntp_phase.split prod.split sum.split)

lemma trusted_server_append: "trusted_server c es u \<Longrightarrow> trusted_server c (es @ es') u"
  unfolding trusted_server_def using ack_received_append by blast

text \<open>An answer the forwarder gave is a reply of a trusted server to a query from the same address.\<close>

lemma house_answers:
  assumes "house_did c parse evs (ServiceDid (ForwarderDid (Answer r src)))"
  shows "\<exists>q reply u. Service (ForwarderEvent (EvQuery q src)) \<in> set evs \<and>
    Service (ForwarderEvent (EvReply reply u)) \<in> set evs \<and>
    trusted_server c (client_events (service_events evs)) u \<and> r = take 2 q @ drop 2 (take 4096 reply)"
proof -
  from assms obtain pre ev post where evs: "evs = pre @ ev # post"
    and out: "ServiceDid (ForwarderDid (Answer r src)) \<in>
      set (fst (house_step c parse ev (run_events (house_step c parse) pre house_start)))"
    unfolding house_did_def by blast
  then obtain e where e: "ev = Service e" by (cases ev) (simp_all add: sntp_did_not)
  let ?s = "run_events (router_step c parse) (service_events pre) router_start"
  from out e have "ForwarderDid (Answer r src) \<in> set (fst (router_step c parse e ?s))"
    by (auto simp: house_router house_start_def)
  from router_answers [OF refl prod.collapse [symmetric] this] obtain q reply u where
    "ForwarderEvent (EvQuery q src) \<in> set (service_events pre @ [e])"
    "ForwarderEvent (EvReply reply u) \<in> set (service_events pre @ [e])"
    and u: "trusted_server c (client_events (service_events pre)) u" "r = take 2 q @ drop 2 (take 4096 reply)"
    by blast
  then have "Service (ForwarderEvent (EvQuery q src)) \<in> set evs" "Service (ForwarderEvent (EvReply reply u)) \<in> set evs"
    by (auto simp: evs e service_events_iff)
  with trusted_server_append [OF u(1), of "client_events (e # service_events post)"] u(2) show ?thesis
    by (auto simp: evs e simp flip: client_events_append) 
qed

section \<open>Where the time comes from\<close>

text \<open>
  What UDP on the loopback interface documents: a datagram the SNTP client's socket, bound to
  \<open>addr\<close>, receives from port 53 of 127.0.0.1 was sent to it from there, and the forwarder is the
  process that is bound to that port; it is cut to the 512 bytes of the buffer.
\<close>

definition loopback_documented ::
  "client_config \<Rightarrow> dns_parser \<Rightarrow> client_addr \<Rightarrow> 'r house_event list \<Rightarrow> 'r sntp_env \<Rightarrow> bool" where
  "loopback_documented c parse addr evs env \<longleftrightarrow>
     (\<forall>buf. re_recv (se_resolve env) = Some (Inr (buf, dns_server)) \<longrightarrow>
        (\<exists>r. house_did c parse evs (ServiceDid (ForwarderDid (Answer r addr))) \<and> take 512 buf = take 512 r))"

text \<open>C7: The clock is set only along a chain of trust. In every interleaving of the three services
  that share the WAN lease, if the SNTP client sets the clock then an ACK had come for a request of the
  router's own; the NTP server it asked was named by the first A record of a reply, with the transaction
  id of its own query, that came from the fallback or from the first DNS server of such an ACK to a query the
  forwarder got from the client's own socket; and the clock is set to exactly the instant that
  server's answer stands for.\<close>

theorem clock_set_along_trusted_chain:
  assumes "s = run_events (house_step c parse) evs house_start"
    and "ClockSet (secs, nanos) \<in> set (fst (house_step c parse ev s))"
    and "\<And>env. ev = SntpSynced env \<Longrightarrow> loopback_documented c parse addr evs env"
  shows "\<exists>env d q reply u packet a r. ev = SntpSynced env
    \<and> ack_received c (client_events (service_events evs)) d
    \<and> Service (ForwarderEvent (EvQuery q addr)) \<in> set evs
    \<and> Service (ForwarderEvent (EvReply reply u)) \<in> set evs
    \<and> trusted_server c (client_events (service_events evs)) u
    \<and> re_parse (se_resolve env) (take 512 (take 2 q @ drop 2 (take 4096 reply))) = Inr packet
    \<and> reply_id packet = re_query_id (se_resolve env)
    \<and> first_a_record (reply_answers packet) = Some a
    \<and> se_synchronize env (a, 123) = Inr r
    \<and> se_datetime env r = Inr (int secs * 1000000000 + int nanos) \<and> nanos < 1000000000"
proof -
  from assms(2) obtain env where ev: "ev = SntpSynced env"
    and set: "ClockSet (secs, nanos) \<in> set (fst (sntp_synced env (hs_sntp s)))"
    by (cases ev) (auto simp: sntp_wakes_def split: sntp_phase.splits if_splits)
  then obtain delay where ph: "hs_sntp s = SntpSyncing delay"
    and clock: "(secs, nanos) \<in> set (fst (sync_time env))"
    by (auto simp: sntp_synced_def split: sntp_phase.splits prod.splits sum.splits)
  obtain d where d: "ack_received c (client_events (service_events evs)) d"
    using house_sntp_has_lease [of c evs parse] ph by (auto simp: assms(1) sntp_has_lease_def)
  from sync_time_clock [OF clock] obtain a r where a: "snd (resolve_dns_a_record (se_resolve env) ''pool.ntp.org'') = Inr a"
    and r: "se_synchronize env (a, 123) = Inr r" "se_datetime env r = Inr (int secs * 1000000000 + int nanos)"
      "nanos < 1000000000" by blast
  from a [unfolded resolve_dns_a_record_ok] obtain buf packet where
    buf: "re_recv (se_resolve env) = Some (Inr (buf, dns_server))"
    and packet: "re_parse (se_resolve env) (take 512 buf) = Inr packet"
      "reply_id packet = re_query_id (se_resolve env)" "first_a_record (reply_answers packet) = Some a" by blast
  from assms(3) [OF ev] buf obtain answer where
    "house_did c parse evs (ServiceDid (ForwarderDid (Answer answer addr)))" "take 512 buf = take 512 answer"
    unfolding loopback_documented_def by blast
  with house_answers [OF this(1)] ev d r packet show ?thesis by metis
qed

text \<open>The SNTP client's query is answered through the forwarder once the DHCP client is bound.\<close>

definition trusted_sntp :: "int sntp_env" where
  "trusted_sntp = sample_sntp\<lparr>se_resolve := sample_resolve\<lparr>re_recv := Some (Inr (sample_reply 7 2, dns_server))\<rparr>\<rparr>"

definition sample_house_run :: "int house_event list" where
  "sample_house_run = map Service sample_router_run @ [Service (ForwarderEvent (EvWake 0 9)), SntpWakes]"

lemma service_events_map [simp]: "service_events (map Service es) = es"
  by (induction es) simp_all

lemma sample_router_events: "client_events sample_router_run = sample_client_run"
  by (simp add: sample_router_run_def del: client_events_append)

lemma sample_house_synced:
  "hs_sntp (run_events (house_step sample_client sample_parse) sample_house_run house_start) =
     SntpSyncing RETRY_INTERVAL"
proof -
  have idle: "hs_sntp (run_events (house_step c parse) (map Service es) s) = hs_sntp s" for c parse es s
    by (induction es arbitrary: s) simp_all
  let ?evs = "map Service sample_router_run @ [Service (ForwarderEvent (EvWake 0 9))] :: int house_event list"
  have "client_events (service_events ?evs) = sample_client_run"
    by (simp add: sample_router_events)
  then have "rt_client (hs_router (run_events (house_step sample_client sample_parse) ?evs house_start)) = sample_bound"
    unfolding house_router router_client
    by (simp add: house_start_def router_start_def sample_client_run_bound del: run_events_simps(3))
  moreover have "wl_ip (cs_lease sample_bound) \<noteq> None"
    by (simp add: sample_bound_lease lease_of_ack_def)
  ultimately show ?thesis
    by (simp add: sample_house_run_def idle sntp_wakes_def house_start_def)
qed

theorem clock_set_along_trusted_chain_witness:
  "\<exists>u reply. ClockSet (1700000000, 5) \<in> set (fst (house_step sample_client sample_parse (SntpSynced trusted_sntp)
       (run_events (house_step sample_client sample_parse) sample_house_run house_start))) \<and>
     Service (ForwarderEvent (EvReply reply u)) \<in> set sample_house_run \<and>
     trusted_server sample_client sample_client_run u"
proof -
  let ?s = "run_events (house_step sample_client sample_parse) sample_house_run house_start"
  have "sync_time trusted_sntp = ([(1700000000, 5)], Inr (Inr 1700000000000000005))"
    by (simp add: sync_time_def trusted_sntp_def sample_sntp_def resolve_dns_a_record_def read_answer_def
        sample_resolve_def timespec_of_def)
  then have set: "ClockSet (1700000000, 5) \<in>
      set (fst (house_step sample_client sample_parse (SntpSynced trusted_sntp) ?s))"
    by (simp add: sample_house_synced sntp_synced_def)
  have did: "house_did sample_client sample_parse sample_house_run
      (ServiceDid (ForwarderDid (Answer (sample_reply 7 2) sample_src)))"
    unfolding house_did_def sample_house_run_def
    using sample_router_wakes
    by (intro exI [of _ "map Service sample_router_run"] exI [of _ "Service (ForwarderEvent (EvWake 0 9))"]
        exI [of _ "[SntpWakes]"]) (simp add: house_router house_start_def)
  have loop: "loopback_documented sample_client sample_parse sample_src sample_house_run env"
    if "SntpSynced trusted_sntp = SntpSynced env" for env
    using that did by (auto simp: loopback_documented_def trusted_sntp_def)
  have "client_events (service_events sample_house_run) = sample_client_run"
    by (simp add: sample_house_run_def sample_router_events)
  with clock_set_along_trusted_chain [OF refl set loop] set show ?thesis by metis
qed

end
