(* ===== verification/System_Ops.thy ===== *)
theory System_Ops
  imports Init
begin

text \<open>
  The trait \<open>SystemOps\<close> of \<open>src/system.rs\<close> and its two implementations: \<open>RealSystem\<close>, which
  forwards to the calls of the crate \<open>nix\<close>, and \<open>MockSystem\<close>, which the unit tests run on. An
  implementation is a record of operations over its state; the functions the sources write for any
  \<open>S: SystemOps\<close> take one. The locale \<open>system_contract\<close> is what they rely on, and both
  implementations are interpretations of it.
\<close>

section \<open>The trait\<close>

datatype wait_pid_flag = WNOHANG | OtherWaitFlag int

text \<open>Errors of the system calls are their texts; the type \<open>MsFlags\<close> is its bits.\<close>

record 's system_ops =
  sys_mount :: "string option \<Rightarrow> string \<Rightarrow> string \<Rightarrow> u32 \<Rightarrow> string option \<Rightarrow> 's \<Rightarrow> (string + unit) \<times> 's"
  sys_reboot :: "reboot_mode \<Rightarrow> 's \<Rightarrow> (string + unit) \<times> 's"
  sys_waitpid :: "int option \<Rightarrow> wait_pid_flag option \<Rightarrow> 's \<Rightarrow> wait_answer \<times> 's"
  sys_read_cmdline :: "'s \<Rightarrow> string + string"
  sys_getpid :: "'s \<Rightarrow> int"

section \<open>RealSystem\<close>

text \<open>The crate \<open>nix\<close>, and reading a file, over the state of the kernel; the id of a process does
  not change.\<close>

record 'k nix_calls =
  nix_mount :: "string option \<Rightarrow> string \<Rightarrow> string option \<Rightarrow> u32 \<Rightarrow> string option \<Rightarrow> 'k \<Rightarrow> (string + unit) \<times> 'k"
  nix_reboot :: "reboot_mode \<Rightarrow> 'k \<Rightarrow> (string + unit) \<times> 'k"
  nix_waitpid :: "int option \<Rightarrow> wait_pid_flag option \<Rightarrow> 'k \<Rightarrow> wait_answer \<times> 'k"
  nix_getpid :: int
  fs_read_to_string :: "string \<Rightarrow> 'k \<Rightarrow> string + string"

definition real_system :: "'k nix_calls \<Rightarrow> 'k system_ops" where
  "real_system K = \<lparr>
     sys_mount = (\<lambda>source target fstype flags dat k.
       if nix_getpid K \<noteq> 1 then (Inr (), k) else nix_mount K source target (Some fstype) flags dat k),
     sys_reboot = (\<lambda>mode k. nix_reboot K mode k),
     sys_waitpid = (\<lambda>pid options k. nix_waitpid K pid options k),
     sys_read_cmdline = (\<lambda>k. fs_read_to_string K ''/proc/cmdline'' k),
     sys_getpid = (\<lambda>k. nix_getpid K)\<rparr>"

section \<open>MockSystem\<close>

type_synonym mount_call = "string option \<times> string \<times> string \<times> u32"

record mock_state =
  mk_pid :: int
  mk_cmdline_content :: string
  mk_mount_calls :: "mount_call list"
  mk_reboot_call :: "reboot_mode option"
  mk_waitpid_results :: "wait_answer list"

definition mock_system_new :: mock_state where
  "mock_system_new = \<lparr>mk_pid = 1, mk_cmdline_content = '''', mk_mount_calls = [],
     mk_reboot_call = None, mk_waitpid_results = []\<rparr>"

definition mock_mount ::
  "string option \<Rightarrow> string \<Rightarrow> string \<Rightarrow> u32 \<Rightarrow> string option \<Rightarrow> mock_state \<Rightarrow> (string + unit) \<times> mock_state" where
  "mock_mount source target fstype flags dat s =
     (Inr (), s\<lparr>mk_mount_calls := mk_mount_calls s @ [(source, target, fstype, flags)]\<rparr>)"

definition mock_reboot :: "reboot_mode \<Rightarrow> mock_state \<Rightarrow> (string + unit) \<times> mock_state" where
  "mock_reboot mode s = (Inr (), s\<lparr>mk_reboot_call := Some mode\<rparr>)"

fun mock_waitpid :: "int option \<Rightarrow> wait_pid_flag option \<Rightarrow> mock_state \<Rightarrow> wait_answer \<times> mock_state" where
  "mock_waitpid pid options s =
     (case mk_waitpid_results s of
        [] \<Rightarrow> (StillAlive, s)
      | r # rs \<Rightarrow> (r, s\<lparr>mk_waitpid_results := rs\<rparr>))"

definition mock_read_cmdline :: "mock_state \<Rightarrow> string + string" where
  "mock_read_cmdline s =
     (if mk_cmdline_content s = '''' then Inl ''No cmdline mock'' else Inr (mk_cmdline_content s))"

definition mock_system :: "mock_state system_ops" where
  "mock_system = \<lparr>sys_mount = mock_mount, sys_reboot = mock_reboot, sys_waitpid = mock_waitpid,
     sys_read_cmdline = mock_read_cmdline, sys_getpid = mk_pid\<rparr>"

section \<open>The functions over any implementation\<close>

fun mount_each :: "'s system_ops \<Rightarrow> (string \<times> string) list \<Rightarrow> 's \<Rightarrow> (string + unit) \<times> 's" where
  "mount_each sys [] s = (Inr (), s)"
| "mount_each sys ((target, fstype) # ms) s =
     (case sys_mount sys None target fstype 0 None s of
        (Inl e, s') \<Rightarrow> (Inl (''Failed to mount '' @ target @ '': '' @ e), s')
      | (Inr _, s') \<Rightarrow> mount_each sys ms s')"

text \<open>\<open>write_modprobe\<close> is the effect of writing the path of the helper below \<open>/proc\<close>, which does not
  go through the trait and whose error is only logged.\<close>

definition mount_filesystems_on :: "'s system_ops \<Rightarrow> ('s \<Rightarrow> 's) \<Rightarrow> 's \<Rightarrow> (string + unit) \<times> 's" where
  "mount_filesystems_on sys write_modprobe s =
     (case mount_each sys virtual_filesystems s of
        (Inl e, s') \<Rightarrow> (Inl e, s')
      | (Inr _, s') \<Rightarrow> (Inr (), write_modprobe s'))"

text \<open>The state after the panic hook's reboot, and whether the hook then sleeps for ever.\<close>

definition panic_hook_on :: "'s system_ops \<Rightarrow> 's \<Rightarrow> 's \<times> bool" where
  "panic_hook_on sys s = (let (res, s') = sys_reboot sys RB_AUTOBOOT s in (s', sys_getpid sys s' = 1))"

definition reap_zombies_on :: "'s system_ops \<Rightarrow> 's \<Rightarrow> (int list \<times> 's) option" where
  "reap_zombies_on sys s = reap_zombies (sys_waitpid sys (Some (-1)) (Some WNOHANG)) s"

definition parse_config_on :: "(string \<Rightarrow> string option) \<Rightarrow> 's system_ops \<Rightarrow> 's \<Rightarrow> router_config" where
  "parse_config_on env_var sys s =
     parse_config env_var (case sys_read_cmdline sys s of Inr text \<Rightarrow> Some text | Inl _ \<Rightarrow> None)"

section \<open>What they rely on\<close>

text \<open>
  \<open>mounts\<close> are the mounts that were attempted, \<open>rebooted\<close> the last reboot that was asked for. As process 1
  an implementation attempts every mount it is asked for, whether it fails or not.
\<close>

locale system_contract =
  fixes sys :: "'s system_ops"
    and mounts :: "'s \<Rightarrow> (string \<times> string) list"
    and rebooted :: "'s \<Rightarrow> reboot_mode option"
  assumes pid_mount: "sys_getpid sys (snd (sys_mount sys source target fstype flags dat s)) = sys_getpid sys s"
    and pid_reboot: "sys_getpid sys (snd (sys_reboot sys mode s)) = sys_getpid sys s"
    and mounts_mount: "sys_getpid sys s = 1 \<Longrightarrow>
      mounts (snd (sys_mount sys source target fstype flags dat s)) = mounts s @ [(target, fstype)]"
    and rebooted_reboot: "rebooted (snd (sys_reboot sys mode s)) = Some mode"
begin

lemma mount_each_in_order:
  "sys_getpid sys s = 1 \<Longrightarrow> mount_each sys ms s = (res, s') \<Longrightarrow>
     sys_getpid sys s' = 1 \<and>
     (case res of
        Inr _ \<Rightarrow> mounts s' = mounts s @ ms
      | Inl e \<Rightarrow> \<exists>before m rest. ms = before @ m # rest \<and> mounts s' = mounts s @ before @ [m])"
proof (induction ms arbitrary: s)
  case (Cons m ms)
  obtain target fstype where m: "m = (target, fstype)" by (cases m)
  obtain r s1 where mount: "sys_mount sys None target fstype 0 None s = (r, s1)"
    by (cases "sys_mount sys None target fstype 0 None s")
  have s1: "sys_getpid sys s1 = 1" "mounts s1 = mounts s @ [m]"
    using pid_mount [of None target fstype 0 None s] mounts_mount [OF Cons.prems(1), of None target fstype 0 None]
      mount Cons.prems(1) by (simp_all add: m)
  show ?case
  proof (cases r)
    case (Inl e)
    with Cons.prems(2) mount m have "res = Inl (''Failed to mount '' @ target @ '': '' @ e)" "s' = s1" by auto
    with s1 show ?thesis by (auto intro!: exI [of _ "[]"])
  next
    case (Inr u)
    with Cons.prems(2) mount m have rest: "mount_each sys ms s1 = (res, s')" by simp
    show ?thesis
    proof (cases res)
      case (Inl e)
      with Cons.IH [OF s1(1) rest] s1(2) obtain before m' after where
        "ms = before @ m' # after" "mounts s' = mounts s @ (m # before) @ [m']" "sys_getpid sys s' = 1" by auto
      with Inl show ?thesis by (auto intro!: exI [of _ "m # before"])
    next
      case (Inr u)
      with Cons.IH [OF s1(1) rest] s1(2) show ?thesis by simp
    qed
  qed
qed auto

lemma panic_asks_for_reboot:
  "panic_hook_on sys s = (s', sleeps) \<Longrightarrow> rebooted s' = Some RB_AUTOBOOT \<and> (sleeps \<longleftrightarrow> sys_getpid sys s = 1)"
  using rebooted_reboot [of RB_AUTOBOOT s] pid_reboot [of RB_AUTOBOOT s]
  by (auto simp: panic_hook_on_def split: prod.splits)

end

text \<open>\<open>RealSystem\<close> over a kernel whose mounts and reboots are written down.\<close>

definition traced :: "'k nix_calls \<Rightarrow> ('k \<times> init_action list) nix_calls" where
  "traced K = \<lparr>
     nix_mount = (\<lambda>source target fstype flags dat (k, acts).
       map_prod id (\<lambda>k'. (k', acts @ [Mount target (case fstype of Some f \<Rightarrow> f | None \<Rightarrow> '''')]))
         (nix_mount K source target fstype flags dat k)),
     nix_reboot = (\<lambda>mode (k, acts). map_prod id (\<lambda>k'. (k', acts @ [Reboot mode])) (nix_reboot K mode k)),
     nix_waitpid = (\<lambda>pid options (k, acts). map_prod id (\<lambda>k'. (k', acts)) (nix_waitpid K pid options k)),
     nix_getpid = nix_getpid K,
     fs_read_to_string = (\<lambda>path (k, acts). fs_read_to_string K path k)\<rparr>"

definition action_mounts :: "init_action list \<Rightarrow> (string \<times> string) list" where
  "action_mounts acts =
     List.map_filter (\<lambda>a. case a of Mount target fstype \<Rightarrow> Some (target, fstype) | _ \<Rightarrow> None) acts"

fun last_reboot :: "init_action list \<Rightarrow> reboot_mode option" where
  "last_reboot [] = None"
| "last_reboot (a # acts) =
     (case last_reboot acts of
        Some mode \<Rightarrow> Some mode
      | None \<Rightarrow> (case a of Reboot mode \<Rightarrow> Some mode | _ \<Rightarrow> None))"

lemma last_reboot_snoc [simp]: "last_reboot (acts @ [Reboot mode]) = Some mode"
  by (induction acts) simp_all

lemma action_mounts_simps [simp]:
  "action_mounts [] = []"
  "action_mounts (acts @ acts') = action_mounts acts @ action_mounts acts'"
  "action_mounts [Mount target fstype] = [(target, fstype)]"
  "action_mounts [SetModprobePath] = []"
  by (simp_all add: action_mounts_def List.map_filter_def)

interpretation os: system_contract "real_system (traced K)" "action_mounts \<circ> snd" "last_reboot \<circ> snd" for K
  by unfold_locales (simp_all add: real_system_def traced_def split_def)

definition mock_mounts :: "mock_state \<Rightarrow> (string \<times> string) list" where
  "mock_mounts s = map (\<lambda>(source, target, fstype, flags). (target, fstype)) (mk_mount_calls s)"

interpretation mock: system_contract mock_system mock_mounts mk_reboot_call
  by unfold_locales (simp_all add: mock_system_def mock_mount_def mock_reboot_def mock_mounts_def)

section \<open>The real system does what the boot sequence says\<close>

text \<open>The kernel answers as the environment of the boot sequence, \<open>init_env\<close>, says.\<close>

definition answers_as :: "'k nix_calls \<Rightarrow> init_env \<Rightarrow> bool" where
  "answers_as K env \<longleftrightarrow> nix_getpid K = ie_pid env \<and>
     (\<forall>source target fstype flags dat k. fst (nix_mount K source target fstype flags dat k) =
        (case ie_mount env target of Some e \<Rightarrow> Inl e | None \<Rightarrow> Inr ()))"

definition modprobe_written :: "('k \<Rightarrow> 'k) \<Rightarrow> 'k \<times> init_action list \<Rightarrow> 'k \<times> init_action list" where
  "modprobe_written write_file = (\<lambda>(k, acts). (write_file k, acts @ [SetModprobePath]))"

lemma traced_mount:
  assumes "answers_as K env"
  shows "\<exists>k'. sys_mount (real_system (traced K)) None target fstype 0 None (k, acts) =
    (case snd (real_mount env target fstype) of Some e \<Rightarrow> Inl e | None \<Rightarrow> Inr (),
     (k', acts @ fst (real_mount env target fstype)))"
proof -
  obtain r k' where m: "nix_mount K None target (Some fstype) 0 None k = (r, k')"
    by (cases "nix_mount K None target (Some fstype) 0 None k")
  from assms have "fst (nix_mount K None target (Some fstype) 0 None k) =
      (case ie_mount env target of Some e \<Rightarrow> Inl e | None \<Rightarrow> Inr ())" by (simp add: answers_as_def)
  with m assms show ?thesis
    by (cases "ie_pid env = 1") (simp_all add: answers_as_def real_system_def traced_def real_mount_def)
qed

lemma traced_mount_each:
  assumes "answers_as K env"
  shows "\<exists>k'. mount_each (real_system (traced K)) ms (k, acts) =
    (snd (mount_all env ms), (k', acts @ fst (mount_all env ms)))"
proof (induction ms arbitrary: k acts)
  case (Cons m ms)
  obtain target fstype where m: "m = (target, fstype)" by (cases m)
  obtain as e where rm: "real_mount env target fstype = (as, e)" by (cases "real_mount env target fstype")
  obtain k1 where s1: "sys_mount (real_system (traced K)) None target fstype 0 None (k, acts) =
      (case e of Some e \<Rightarrow> Inl e | None \<Rightarrow> Inr (), (k1, acts @ as))"
    using traced_mount [OF assms, of target fstype k acts] rm by auto
  show ?case
    using Cons.IH [of k1 "acts @ as"]
    by (cases e) (auto simp: m rm s1 split: prod.split)
qed simp

lemma traced_filesystems:
  assumes "answers_as K env"
  shows "\<exists>k'. mount_filesystems_on (real_system (traced K)) (modprobe_written write_file) (k, acts) =
    (snd (mount_virtual_filesystems env), (k', acts @ fst (mount_virtual_filesystems env)))"
  using traced_mount_each [OF assms, of virtual_filesystems k acts]
  by (auto simp: mount_filesystems_on_def mount_virtual_filesystems_def modprobe_written_def
      split: prod.split sum.split)

lemma traced_panic:
  assumes "answers_as K env"
  shows "\<exists>k'. panic_hook_on (real_system (traced K)) (k, acts) =
    ((k', acts @ [Reboot RB_AUTOBOOT]), SleepForever \<in> set (panic_hook env))"
proof -
  obtain r k' where "nix_reboot K RB_AUTOBOOT k = (r, k')" by (cases "nix_reboot K RB_AUTOBOOT k")
  with assms show ?thesis
    by (simp add: panic_hook_on_def panic_hook_def answers_as_def real_system_def traced_def)
qed

section \<open>What the unit tests see\<close>

text \<open>A mock whose records are what the kernel was asked.\<close>

definition stands_for :: "mock_state \<Rightarrow> 'k nix_calls \<Rightarrow> init_action list \<Rightarrow> bool" where
  "stands_for m K acts \<longleftrightarrow> mk_pid m = nix_getpid K \<and> mock_mounts m = action_mounts acts \<and>
     mk_reboot_call m = last_reboot acts"

definition mounts_succeed :: "'k nix_calls \<Rightarrow> bool" where
  "mounts_succeed K \<longleftrightarrow>
     (\<forall>source target fstype flags dat k. fst (nix_mount K source target fstype flags dat k) = Inr ())"

lemma mock_mount_each:
  "\<exists>s'. mount_each mock_system ms s = (Inr (), s') \<and> mock_mounts s' = mock_mounts s @ ms \<and>
     mk_pid s' = mk_pid s \<and> mk_reboot_call s' = mk_reboot_call s"
proof (induction ms arbitrary: s)
  case (Cons m ms)
  obtain target fstype where m: "m = (target, fstype)" by (cases m)
  let ?s = "s\<lparr>mk_mount_calls := mk_mount_calls s @ [(None, target, fstype, 0)]\<rparr>"
  from Cons.IH [of ?s] show ?case
    by (auto simp: m mock_system_def mock_mount_def mock_mounts_def)
qed simp

lemma last_reboot_append:
  "last_reboot (acts @ acts') = (case last_reboot acts' of Some mode \<Rightarrow> Some mode | None \<Rightarrow> last_reboot acts)"
  by (induction acts) (auto split: option.split)

lemma mount_all_succeed:
  assumes "ie_pid env = 1" and "ie_mount env = Map.empty"
  shows "mount_all env ms = (map (\<lambda>(target, fstype). Mount target fstype) ms, Inr ())"
  using assms by (induction ms) (auto simp: real_mount_def)

lemma unprivileged_mounts:
  "nix_getpid K \<noteq> 1 \<Longrightarrow> mount_each (real_system K) ms k = (Inr (), k)"
  by (induction ms) (auto simp: real_system_def)

lemma mock_filesystems:
  "\<exists>m'. mount_filesystems_on mock_system id m = (Inr (), m') \<and> mk_pid m' = mk_pid m \<and>
     mock_mounts m' = mock_mounts m @ virtual_filesystems \<and> mk_reboot_call m' = mk_reboot_call m"
  using mock_mount_each [of virtual_filesystems m] by (auto simp: mount_filesystems_on_def)

lemma mounts_of_list [simp]:
  "action_mounts (map (\<lambda>(target, fstype). Mount target fstype) ms) = ms"
  "last_reboot (map (\<lambda>(target, fstype). Mount target fstype) ms) = None"
  by (induction ms) (auto simp: action_mounts_def List.map_filter_def)

text \<open>What a kernel whose mounts succeed is asked by process 1.\<close>

lemma privileged_filesystems:
  assumes "nix_getpid K = 1" and "mounts_succeed K"
  shows "\<exists>k' as. mount_filesystems_on (real_system (traced K)) (modprobe_written write_file) (k, acts) =
    (Inr (), (k', acts @ as)) \<and> action_mounts as = virtual_filesystems \<and> last_reboot as = None"
proof -
  let ?env = "\<lparr>ie_pid = 1, ie_console = None, ie_mount = Map.empty, ie_firewall = None,
    ie_env_var = Map.empty, ie_cmdline = None\<rparr>"
  have "mount_virtual_filesystems ?env =
      (map (\<lambda>(target, fstype). Mount target fstype) virtual_filesystems @ [SetModprobePath], Inr ())"
    by (simp add: mount_virtual_filesystems_def mount_all_succeed)
  moreover from assms have "answers_as K ?env" by (simp add: answers_as_def mounts_succeed_def)
  ultimately show ?thesis
    using traced_filesystems [of K ?env write_file k acts] by (auto simp: last_reboot_append)
qed


text \<open>A kernel that counts its mounts.\<close>

definition counting_calls :: "nat nix_calls" where
  "counting_calls = \<lparr>nix_mount = (\<lambda>_ _ _ _ _ k. (Inr (), Suc k)), nix_reboot = (\<lambda>_ k. (Inr (), k)),
     nix_waitpid = (\<lambda>_ _ k. (NoChildren, k)), nix_getpid = 1, fs_read_to_string = (\<lambda>_ _. Inl ''none'')\<rparr>"


section \<open>Reaping on the mock\<close>

text \<open>The mock hands out its results in order; the loop takes those of dead children and the first
  that is none, and always ends.\<close>

lemma mock_reaps:
  "reap_zombies_on mock_system s =
     Some (map (the \<circ> reaped_pid) (takeWhile (\<lambda>r. reaped_pid r \<noteq> None) (mk_waitpid_results s)),
       s\<lparr>mk_waitpid_results := drop 1 (dropWhile (\<lambda>r. reaped_pid r \<noteq> None) (mk_waitpid_results s))\<rparr>)"
proof (induction "mk_waitpid_results s" arbitrary: s)
  case Nil
  then show ?case
    unfolding reap_zombies_on_def
    by (subst reap_zombies.simps) (simp add: mock_system_def)
next
  case (Cons r rs)
  from Cons.hyps(1) [of "s\<lparr>mk_waitpid_results := rs\<rparr>"] Cons.hyps(2) [symmetric] show ?case
    unfolding reap_zombies_on_def
    by (subst reap_zombies.simps) (cases "reaped_pid r"; simp add: mock_system_def)
qed

end
