(* ===== verification/Dhcp_Server_Tests.thy ===== *)
theory Dhcp_Server_Tests
  imports Lease_Service
begin

text \<open>
  The unit tests of \<open>src/services/dhcp_server.rs\<close>, each as the truth of its assertions over the
  model: an \<open>unwrap\<close> of nothing and a failed assertion are False. The tests read the clock and
  parse networks; both are arguments, and what the lemmas at the end assume of them is what the
  documentation of \<open>Instant\<close> and of the crate \<open>ipnet\<close> says. The allocation path the tests use in place of
  the handler, \<open>discover_ip\<close>, is shown to be the handler's.
\<close>

section \<open>What the tests share\<close>

definition lease_table_len :: "lease_table \<Rightarrow> nat" where
  "lease_table_len T = hm_len (by_mac T)"

definition make_config :: "(string \<Rightarrow> ipv4_net option) \<Rightarrow> string \<Rightarrow> server_config option" where
  "make_config parse_net cidr =
     (case parse_net cidr of
        None \<Rightarrow> None
      | Some net \<Rightarrow> Some \<lparr>cfg_server_ip = net_addr net, cfg_subnet_mask = net_netmask net,
          cfg_server_mac = MacAddr 0 0 0 0 0 1, cfg_net = net\<rparr>)"

definition discover_ip ::
  "readings \<Rightarrow> lease_table \<Rightarrow> mac \<Rightarrow> ipv4_net \<Rightarrow> ipv4 \<Rightarrow> ipv4 option \<times> lease_table" where
  "discover_ip rd leases m net server_ip =
     (case lease_table_get leases m of
        Some existing \<Rightarrow> (Some (lease_ip existing), leases)
      | None \<Rightarrow>
          (case next_available_ip (rd_entries rd) net server_ip leases of
             (None, leases) \<Rightarrow> (None, leases)
           | (Some ip, leases) \<Rightarrow>
               (Some ip, lease_table_insert m (new_lease rd ip) leases)))"

text \<open>\<open>Instant::now() - Duration\<close> panics when the clock has not run that long.\<close>

definition instant_minus :: "instant \<Rightarrow> duration \<Rightarrow> instant option" where
  "instant_minus t d = (if d \<le> t then Some (t - d) else None)"

section \<open>Allocation\<close>

definition test_lease_table_basic_allocation ::
  "(string \<Rightarrow> ipv4_net option) \<Rightarrow> (nat \<Rightarrow> readings) \<Rightarrow> bool" where
  "test_lease_table_basic_allocation parse_net clock =
     (case parse_net ''192.168.1.1/24'' of
        None \<Rightarrow> False
      | Some net \<Rightarrow>
          (let server_ip = net_addr net;
               leases = lease_table_new;
               client1 = MacAddr 1 2 3 4 5 6
           in case discover_ip (clock 0) leases client1 net server_ip of
                (None, leases) \<Rightarrow> False
              | (Some ip1, leases) \<Rightarrow>
                  ip1 \<noteq> server_ip \<and>
                  list_ex (\<lambda>h. h = ip1) (net_hosts net) \<and>
                  \<not> is_ip_available leases ip1 \<and>
                  (let (again, leases) = discover_ip (clock 1) leases client1 net server_ip in
                   again = Some ip1 \<and>
                   lease_table_len leases = 1 \<and>
                   (let client2 = MacAddr 1 2 3 4 5 7
                    in case discover_ip (clock 2) leases client2 net server_ip of
                         (None, leases) \<Rightarrow> False
                       | (Some ip3, leases) \<Rightarrow>
                           ip3 \<noteq> ip1 \<and> ip3 \<noteq> server_ip \<and> \<not> is_ip_available leases ip3))))"

definition test_lease_table_pool_exhaustion ::
  "(string \<Rightarrow> ipv4_net option) \<Rightarrow> (nat \<Rightarrow> readings) \<Rightarrow> bool" where
  "test_lease_table_pool_exhaustion parse_net clock =
     (case parse_net ''192.168.1.1/30'' of
        None \<Rightarrow> False
      | Some net \<Rightarrow>
          (let server_ip = net_addr net;
               leases = lease_table_new;
               client1 = MacAddr 1 2 3 4 5 6;
               (first, leases) = discover_ip (clock 0) leases client1 net server_ip;
               client2 = MacAddr 1 2 3 4 5 7;
               (second, leases) = discover_ip (clock 1) leases client2 net server_ip
           in first = Some (ipv4_new 192 168 1 2) \<and> second = None))"

definition test_lease_table_remove_frees_ip ::
  "(string \<Rightarrow> ipv4_net option) \<Rightarrow> (nat \<Rightarrow> readings) \<Rightarrow> bool" where
  "test_lease_table_remove_frees_ip parse_net clock =
     (case parse_net ''192.168.1.1/24'' of
        None \<Rightarrow> False
      | Some net \<Rightarrow>
          (let server_ip = net_addr net;
               leases = lease_table_new;
               client = MacAddr 1 2 3 4 5 6
           in case discover_ip (clock 0) leases client net server_ip of
                (None, leases) \<Rightarrow> False
              | (Some ip, leases) \<Rightarrow>
                  \<not> is_ip_available leases ip \<and>
                  (let leases = handle_dhcp_decline client leases
                   in lease_table_len leases = 0 \<and>
                      is_ip_available leases ip \<and>
                      (case discover_ip (clock 1) leases client net server_ip of
                         (None, leases) \<Rightarrow> False
                       | (Some ip2, leases) \<Rightarrow>
                           ip2 = ip \<and>
                           lease_table_len leases = 1 \<and>
                           (let leases = handle_dhcp_release client leases
                            in lease_table_len leases = 0 \<and> is_ip_available leases ip)))))"

definition test_evict_expired_returns_ip_to_pool ::
  "(string \<Rightarrow> ipv4_net option) \<Rightarrow> (nat \<Rightarrow> readings) \<Rightarrow> bool" where
  "test_evict_expired_returns_ip_to_pool parse_net clock =
     (case (parse_net ''192.168.1.1/30'', instant_minus (rd_stamp (clock 0)) (from_secs 1)) of
        (Some net, Some expired) \<Rightarrow>
          (let server_ip = net_addr net;
               leases = lease_table_new;
               client = MacAddr 1 2 3 4 5 6;
               leases = lease_table_insert client
                 \<lparr>lease_ip = ipv4_new 192 168 1 2, lease_expiry = expired\<rparr> leases
           in lease_table_len leases = 1 \<and>
              \<not> is_ip_available leases (ipv4_new 192 168 1 2) \<and>
              (let new_client = MacAddr 1 2 3 4 5 7;
                   (ip, leases) = discover_ip (clock 1) leases new_client net server_ip
               in ip = Some (ipv4_new 192 168 1 2) \<and>
                  lease_table_len leases = 1 \<and>
                  lease_table_get leases client = None))
      | _ \<Rightarrow> False)"

definition test_discover_reoffers_existing_lease_ip ::
  "(string \<Rightarrow> ipv4_net option) \<Rightarrow> (nat \<Rightarrow> readings) \<Rightarrow> bool" where
  "test_discover_reoffers_existing_lease_ip parse_net clock =
     (case parse_net ''192.168.1.1/24'' of
        None \<Rightarrow> False
      | Some net \<Rightarrow>
          (let server_ip = net_addr net;
               leases = lease_table_new;
               client = MacAddr 0xAA 0xBB 0xCC 0xDD 0xEE 0xFF
           in case discover_ip (clock 0) leases client net server_ip of
                (None, leases) \<Rightarrow> False
              | (Some ip_first, leases) \<Rightarrow>
                  ip_first \<noteq> server_ip \<and>
                  lease_table_len leases = 1 \<and>
                  (case discover_ip (clock 1) leases client net server_ip of
                     (None, leases) \<Rightarrow> False
                   | (Some ip_second, leases) \<Rightarrow>
                       ip_second = ip_first \<and>
                       lease_table_len leases = 1 \<and>
                       \<not> is_ip_available leases ip_first)))"

definition test_discover_exhausted_pool_reoffers_existing_client ::
  "(string \<Rightarrow> ipv4_net option) \<Rightarrow> (nat \<Rightarrow> readings) \<Rightarrow> bool" where
  "test_discover_exhausted_pool_reoffers_existing_client parse_net clock =
     (case parse_net ''192.168.1.1/30'' of
        None \<Rightarrow> False
      | Some net \<Rightarrow>
          (let server_ip = net_addr net;
               leases = lease_table_new;
               existing_client = MacAddr 1 2 3 4 5 6;
               new_client = MacAddr 1 2 3 4 5 7
           in case discover_ip (clock 0) leases existing_client net server_ip of
                (None, leases) \<Rightarrow> False
              | (Some ip, leases) \<Rightarrow>
                  ip = ipv4_new 192 168 1 2 \<and>
                  (let (new, leases) = discover_ip (clock 1) leases new_client net server_ip;
                       (existing, leases) = discover_ip (clock 2) leases existing_client net server_ip
                   in new = None \<and> existing = Some ip)))"

section \<open>Validation\<close>

definition test_validate_requested_ip_rejects_server_ip ::
  "(string \<Rightarrow> ipv4_net option) \<Rightarrow> (nat \<Rightarrow> readings) \<Rightarrow> bool" where
  "test_validate_requested_ip_rejects_server_ip parse_net clock =
     (case make_config parse_net ''192.168.1.1/24'' of
        None \<Rightarrow> False
      | Some config \<Rightarrow>
          (let leases = lease_table_new;
               client = MacAddr 1 2 3 4 5 6
           in \<not> validate_requested_ip (rd_entries (clock 0)) (cfg_server_ip config) client config leases))"

definition test_validate_requested_ip_rejects_out_of_subnet ::
  "(string \<Rightarrow> ipv4_net option) \<Rightarrow> (nat \<Rightarrow> readings) \<Rightarrow> bool" where
  "test_validate_requested_ip_rejects_out_of_subnet parse_net clock =
     (case make_config parse_net ''192.168.1.1/24'' of
        None \<Rightarrow> False
      | Some config \<Rightarrow>
          (let leases = lease_table_new;
               client = MacAddr 1 2 3 4 5 6
           in \<not> validate_requested_ip (rd_entries (clock 0)) (ipv4_new 10 0 0 5) client config leases))"

definition test_validate_requested_ip_rejects_conflicting_lease ::
  "(string \<Rightarrow> ipv4_net option) \<Rightarrow> (nat \<Rightarrow> readings) \<Rightarrow> bool" where
  "test_validate_requested_ip_rejects_conflicting_lease parse_net clock =
     (case make_config parse_net ''192.168.1.1/24'' of
        None \<Rightarrow> False
      | Some config \<Rightarrow>
          (let client1 = MacAddr 1 2 3 4 5 6;
               client2 = MacAddr 1 2 3 4 5 7;
               contested_ip = ipv4_new 192 168 1 2;
               leases = lease_table_insert client1 (new_lease (clock 0) contested_ip) lease_table_new
           in \<not> validate_requested_ip (rd_entries (clock 1)) contested_ip client2 config leases \<and>
              validate_requested_ip (rd_entries (clock 2)) contested_ip client1 config leases))"

definition test_validate_requested_ip_accepts_valid ::
  "(string \<Rightarrow> ipv4_net option) \<Rightarrow> (nat \<Rightarrow> readings) \<Rightarrow> bool" where
  "test_validate_requested_ip_accepts_valid parse_net clock =
     (case make_config parse_net ''192.168.1.1/24'' of
        None \<Rightarrow> False
      | Some config \<Rightarrow>
          (let leases = lease_table_new;
               client = MacAddr 1 2 3 4 5 6
           in validate_requested_ip (rd_entries (clock 0)) (ipv4_new 192 168 1 100) client config leases))"

section \<open>The mirror is the handler\<close>

text \<open>The helper the unit tests allocate with takes the same decisions as the server. Whatever the
  table, the client, the request and the readings of the clock, \<open>handle_dhcp_discover\<close> leaves the
  table that \<open>discover_ip\<close> leaves, offers exactly the address it returns and stays silent when
  it returns none; so what the tests check of the helper holds of the handler.\<close>

theorem discover_ip_mirrors_handler:
  "handle_dhcp_discover E rd config dhcp client T =
     (case discover_ip rd T client (cfg_net config) (cfg_server_ip config) of
        (None, T') \<Rightarrow> Inr ([], T')
      | (Some ip, T') \<Rightarrow>
          obind (send_reply E config Offer dhcp client ip) (\<lambda>out. Inr (out, T')))"
  by (auto simp: handle_dhcp_discover_def discover_ip_def Let_def split: option.split prod.split)

section \<open>The tests pass\<close>

text \<open>What \<open>ipnet\<close> documents of a network that is parsed from an address and a prefix length: the
  addresses that share the prefix and, for lengths up to 30, the hosts in ascending order without the first and last
  address of the network.\<close>

definition cidr_documented :: "ipv4 \<Rightarrow> nat \<Rightarrow> ipv4_net \<Rightarrow> bool" where
  "cidr_documented a n net \<longleftrightarrow> net_addr net = a \<and>
     (\<forall>b. net_contains net b \<longleftrightarrow> drop_bit (32 - n) b = drop_bit (32 - n) a) \<and>
     net_hosts net = map (\<lambda>i. push_bit (32 - n) (drop_bit (32 - n) a) + of_nat i) [1..<2 ^ (32 - n) - 1]"

definition ipnet_documented :: "(string \<Rightarrow> ipv4_net option) \<Rightarrow> bool" where
  "ipnet_documented parse_net \<longleftrightarrow>
     (\<exists>net. parse_net ''192.168.1.1/24'' = Some net \<and> cidr_documented (ipv4_new 192 168 1 1) 24 net) \<and>
     (\<exists>net. parse_net ''192.168.1.1/30'' = Some net \<and> cidr_documented (ipv4_new 192 168 1 1) 30 net)"

text \<open>The clock does not run backwards, has run for a second, and a test takes less than an hour.\<close>

definition test_clock :: "(nat \<Rightarrow> readings) \<Rightarrow> bool" where
  "test_clock clock \<longleftrightarrow> from_secs 1 \<le> rd_stamp (clock 0) \<and>
     (\<forall>i j m. i < j \<longrightarrow> rd_stamp (clock i) \<le> rd_entries (clock j) m) \<and>
     (\<forall>i j m. rd_entries (clock j) m < rd_stamp (clock i) + lease_time)"

lemma net24:
  assumes "ipnet_documented parse_net"
  obtains net rest where "parse_net ''192.168.1.1/24'' = Some net" "net_addr net = ipv4_new 192 168 1 1"
    "net_hosts net = ipv4_new 192 168 1 1 # ipv4_new 192 168 1 2 # ipv4_new 192 168 1 3 # rest"
    "\<And>b. net_contains net b \<longleftrightarrow> drop_bit 8 b = drop_bit 8 (ipv4_new 192 168 1 1)"
proof -
  from assms obtain net where net: "parse_net ''192.168.1.1/24'' = Some net"
    "cidr_documented (ipv4_new 192 168 1 1) 24 net" by (auto simp: ipnet_documented_def)
  have "[1..<255] = 1 # 2 # 3 # [4..<255::nat]" by (simp add: upt_conv_Cons)
  with net show ?thesis by (intro that [of net]) (auto simp: cidr_documented_def ipv4_new_def)
qed

lemma net30:
  assumes "ipnet_documented parse_net"
  obtains net where "parse_net ''192.168.1.1/30'' = Some net" "net_addr net = ipv4_new 192 168 1 1"
    "net_hosts net = [ipv4_new 192 168 1 1, ipv4_new 192 168 1 2]"
proof -
  from assms obtain net where net: "parse_net ''192.168.1.1/30'' = Some net"
    "cidr_documented (ipv4_new 192 168 1 1) 30 net" by (auto simp: ipnet_documented_def)
  have "[1..<3] = [1, 2::nat]" by (simp add: upt_conv_Cons)
  with net show ?thesis by (intro that [of net]) (auto simp: cidr_documented_def ipv4_new_def)
qed

text \<open>Everything a test evaluates.\<close>

lemmas table_exec = discover_ip_def next_available_ip_def evict_expired_def is_ip_available_def
  lease_table_get_def lease_table_insert_def lease_table_new_def lease_table_len_def lease_table_remove_def
  handle_dhcp_decline_def handle_dhcp_release_def new_lease_time Let_def hm_exec

lemma test_clock_simps:
  assumes "test_clock clock"
  shows "rd_entries (clock j) m < rd_stamp (clock i) + lease_time"
    "\<not> rd_stamp (clock i) + lease_time \<le> rd_entries (clock j) m"
  using assms by (auto simp: test_clock_def not_le)

lemma octets_differ [simp]:
  "ipv4_new 192 168 1 1 \<noteq> ipv4_new 192 168 1 2" "ipv4_new 192 168 1 2 \<noteq> ipv4_new 192 168 1 1"
  "ipv4_new 192 168 1 3 \<noteq> ipv4_new 192 168 1 2" "ipv4_new 192 168 1 3 \<noteq> ipv4_new 192 168 1 1"
  "ipv4_new 192 168 1 2 \<noteq> ipv4_new 192 168 1 3"
  by (simp_all add: ipv4_new_def)

lemma allocation_tests:
  assumes "ipnet_documented parse_net" and "test_clock clock"
  shows "test_lease_table_basic_allocation parse_net clock"
    "test_lease_table_remove_frees_ip parse_net clock"
    "test_discover_reoffers_existing_lease_ip parse_net clock"
proof -
  obtain net rest where n: "parse_net ''192.168.1.1/24'' = Some net" "net_addr net = ipv4_new 192 168 1 1"
    "net_hosts net = ipv4_new 192 168 1 1 # ipv4_new 192 168 1 2 # ipv4_new 192 168 1 3 # rest"
    using net24 [OF assms(1)] by metis
  note clk = test_clock_simps [OF assms(2)]
  show "test_lease_table_basic_allocation parse_net clock"
    by (simp add: test_lease_table_basic_allocation_def n clk table_exec)
  show "test_lease_table_remove_frees_ip parse_net clock"
    by (simp add: test_lease_table_remove_frees_ip_def n clk table_exec)
  show "test_discover_reoffers_existing_lease_ip parse_net clock"
    by (simp add: test_discover_reoffers_existing_lease_ip_def n clk table_exec)
qed

lemma exhaustion_tests:
  assumes "ipnet_documented parse_net" and "test_clock clock"
  shows "test_lease_table_pool_exhaustion parse_net clock"
    "test_discover_exhausted_pool_reoffers_existing_client parse_net clock"
    "test_evict_expired_returns_ip_to_pool parse_net clock"
proof -
  obtain net where n: "parse_net ''192.168.1.1/30'' = Some net" "net_addr net = ipv4_new 192 168 1 1"
    "net_hosts net = [ipv4_new 192 168 1 1, ipv4_new 192 168 1 2]"
    using net30 [OF assms(1)] by metis
  note clk = test_clock_simps [OF assms(2)]
  show "test_lease_table_pool_exhaustion parse_net clock"
    by (simp add: test_lease_table_pool_exhaustion_def n clk table_exec)
  show "test_discover_exhausted_pool_reoffers_existing_client parse_net clock"
    by (simp add: test_discover_exhausted_pool_reoffers_existing_client_def n clk table_exec)
  have "from_secs 1 \<le> rd_stamp (clock 0)" "\<And>m. rd_stamp (clock 0) - from_secs 1 \<le> rd_entries (clock 1) m"
    using assms(2) by (auto simp: test_clock_def intro: le_trans [OF diff_le_self])
  then show "test_evict_expired_returns_ip_to_pool parse_net clock"
    by (simp add: test_evict_expired_returns_ip_to_pool_def instant_minus_def n table_exec not_less)
qed

lemma validation_tests:
  assumes "ipnet_documented parse_net" and "test_clock clock"
  shows "test_validate_requested_ip_rejects_server_ip parse_net clock"
    "test_validate_requested_ip_rejects_out_of_subnet parse_net clock"
    "test_validate_requested_ip_rejects_conflicting_lease parse_net clock"
    "test_validate_requested_ip_accepts_valid parse_net clock"
proof -
  obtain net rest where n: "parse_net ''192.168.1.1/24'' = Some net" "net_addr net = ipv4_new 192 168 1 1"
    and c: "\<And>b. net_contains net b \<longleftrightarrow> drop_bit 8 b = drop_bit 8 (ipv4_new 192 168 1 1)"
    using net24 [OF assms(1)] by metis
  note tests = make_config_def validate_requested_ip_def is_ip_taken_by_other_def n c table_exec
    test_clock_simps [OF assms(2)]
  show "test_validate_requested_ip_rejects_server_ip parse_net clock"
    by (simp add: test_validate_requested_ip_rejects_server_ip_def tests)
  show "test_validate_requested_ip_rejects_out_of_subnet parse_net clock"
    by (simp add: test_validate_requested_ip_rejects_out_of_subnet_def tests ipv4_new_def)
  show "test_validate_requested_ip_rejects_conflicting_lease parse_net clock"
    by (simp add: test_validate_requested_ip_rejects_conflicting_lease_def tests) (simp add: ipv4_new_def)
  show "test_validate_requested_ip_accepts_valid parse_net clock"
    by (simp add: test_validate_requested_ip_accepts_valid_def tests ipv4_new_def)
qed

text \<open>All ten pass, whatever value the network parser answers within its documentation and whatever the
  clock shows at each of its readings, as long as it does not run backwards and the test takes less
  than the hour a lease lasts.\<close>

definition server_tests :: "(string \<Rightarrow> ipv4_net option) \<Rightarrow> (nat \<Rightarrow> readings) \<Rightarrow> bool" where
  "server_tests parse_net clock \<longleftrightarrow>
     test_lease_table_basic_allocation parse_net clock
     \<and> test_lease_table_pool_exhaustion parse_net clock
     \<and> test_lease_table_remove_frees_ip parse_net clock
     \<and> test_evict_expired_returns_ip_to_pool parse_net clock
     \<and> test_discover_reoffers_existing_lease_ip parse_net clock
     \<and> test_discover_exhausted_pool_reoffers_existing_client parse_net clock
     \<and> test_validate_requested_ip_rejects_server_ip parse_net clock
     \<and> test_validate_requested_ip_rejects_out_of_subnet parse_net clock
     \<and> test_validate_requested_ip_rejects_conflicting_lease parse_net clock
     \<and> test_validate_requested_ip_accepts_valid parse_net clock"

lemma server_tests_pass:
  "ipnet_documented parse_net \<Longrightarrow> test_clock clock \<Longrightarrow> server_tests parse_net clock"
  using allocation_tests exhaustion_tests validation_tests unfolding server_tests_def by blast

text \<open>A parser of networks that knows the two, and a clock that moves a nanosecond at each of its first
  thousand readings.\<close>

definition cidr_net :: "ipv4 \<Rightarrow> nat \<Rightarrow> ipv4_net" where
  "cidr_net a n = \<lparr>net_addr = a, net_netmask = push_bit (32 - n) (mask n),
     net_hosts = map (\<lambda>i. push_bit (32 - n) (drop_bit (32 - n) a) + of_nat i) [1..<2 ^ (32 - n) - 1],
     net_contains = (\<lambda>b. drop_bit (32 - n) b = drop_bit (32 - n) a)\<rparr>"

definition test_networks :: "string \<Rightarrow> ipv4_net option" where
  "test_networks text =
     (if text = ''192.168.1.1/24'' then Some (cidr_net (ipv4_new 192 168 1 1) 24)
      else if text = ''192.168.1.1/30'' then Some (cidr_net (ipv4_new 192 168 1 1) 30) else None)"

definition ticking :: "nat \<Rightarrow> readings" where
  "ticking i = readings_at (from_secs 1 + min i 1000)"

lemma test_networks_documented: "ipnet_documented test_networks"
proof -
  have "cidr_documented a n (cidr_net a n)" for a n
    by (simp add: cidr_documented_def cidr_net_def)
  then show ?thesis by (simp add: ipnet_documented_def test_networks_def)
qed

lemma ticking_clock: "test_clock ticking"
  by (auto simp: test_clock_def ticking_def from_secs_def lease_time_def)

end
