(* ===== verification/Unit_Tests.thy ===== *)
theory Unit_Tests
  imports System_Ops Dhcp_Client Dns_Forwarder Dhcp_Server_Tests
begin

text \<open>
  The unit tests of \<open>src/system.rs\<close>, \<open>src/reaper.rs\<close>, \<open>src/config.rs\<close>,
  \<open>src/services/dhcp_client.rs\<close> and \<open>src/services/dns_forwarder.rs\<close>, each as the truth of its
  assertions over the model; those of the DHCP server are in \<open>Dhcp_Server_Tests\<close>. The
  environment of the process, the codec of \<open>dhcproto\<close>, the parser of \<open>dns_parser\<close> and the clock are
  arguments.
\<close>

section \<open>system.rs and reaper.rs\<close>

definition test_vfs_mounting :: bool where
  "test_vfs_mounting =
     (let sys = mock_system_new;
          (result, sys) = mount_filesystems_on mock_system id sys;
          calls = map (\<lambda>(source, target, fstype, flags). (target, fstype)) (mk_mount_calls sys)
      in result = Inr () \<and> length calls = 4 \<and>
         fst (calls ! 0) = ''/proc'' \<and> snd (calls ! 0) = ''proc'' \<and>
         fst (calls ! 1) = ''/sys'' \<and> snd (calls ! 1) = ''sysfs'' \<and>
         fst (calls ! 2) = ''/dev'' \<and> snd (calls ! 2) = ''devtmpfs'' \<and>
         fst (calls ! 3) = ''/run'' \<and> snd (calls ! 3) = ''tmpfs'')"

text \<open>The thread that panics runs the hook; joining it returns because the hook does.\<close>

definition test_emergency_reboot_on_panic :: bool where
  "test_emergency_reboot_on_panic =
     (let sys = mock_system_new\<lparr>mk_pid := 99\<rparr>;
          (sys, sleeps) = panic_hook_on mock_system sys
      in \<not> sleeps \<and> mk_reboot_call sys = Some RB_AUTOBOOT)"

definition test_zombie_reaping :: bool where
  "test_zombie_reaping =
     (let sys = mock_system_new\<lparr>mk_waitpid_results := [Exited 42 0, Signaled 43 9 False, NoChildren]\<rparr>
      in case reap_zombies_on mock_system sys of
           None \<Rightarrow> False
         | Some (reaped, sys) \<Rightarrow> length (mk_waitpid_results sys) = 0)"

section \<open>config.rs\<close>

definition test_config_parsing_defaults :: "(string \<Rightarrow> string option) \<Rightarrow> bool" where
  "test_config_parsing_defaults env_var =
     (let sys = mock_system_new;
          config = parse_config_on env_var mock_system sys
      in cfg_wan_interface config = ''eth0'' \<and> cfg_lan_interface config = ''eth1'' \<and>
         cfg_lan_ip config = ''192.168.1.1/24'')"

definition test_config_parsing_from_cmdline :: "(string \<Rightarrow> string option) \<Rightarrow> bool" where
  "test_config_parsing_from_cmdline env_var =
     (let sys = mock_system_new\<lparr>mk_cmdline_content := ''BOOT_IMAGE=/boot/vmlinuz console=ttyS0 rustyrouter.wan=wan0 rustyrouter.lan=lan0 rustyrouter.lan_ip=10.0.0.1/24 quiet''\<rparr>;
          config = parse_config_on env_var mock_system sys
      in cfg_wan_interface config = ''wan0'' \<and> cfg_lan_interface config = ''lan0'' \<and>
         cfg_lan_ip config = ''10.0.0.1/24'')"

section \<open>dhcp\_client.rs\<close>

definition MOCK_SERVER_IP :: ipv4 where "MOCK_SERVER_IP = ipv4_new 10 0 2 2"
definition MOCK_CLIENT_IP :: ipv4 where "MOCK_CLIENT_IP = ipv4_new 10 0 2 15"
definition DEFAULT_MASK :: ipv4 where "DEFAULT_MASK = ipv4_new 255 255 255 0"
definition DNS_IP_1 :: ipv4 where "DNS_IP_1 = ipv4_new 8 8 8 8"
definition DNS_IP_2 :: ipv4 where "DNS_IP_2 = ipv4_new 8 8 4 4"

text \<open>The messages, from the default message of the crate.\<close>

definition offer_valid :: "dhcp_message \<Rightarrow> dhcp_message" where
  "offer_valid msg =
     (let msg = msg\<lparr>msg_xid := 0x12345678\<rparr>;
          msg = opts_insert (MessageType Offer) msg;
          msg = opts_insert (ServerIdentifier MOCK_SERVER_IP) msg
      in msg\<lparr>msg_yiaddr := MOCK_CLIENT_IP\<rparr>)"

definition offer_mismatched :: "dhcp_message \<Rightarrow> dhcp_message" where
  "offer_mismatched msg = (let msg = msg\<lparr>msg_xid := 0x11111111\<rparr> in opts_insert (MessageType Offer) msg)"

definition offer_without_server :: "dhcp_message \<Rightarrow> dhcp_message" where
  "offer_without_server msg =
     (let msg = msg\<lparr>msg_xid := 0x12345678\<rparr>;
          msg = opts_insert (MessageType Offer) msg
      in msg\<lparr>msg_yiaddr := MOCK_CLIENT_IP\<rparr>)"

definition ack_valid :: "dhcp_message \<Rightarrow> dhcp_message" where
  "ack_valid msg =
     (let msg = msg\<lparr>msg_xid := 0xabcdef\<rparr>;
          msg = opts_insert (MessageType Ack) msg;
          msg = opts_insert (SubnetMask DEFAULT_MASK) msg;
          msg = opts_insert (Router [MOCK_SERVER_IP]) msg;
          msg = opts_insert (DomainNameServer [DNS_IP_1, DNS_IP_2]) msg;
          msg = opts_insert (AddressLeaseTime 1800) msg;
          msg = opts_insert (ServerIdentifier MOCK_SERVER_IP) msg
      in msg\<lparr>msg_yiaddr := MOCK_CLIENT_IP\<rparr>)"

definition nak_plain :: "dhcp_message \<Rightarrow> dhcp_message" where
  "nak_plain msg = (let msg = msg\<lparr>msg_xid := 0x9999\<rparr> in opts_insert (MessageType Nak) msg)"

text \<open>\<open>encode(..).unwrap()\<close>, then the assertions.\<close>

definition with_encoded :: "dhcproto \<Rightarrow> dhcp_message \<Rightarrow> (bytes \<Rightarrow> bool) \<Rightarrow> bool" where
  "with_encoded dp msg asserts = (case message_encode dp msg of Inl e \<Rightarrow> False | Inr buf \<Rightarrow> asserts buf)"

definition test_parse_offer_valid :: "dhcproto \<Rightarrow> bool" where
  "test_parse_offer_valid dp =
     with_encoded dp (offer_valid (message_default dp)) (\<lambda>buf.
       case parse_offer dp buf 0x12345678 of
         None \<Rightarrow> False
       | Some res \<Rightarrow> offered_ip res = MOCK_CLIENT_IP \<and> offer_server_ip res = Some MOCK_SERVER_IP)"

definition test_parse_offer_mismatched_xid :: "dhcproto \<Rightarrow> bool" where
  "test_parse_offer_mismatched_xid dp =
     with_encoded dp (offer_mismatched (message_default dp)) (\<lambda>buf.
       parse_offer dp buf 0x22222222 = None)"

definition test_parse_offer_missing_server_id :: "dhcproto \<Rightarrow> bool" where
  "test_parse_offer_missing_server_id dp =
     with_encoded dp (offer_without_server (message_default dp)) (\<lambda>buf.
       case parse_offer dp buf 0x12345678 of
         None \<Rightarrow> False
       | Some res \<Rightarrow> offered_ip res = MOCK_CLIENT_IP \<and> offer_server_ip res = None)"

definition test_parse_ack_valid :: "dhcproto \<Rightarrow> bool" where
  "test_parse_ack_valid dp =
     with_encoded dp (ack_valid (message_default dp)) (\<lambda>buf.
       case parse_ack_nak dp buf 0xabcdef of
         AckResult ack \<Rightarrow>
           ack_ip ack = MOCK_CLIENT_IP \<and> ack_mask ack = DEFAULT_MASK \<and>
           ack_gateway ack = Some MOCK_SERVER_IP \<and>
           ack_dns_servers ack = [DNS_IP_1, DNS_IP_2] \<and>
           ack_lease_secs ack = 1800 \<and> ack_server_ip ack = Some MOCK_SERVER_IP
       | _ \<Rightarrow> False)"

definition test_parse_nak :: "dhcproto \<Rightarrow> bool" where
  "test_parse_nak dp =
     with_encoded dp (nak_plain (message_default dp)) (\<lambda>buf.
       parse_ack_nak dp buf 0x9999 = NakResult)"

definition test_parse_lease_options_missing_fields :: "dhcproto \<Rightarrow> bool" where
  "test_parse_lease_options_missing_fields dp =
     (let msg = opts_insert (MessageType Ack) (message_default dp);
          opts = parse_lease_options msg
      in lo_mask opts = DEFAULT_MASK \<and> lo_gateway opts = None \<and> lo_dns_servers opts = [] \<and>
         lo_lease_secs opts = DEFAULT_LEASE_SECS)"

definition test_mask_to_prefix_len_valid :: bool where
  "test_mask_to_prefix_len_valid =
     (mask_to_prefix_len (ipv4_new 255 255 255 0) = Inr 24 \<and>
      mask_to_prefix_len (ipv4_new 255 255 255 255) = Inr 32 \<and>
      mask_to_prefix_len (ipv4_new 0 0 0 0) = Inr 0)"

definition test_mask_to_prefix_len_invalid :: bool where
  "test_mask_to_prefix_len_invalid =
     (isl (mask_to_prefix_len (ipv4_new 255 255 255 10)) \<and>
      isl (mask_to_prefix_len (ipv4_new 255 0 255 0)))"

section \<open>dns\_forwarder.rs\<close>

text \<open>\<open>google.com\<close> as a sequence of labels, and the two bytes of type A and of class IN.\<close>

definition google_question :: bytes where
  "google_question = [6, 103, 111, 111, 103, 108, 101, 3, 99, 111, 109, 0] @ [0, 1] @ [0, 1]"

definition valid_query :: bytes where
  "valid_query = (replicate DNS_HEADER_SIZE 0)[5 := 1] @ google_question"

definition short_query :: bytes where
  "short_query = replicate 10 0"

definition ttl_answer :: "bytes \<Rightarrow> bytes \<Rightarrow> bytes" where
  "ttl_answer ttl ip = [0xc0, 0x0c] @ [0, 1] @ [0, 1] @ ttl @ [0, 4] @ ip"

definition ttl_response :: bytes where
  "ttl_response =
     (let resp = replicate DNS_HEADER_SIZE 0;
          resp = resp @ google_question;
          resp = resp[5 := 1];
          resp = resp[7 := 2];
          resp = resp @ ttl_answer [0, 0, 1, 0x2c] [8, 8, 8, 8]
      in resp @ ttl_answer [0, 0, 0, 0x96] [8, 8, 4, 4])"

definition test_get_cache_key_valid :: "dns_parser \<Rightarrow> bool" where
  "test_get_cache_key_valid parse = (get_cache_key parse valid_query = Some ''google.com:A:IN'')"

definition test_get_cache_key_invalid :: "dns_parser \<Rightarrow> bool" where
  "test_get_cache_key_invalid parse = (get_cache_key parse short_query = None)"

text \<open>The clock is read when the response is stored and again when the test looks at it.\<close>

definition test_insert_cache_ttl :: "dns_parser \<Rightarrow> instant \<Rightarrow> instant \<Rightarrow> bool" where
  "test_insert_cache_ttl parse now later =
     (let cache = insert_cache parse now ''key'' ttl_response []
      in case hm_get cache ''key'' of
           None \<Rightarrow> False
         | Some entry \<Rightarrow>
             (let cache_ttl = as_secs (expiry entry - later)
              in 148 \<le> cache_ttl \<and> cache_ttl \<le> 150))"

section \<open>They pass\<close>

lemma mock_exec:
  "sys_waitpid mock_system = mock_waitpid" "sys_getpid mock_system = mk_pid"
  "sys_mount mock_system = mock_mount" "sys_reboot mock_system = mock_reboot"
  "sys_read_cmdline mock_system = mock_read_cmdline"
  by (simp_all add: mock_system_def)

lemma system_tests:
  "test_vfs_mounting" "test_emergency_reboot_on_panic" "test_zombie_reaping"
proof -
  show "test_vfs_mounting"
    by (simp add: test_vfs_mounting_def mock_system_new_def mount_filesystems_on_def virtual_filesystems_def
        mock_exec mock_mount_def)
  show "test_emergency_reboot_on_panic"
    by (simp add: test_emergency_reboot_on_panic_def panic_hook_on_def mock_exec mock_reboot_def
        mock_system_new_def)
  show "test_zombie_reaping"
    by (simp add: test_zombie_reaping_def mock_reaps mock_system_new_def)
qed

lemma config_tests:
  assumes "None \<in> {env_var ''RUSTYROUTER_WAN'', env_var ''RUSTYROUTER_LAN'', env_var ''RUSTYROUTER_LAN_IP''}"
  shows "test_config_parsing_defaults env_var" "test_config_parsing_from_cmdline env_var"
proof -
  let ?args = "[''BOOT_IMAGE=/boot/vmlinuz'', ''console=ttyS0'', ''rustyrouter.wan=wan0'',
    ''rustyrouter.lan=lan0'', ''rustyrouter.lan_ip=10.0.0.1/24'', ''quiet'']"
  have unset: "parse_config env_var cmdline =
      (let p = (case cmdline of
            Some text \<Rightarrow> fold parse_arg (split_whitespace text) \<lparr>parsed_wan = None, parsed_lan = None, parsed_lan_ip = None\<rparr>
          | None \<Rightarrow> \<lparr>parsed_wan = None, parsed_lan = None, parsed_lan_ip = None\<rparr>)
       in \<lparr>cfg_wan_interface = unwrap_or (parsed_wan p) ''eth0'',
           cfg_lan_interface = unwrap_or (parsed_lan p) ''eth1'',
           cfg_lan_ip = unwrap_or (parsed_lan_ip p) ''192.168.1.1/24''\<rparr>)" for cmdline
    using assms by (auto simp: parse_config_def Let_def split: option.split)
  show "test_config_parsing_defaults env_var"
    by (simp add: test_config_parsing_defaults_def parse_config_on_def mock_exec mock_read_cmdline_def
        mock_system_new_def unset unwrap_or_def)
  have "\<forall>w \<in> set ?args. is_word w" by (simp add: is_word_def is_whitespace_def)
  from split_whitespace_unwords [OF this]
  have "split_whitespace ''BOOT_IMAGE=/boot/vmlinuz console=ttyS0 rustyrouter.wan=wan0 rustyrouter.lan=lan0 rustyrouter.lan_ip=10.0.0.1/24 quiet'' = ?args"
    by simp
  then show "test_config_parsing_from_cmdline env_var"
    by (simp add: test_config_parsing_from_cmdline_def parse_config_on_def mock_exec mock_read_cmdline_def
        unset Let_def parse_arg_def unwrap_or_def)
qed

text \<open>What the codec documents of the five messages: they are encoded, and what is decoded from the
  bytes has their transaction id, their address and their options.\<close>

definition decodes_to :: "dhcproto \<Rightarrow> dhcp_message \<Rightarrow> bool" where
  "decodes_to dp msg \<longleftrightarrow> (\<exists>buf d. message_encode dp msg = Inr buf \<and> message_decode dp buf = Some d \<and>
     msg_xid d = msg_xid msg \<and> msg_yiaddr d = msg_yiaddr msg \<and> (\<forall>c. opts_get d c = opts_get msg c))"

definition codec_documented :: "dhcproto \<Rightarrow> bool" where
  "codec_documented dp \<longleftrightarrow> dhcproto_documented dp \<and>
     (\<forall>make \<in> {offer_valid, offer_mismatched, offer_without_server, ack_valid, nak_plain}.
        decodes_to dp (make (message_default dp)))"

lemma with_decoded:
  assumes "decodes_to dp msg"
    and "\<And>buf d. message_decode dp buf = Some d \<Longrightarrow> msg_xid d = msg_xid msg \<Longrightarrow>
      msg_yiaddr d = msg_yiaddr msg \<Longrightarrow> (\<And>c. opts_get d c = opts_get msg c) \<Longrightarrow> asserts buf"
  shows "with_encoded dp msg asserts"
  using assms by (auto simp: decodes_to_def with_encoded_def)

lemma client_tests:
  assumes "codec_documented dp"
  shows "test_parse_offer_valid dp" "test_parse_offer_mismatched_xid dp" "test_parse_offer_missing_server_id dp"
    "test_parse_ack_valid dp" "test_parse_nak dp" "test_parse_lease_options_missing_fields dp"
proof -
  have empty: "msg_opts (message_default dp) = []"
    and dec: "decodes_to dp (offer_valid (message_default dp))" "decodes_to dp (offer_mismatched (message_default dp))"
      "decodes_to dp (offer_without_server (message_default dp))" "decodes_to dp (ack_valid (message_default dp))"
      "decodes_to dp (nak_plain (message_default dp))"
    using assms by (simp_all add: codec_documented_def)
  note parse = Let_def opts_get_def opts_insert_def hm_exec empty message_type_of_def get_server_identifier_def
    parse_offer_def parse_ack_nak_def parse_lease_options_def
  show "test_parse_offer_valid dp"
    unfolding test_parse_offer_valid_def
    by (rule with_decoded [OF dec(1)]) (simp add: offer_valid_def parse)
  show "test_parse_offer_mismatched_xid dp"
    unfolding test_parse_offer_mismatched_xid_def
    by (rule with_decoded [OF dec(2)]) (simp add: offer_mismatched_def parse)
  show "test_parse_offer_missing_server_id dp"
    unfolding test_parse_offer_missing_server_id_def
    by (rule with_decoded [OF dec(3)]) (simp add: offer_without_server_def parse)
  show "test_parse_ack_valid dp"
    unfolding test_parse_ack_valid_def
    by (rule with_decoded [OF dec(4)]) (simp add: ack_valid_def parse)
  show "test_parse_nak dp"
    unfolding test_parse_nak_def
    by (rule with_decoded [OF dec(5)]) (simp add: nak_plain_def parse)
  show "test_parse_lease_options_missing_fields dp"
    by (simp add: test_parse_lease_options_missing_fields_def DEFAULT_MASK_def DEFAULT_SUBNET_MASK_def parse)
qed

lemma mask_tests: "test_mask_to_prefix_len_valid" "test_mask_to_prefix_len_invalid"
  by (simp_all add: test_mask_to_prefix_len_valid_def test_mask_to_prefix_len_invalid_def mask_to_prefix_len_def
      leading_ones_def trailing_zeros_def ipv4_new_def upt_conv_Cons)

text \<open>What the parser documents of the two packets: the question is \<open>google.com\<close>, the answers live for
  300 and 150 seconds.\<close>

definition parser_reads :: "dns_parser \<Rightarrow> bool" where
  "parser_reads parse \<longleftrightarrow> dns_parser_documented parse \<and>
     (\<exists>p. parse valid_query = Some p \<and>
        pkt_questions p = [\<lparr>qname = ''google.com'', qtype = ''A'', qclass = ''IN''\<rparr>]) \<and>
     (\<exists>p. parse ttl_response = Some p \<and> map ans_ttl (pkt_answers p) = [300, 150])"

lemma dns_tests:
  assumes "parser_reads parse"
  shows "test_get_cache_key_valid parse" "test_get_cache_key_invalid parse"
    "now \<le> later \<Longrightarrow> later \<le> now + from_secs 2 \<Longrightarrow> test_insert_cache_ttl parse now later"
proof -
  show "test_get_cache_key_valid parse"
    using assms by (auto simp: parser_reads_def test_get_cache_key_valid_def get_cache_key_def)
  have "parse short_query = None"
    using assms by (cases "parse short_query")
      (fastforce simp: parser_reads_def dns_parser_documented_def short_query_def DNS_HEADER_SIZE_def)+
  then show "test_get_cache_key_invalid parse"
    by (simp add: test_get_cache_key_invalid_def get_cache_key_def)
  have len: "\<not> length ttl_response < DNS_HEADER_SIZE"
    by (simp add: ttl_response_def Let_def)
  from assms obtain p where p: "parse ttl_response = Some p" "map ans_ttl (pkt_answers p) = [300, 150]"
    by (auto simp: parser_reads_def)
  then have ttl: "response_ttl p = 150" by (simp add: response_ttl_def)
  assume "now \<le> later" "later \<le> now + from_secs 2"
  then show "test_insert_cache_ttl parse now later"
    using len p ttl by (auto simp: test_insert_cache_ttl_def insert_cache_def Let_def hm_exec MAX_TTL_SECS_def
        from_secs_def as_secs_def)
qed


text \<open>A codec of one byte for each message, and a parser that knows the two packets.\<close>

definition test_codec :: dhcproto where
  "test_codec = (scripted_dhcproto (\<lambda>x.
       if x = 1 then offer_valid blank_message else if x = 2 then offer_without_server blank_message
       else if x = 3 then offer_mismatched blank_message else if x = 4 then ack_valid blank_message
       else nak_plain blank_message))
     \<lparr>message_encode := (\<lambda>m. Inr [if msg_xid m = 0x12345678 then (if length (msg_opts m) = 2 then 1 else 2)
        else if msg_xid m = 0x11111111 then 3 else if msg_xid m = 0xabcdef then 4 else 5])\<rparr>"

definition test_parser :: dns_parser where
  "test_parser b =
     (if b = valid_query
      then Some \<lparr>pkt_questions = [\<lparr>qname = ''google.com'', qtype = ''A'', qclass = ''IN''\<rparr>], pkt_answers = []\<rparr>
      else if b = ttl_response
      then Some \<lparr>pkt_questions = [], pkt_answers = [\<lparr>ans_ttl = 300\<rparr>, \<lparr>ans_ttl = 150\<rparr>]\<rparr> else None)"

lemma test_codec_documented: "codec_documented test_codec"
proof -
  have "message_default test_codec = blank_message" "msg_opts blank_message = []"
    by (simp_all add: test_codec_def scripted_dhcproto_def blank_message_def)
  moreover have "dhcproto_documented test_codec"
    using scripted_dhcproto_documented by (simp add: dhcproto_documented_def test_codec_def scripted_dhcproto_def)
  ultimately show ?thesis
    by (simp add: codec_documented_def decodes_to_def)
      (simp add: test_codec_def scripted_dhcproto_def offer_valid_def offer_mismatched_def offer_without_server_def
        ack_valid_def nak_plain_def opts_insert_def hm_exec Let_def)
qed

lemma test_parser_reads: "parser_reads test_parser"
proof -
  have "length valid_query = 28" "length ttl_response = 60"
    by (simp_all add: valid_query_def ttl_response_def google_question_def ttl_answer_def DNS_HEADER_SIZE_def Let_def)
  moreover from this have "valid_query \<noteq> ttl_response" by force
  ultimately show ?thesis
    by (auto simp: parser_reads_def dns_parser_documented_def test_parser_def DNS_HEADER_SIZE_def)
qed


end
