(* ===== verification/Test_Provider.thy ===== *)
theory Test_Provider
  imports Dhcp_Client_Live Dhcp_Server
begin

text \<open>
  The provider of the integration test \<open>tests/wan_dhcp_test.rs\<close>, as far as it speaks DHCP: the
  exchange of \<open>run_mock_wan_isp\<close> up to its event loop, and the part of that loop that answers a
  renewal. The router's DHCP client runs against it: the frames of the one are what the other
  receives.
\<close>

section \<open>Its messages\<close>

definition ISP_SERVER_IP :: ipv4 where "ISP_SERVER_IP = ipv4_new 10 0 2 2"
definition ISP_CLIENT_IP :: ipv4 where "ISP_CLIENT_IP = ipv4_new 10 0 2 15"
definition ISP_SUBNET_MASK :: ipv4 where "ISP_SUBNET_MASK = ipv4_new 255 255 255 0"
definition ISP_DNS_SERVER :: ipv4 where "ISP_DNS_SERVER = ipv4_new 10 0 2 3"
definition ISP_SERVER_MAC :: mac where "ISP_SERVER_MAC = MacAddr 0x00 0x11 0x22 0x33 0x44 0x55"

definition isp_offer :: "dhcproto \<Rightarrow> u32 \<Rightarrow> mac \<Rightarrow> dhcp_message" where
  "isp_offer dp xid client_mac =
     (let offer = message_default dp;
          offer = offer\<lparr>msg_opcode := BootReply\<rparr>;
          offer = offer\<lparr>msg_xid := xid\<rparr>;
          offer = offer\<lparr>msg_yiaddr := ISP_CLIENT_IP\<rparr>;
          offer = offer\<lparr>msg_siaddr := ISP_SERVER_IP\<rparr>;
          offer = set_chaddr dp (mac_octets client_mac) offer;
          offer = opts_insert (MessageType Offer) offer;
          offer = opts_insert (SubnetMask ISP_SUBNET_MASK) offer;
          offer = opts_insert (Router [ISP_SERVER_IP]) offer;
          offer = opts_insert (DomainNameServer [ISP_DNS_SERVER]) offer;
          offer = opts_insert (ServerIdentifier ISP_SERVER_IP) offer
      in opts_insert (AddressLeaseTime 3600) offer)"

definition isp_ack :: "dhcproto \<Rightarrow> u32 \<Rightarrow> mac \<Rightarrow> dhcp_message" where
  "isp_ack dp xid client_mac =
     (let ack = message_default dp;
          ack = ack\<lparr>msg_opcode := BootReply\<rparr>;
          ack = ack\<lparr>msg_xid := xid\<rparr>;
          ack = ack\<lparr>msg_yiaddr := ISP_CLIENT_IP\<rparr>;
          ack = ack\<lparr>msg_siaddr := ISP_SERVER_IP\<rparr>;
          ack = set_chaddr dp (mac_octets client_mac) ack;
          ack = opts_insert (MessageType Ack) ack;
          ack = opts_insert (SubnetMask ISP_SUBNET_MASK) ack;
          ack = opts_insert (Router [ISP_SERVER_IP]) ack;
          ack = opts_insert (DomainNameServer [ISP_DNS_SERVER]) ack;
          ack = opts_insert (ServerIdentifier ISP_SERVER_IP) ack
      in opts_insert (AddressLeaseTime 60) ack)"

text \<open>\<open>encode(..).unwrap()\<close>, and the frame around it.\<close>

definition build_dhcp :: "dhcproto \<Rightarrow> dhcp_message \<Rightarrow> bytes outcome" where
  "build_dhcp dp msg = (case message_encode dp msg of Inl e \<Rightarrow> Inl UnwrapOnErr | Inr payload \<Rightarrow> Inr payload)"

definition isp_frame :: "libs \<Rightarrow> mac \<Rightarrow> dhcp_message \<Rightarrow> bytes outcome" where
  "isp_frame E client_mac msg =
     obind (build_dhcp (lib_dhcproto E) msg) (\<lambda>payload.
       build_raw_packet (lib_pnet E) ISP_SERVER_MAC client_mac ISP_SERVER_IP ipv4_broadcast 67 68 payload)"

definition parse_dhcp_message :: "pnet \<Rightarrow> dhcproto \<Rightarrow> bytes \<Rightarrow> dhcp_message option" where
  "parse_dhcp_message pn dp frame =
     (if length frame < 42 then None
      else (case eth_new pn frame of None \<Rightarrow> None | Some eth \<Rightarrow>
      if eth_ethertype (eth_view pn eth) \<noteq> ethertype_ipv4 then None
      else (case ip_new pn (eth_payload pn eth) of None \<Rightarrow> None | Some ip \<Rightarrow>
      if ip_protocol (ip_view pn ip) \<noteq> protocol_udp then None
      else (case udp_new pn (ip_payload pn ip) of None \<Rightarrow> None | Some udp \<Rightarrow>
      message_decode dp (udp_payload pn udp)))))"

section \<open>Its exchange\<close>

text \<open>What a receive with a time limit of 100 milliseconds gave.\<close>

datatype isp_recv = IspFrame bytes | IspClosed | IspNothing

datatype isp_phase = IspWaitsDiscover | IspWaitsRequest u32 mac | IspServes mac | IspReturned bool

text \<open>Six octets of the hardware address, each indexed.\<close>

definition chaddr_mac :: "bytes \<Rightarrow> mac outcome" where
  "chaddr_mac b = (if length b < 6 then Inl IndexOutOfBounds
     else Inr (MacAddr (b ! 0) (b ! 1) (b ! 2) (b ! 3) (b ! 4) (b ! 5)))"

text \<open>
  One turn of the loop it is in: the frames sent, what it tells the test, and where it is then.
  \<open>elapsed\<close> is the time in the loop. Sending a frame succeeds. The event loop that \<open>IspServes\<close> is in
  is not turned here: of its branches, the one for DHCP is \<open>isp_renewal\<close> below.
\<close>

definition isp_turn ::
  "libs \<Rightarrow> duration \<Rightarrow> isp_recv \<Rightarrow> isp_phase \<Rightarrow> (bytes list \<times> string list \<times> isp_phase) outcome" where
  "isp_turn E elapsed recv ph =
     (case ph of
        IspWaitsDiscover \<Rightarrow>
          if elapsed \<ge> from_secs 30 then Inr ([], [], IspReturned False)
          else (case recv of
             IspClosed \<Rightarrow> Inr ([], [], IspReturned False)
           | IspNothing \<Rightarrow> Inr ([], [], ph)
           | IspFrame frame \<Rightarrow>
               (case parse_dhcp_message (lib_pnet E) (lib_dhcproto E) frame of
                  None \<Rightarrow> Inr ([], [], ph)
                | Some d \<Rightarrow>
                    if message_type_of d = Some Discover
                    then obind (chaddr_mac (msg_chaddr d)) (\<lambda>client_mac.
                         obind (isp_frame E client_mac (isp_offer (lib_dhcproto E) (msg_xid d) client_mac)) (\<lambda>offer.
                           Inr ([offer], [], IspWaitsRequest (msg_xid d) client_mac)))
                    else Inr ([], [], ph)))
      | IspWaitsRequest xid client_mac \<Rightarrow>
          if elapsed \<ge> from_secs 5 then Inr ([], [], IspReturned False)
          else (case recv of
             IspClosed \<Rightarrow> Inr ([], [], IspReturned False)
           | IspNothing \<Rightarrow> Inr ([], [], ph)
           | IspFrame frame \<Rightarrow>
               (case parse_dhcp_message (lib_pnet E) (lib_dhcproto E) frame of
                  None \<Rightarrow> Inr ([], [], ph)
                | Some d \<Rightarrow>
                    if message_type_of d = Some Request \<and> msg_xid d = xid
                    then obind (isp_frame E client_mac (isp_ack (lib_dhcproto E) xid client_mac)) (\<lambda>ack.
                         Inr ([ack], [''WAN_DHCP_DONE''], IspServes client_mac))
                    else Inr ([], [], ph)))
      | _ \<Rightarrow> Inr ([], [], ph))"

text \<open>The last branch of the event loop: the answer to a renewal, if the frame is one.\<close>

definition isp_renewal :: "libs \<Rightarrow> mac \<Rightarrow> bytes \<Rightarrow> (bytes list \<times> string list) outcome" where
  "isp_renewal E client_mac frame =
     (let pn = lib_pnet E in
      case eth_new pn frame of
        None \<Rightarrow> Inr ([], [])
      | Some eth \<Rightarrow>
          if eth_ethertype (eth_view pn eth) \<noteq> ethertype_ipv4 then Inr ([], [])
          else obind (unwrap (ip_new pn (eth_payload pn eth))) (\<lambda>ip.
            if ip_protocol (ip_view pn ip) \<noteq> protocol_udp then Inr ([], [])
            else obind (unwrap (udp_new pn (ip_payload pn ip))) (\<lambda>udp.
              if udp_destination (udp_view pn udp) \<noteq> 67 then Inr ([], [])
              else (case message_decode (lib_dhcproto E) (udp_payload pn udp) of
                      None \<Rightarrow> Inr ([], [])
                    | Some d \<Rightarrow>
                        if message_type_of d = Some Request
                        then obind (isp_frame E client_mac (isp_ack (lib_dhcproto E) (msg_xid d) client_mac)) (\<lambda>ack.
                             Inr ([ack], [''DHCP_RENEWAL_VERIFIED'']))
                        else Inr ([], [])))))"

section \<open>The router against it\<close>

text \<open>What a frame brings to a UDP socket on the port.\<close>

definition delivers :: "pnet \<Rightarrow> bytes \<Rightarrow> u16 \<Rightarrow> bytes \<Rightarrow> bool" where
  "delivers pn frame port payload \<longleftrightarrow>
     (let udp = ip_payload pn (eth_payload pn frame)
      in udp_destination (udp_view pn udp) = port \<and> udp_payload pn udp = payload)"

text \<open>A message that survives the wire and fits the client's buffer.\<close>

definition encodes :: "dhcproto \<Rightarrow> dhcp_message \<Rightarrow> bytes \<Rightarrow> bool" where
  "encodes dp msg payload \<longleftrightarrow>
     message_encode dp msg = Inr payload \<and> message_decode dp payload = Some msg \<and> length payload \<le> 2048"

lemma isp_frame_delivers:
  assumes "pnet_documented (lib_pnet E)" and "encodes (lib_dhcproto E) msg payload"
  shows "\<exists>frame. isp_frame E m msg = Inr frame \<and> delivers (lib_pnet E) frame 68 payload"
proof -
  have "length payload \<le> 65507" using assms(2) by (simp add: encodes_def)
  from build_raw_packet_ok [OF assms(1) this] obtain frame where
    "build_raw_packet (lib_pnet E) ISP_SERVER_MAC m ISP_SERVER_IP ipv4_broadcast 67 68 payload = Inr frame"
    "carries_ip (lib_pnet E) ISP_SERVER_IP ipv4_broadcast 67 68 payload (eth_payload (lib_pnet E) frame)" by blast
  with assms(2) show ?thesis
    by (simp add: isp_frame_def build_dhcp_def encodes_def delivers_def carries_ip_def carries_udp_def Let_def)
qed

text \<open>What the client reads in the provider's messages.\<close>

definition isp_lease :: dhcp_ack where
  "isp_lease = \<lparr>ack_ip = ISP_CLIENT_IP, ack_mask = ISP_SUBNET_MASK, ack_gateway = Some ISP_SERVER_IP,
     ack_server_ip = Some ISP_SERVER_IP, ack_lease_secs = 60, ack_dns_servers = [ISP_DNS_SERVER]\<rparr>"

lemma isp_offer_read:
  assumes "dhcproto_documented dp" and "encodes dp (isp_offer dp xid m) payload"
  shows "parse_offer dp (take 2048 payload) xid =
    Some \<lparr>offered_ip = ISP_CLIENT_IP, offer_server_ip = Some ISP_SERVER_IP\<rparr>"
  using assms by (simp add: encodes_def parse_offer_def)
    (simp add: isp_offer_def Let_def dhcproto_set_chaddr message_type_of_def get_server_identifier_def
      opts_get_insert)

lemma isp_ack_read:
  assumes "dhcproto_documented dp" and "encodes dp (isp_ack dp xid m) payload"
  shows "parse_ack_nak dp (take 2048 payload) xid = AckResult isp_lease"
  using assms by (simp add: encodes_def parse_ack_nak_def)
    (simp add: isp_ack_def Let_def dhcproto_set_chaddr message_type_of_def get_server_identifier_def
      parse_lease_options_def opts_get_insert isp_lease_def)

text \<open>A wait in which the payload arrives at once.\<close>

definition arrives :: "rat \<Rightarrow> bytes \<Rightarrow> netlink \<Rightarrow> instant \<Rightarrow> client_event" where
  "arrives r payload nl now =
     EvWaited r [\<lparr>wt_elapsed = 0, wt_elapsed2 = 0, wt_recv = Datagram payload\<rparr>] nl now"

lemma jitter_positive: "0 < get_jittered_duration r d"
  by (simp add: get_jittered_duration_def Let_def from_secs_def less_max_iff_disj)

lemma offer_arrives:
  assumes "cs_phase s = AwaitOffer xid delay" and "dhcproto_documented (cc_dhcproto c)"
    and "encodes (cc_dhcproto c) (isp_offer (cc_dhcproto c) xid m) payload"
  shows "client_step c (arrives r payload nl now) s =
    ([SendMessage (request_message (cc_dhcproto c) (cc_mac c) xid ISP_CLIENT_IP (Some ISP_SERVER_IP)
        ipv4_unspecified) ipv4_broadcast],
     s\<lparr>cs_phase := AwaitAck xid \<lparr>offered_ip = ISP_CLIENT_IP, offer_server_ip = Some ISP_SERVER_IP\<rparr> 4\<rparr>)"
proof -
  note positive = jitter_positive [of r delay]
  with assms(1) isp_offer_read [OF assms(2,3)] show ?thesis
    by (simp add: client_step_def arrives_def offer_step_def wait_for_offer_def send_request_action_def
        INITIAL_RETRY_DELAY_SECS_def)
qed

lemma ack_arrives:
  assumes "cs_phase s = AwaitAck xid offer delay \<or>
      (\<exists>ack b sent i. cs_phase s = AwaitRenewal ack b xid sent i \<and> 0 < unat i)"
    and "dhcproto_documented (cc_dhcproto c)"
    and "encodes (cc_dhcproto c) (isp_ack (cc_dhcproto c) xid m) payload"
  shows "client_step c (arrives r payload nl now) s = enter_bound c nl isp_lease now s"
proof -
  note positive = jitter_positive [of r delay]
  with assms(1) isp_ack_read [OF assms(2,3)] show ?thesis
    by (auto simp: client_step_def arrives_def ack_step_def renewal_step_def wait_for_ack_def Let_def
        from_secs_def)
qed

lemma isp_answers_discover:
  assumes "pnet_documented (lib_pnet E)" and "dhcproto_documented (lib_dhcproto E)" and "t < from_secs 30"
    and "parse_dhcp_message (lib_pnet E) (lib_dhcproto E) f = Some (discover_message (lib_dhcproto E) m xid)"
    and "encodes (lib_dhcproto E) (isp_offer (lib_dhcproto E) xid m) payload"
  shows "\<exists>frame. isp_turn E t (IspFrame f) IspWaitsDiscover = Inr ([frame], [], IspWaitsRequest xid m) \<and>
    delivers (lib_pnet E) frame 68 payload"
proof -
  obtain frame where "isp_frame E m (isp_offer (lib_dhcproto E) xid m) = Inr frame"
    "delivers (lib_pnet E) frame 68 payload"
    using isp_frame_delivers [OF assms(1,5)] by blast
  moreover have "chaddr_mac (mac_octets m) = Inr m" by (cases m) (simp add: chaddr_mac_def)
  ultimately show ?thesis
    using assms(2-4) by (simp add: isp_turn_def discover_message_def Let_def dhcproto_set_chaddr
        message_type_of_def opts_get_insert)
qed

lemma request_message_read:
  assumes "dhcproto_documented dp"
  shows "message_type_of (request_message dp m xid a srv ciaddr) = Some Request"
    "msg_xid (request_message dp m xid a srv ciaddr) = xid"
  using assms by (simp_all add: request_message_def Let_def dhcproto_set_chaddr message_type_of_def
      opts_get_insert split: option.split)

lemma isp_answers_request:
  assumes "pnet_documented (lib_pnet E)" and "dhcproto_documented (lib_dhcproto E)" and "t < from_secs 5"
    and "parse_dhcp_message (lib_pnet E) (lib_dhcproto E) f =
      Some (request_message (lib_dhcproto E) m xid a srv ciaddr)"
    and "encodes (lib_dhcproto E) (isp_ack (lib_dhcproto E) xid m) payload"
  shows "\<exists>frame. isp_turn E t (IspFrame f) (IspWaitsRequest xid m) =
      Inr ([frame], [''WAN_DHCP_DONE''], IspServes m) \<and> delivers (lib_pnet E) frame 68 payload"
  using isp_frame_delivers [OF assms(1,5), of m] assms(2-4)
  by (auto simp: isp_turn_def request_message_read)

lemma isp_answers_renewal:
  assumes "pnet_documented (lib_pnet E)" and "dhcproto_documented (lib_dhcproto E)"
    and "parse_dhcp_message (lib_pnet E) (lib_dhcproto E) f =
      Some (request_message (lib_dhcproto E) m xid a srv ciaddr)"
    and "delivers (lib_pnet E) f 67 p"
    and "encodes (lib_dhcproto E) (isp_ack (lib_dhcproto E) xid m) payload"
  shows "\<exists>frame. isp_renewal E m f = Inr ([frame], [''DHCP_RENEWAL_VERIFIED'']) \<and>
    delivers (lib_pnet E) frame 68 payload"
proof -
  obtain frame where frame: "isp_frame E m (isp_ack (lib_dhcproto E) xid m) = Inr frame"
    "delivers (lib_pnet E) frame 68 payload"
    using isp_frame_delivers [OF assms(1,5)] by blast
  have "isp_renewal E m f = Inr ([frame], [''DHCP_RENEWAL_VERIFIED''])"
    using assms(2-4) frame(1)
    by (auto simp: isp_renewal_def parse_dhcp_message_def delivers_def eth_new_def ip_new_def udp_new_def
        Let_def request_message_read split: if_splits)
  with frame(2) show ?thesis by blast
qed

text \<open>Thirty seconds after the acknowledgement, half of the lease, the client asks for a renewal.\<close>

lemma renewal_requested:
  assumes "30 \<le> elapsed_secs t bound_at" and "elapsed_secs t bound_at < 60"
  shows "\<exists>i. run_events (client_step c) [EvBound t xid nl, EvRenew t t t nl] \<lparr>cs_phase = BoundTop isp_lease bound_at, cs_lease = L\<rparr>
      = \<lparr>cs_phase = AwaitRenewal isp_lease bound_at xid (Some t) i, cs_lease = L\<rparr> \<and> 0 < unat i \<and>
    (\<exists>dest. fst (client_step c (EvRenew t t t nl) \<lparr>cs_phase = RenewTop isp_lease bound_at xid None, cs_lease = L\<rparr>)
      = [SendMessage (request_message (cc_dhcproto c) (cc_mac c) xid ISP_CLIENT_IP None ISP_CLIENT_IP) dest])"
proof -
  obtain i dest reb where p: "calculate_renewal_params (elapsed_secs t bound_at) (t2_secs 60) 60 (Some ISP_SERVER_IP) =
      (i, dest, reb)" by (cases "calculate_renewal_params (elapsed_secs t bound_at) (t2_secs 60) 60 (Some ISP_SERVER_IP)")
  then have "60 \<le> i" by (auto simp: calculate_renewal_params_def Let_def split: if_splits)
  then have i: "0 < unat i" using word_le_nat_alt [of 60 i] by simp
  have t1: "t1_secs 60 = 30" by (simp add: t1_secs_def)
  show ?thesis
    using assms p i t1 by (auto simp: client_step_def bound_step_def renew_step_def isp_lease_def Let_def not_le not_less)
qed

text \<open>The turn of the bound loop at which it goes over to renewing.\<close>

lemma renewal_begins:
  assumes "30 \<le> elapsed_secs t bound_at" and "elapsed_secs t bound_at < 60"
  shows "client_step c (EvBound t xid nl) \<lparr>cs_phase = BoundTop isp_lease bound_at, cs_lease = L\<rparr> =
    ([], \<lparr>cs_phase = RenewTop isp_lease bound_at xid None, cs_lease = L\<rparr>)"
proof -
  have "ack_lease_secs isp_lease = 60" "t1_secs 60 = 30"
    by (simp_all add: isp_lease_def t1_secs_def)
  moreover from assms have "\<not> 60 \<le> elapsed_secs t bound_at" "\<not> elapsed_secs t bound_at < 30"
    by (simp_all only: not_le not_less)
  ultimately show ?thesis by (simp only: client_step_def bound_step_def Let_def client_state.simps
      client_phase.case client_event.case prod.case if_False client_state.update_convs refl)
qed

text \<open>The client sends the message in the step.\<close>

definition sends :: "client_config \<Rightarrow> client_event \<Rightarrow> client_state \<Rightarrow> dhcp_message \<Rightarrow> bool" where
  "sends c ev s msg \<longleftrightarrow> (\<exists>dest. fst (client_step c ev s) = [SendMessage msg dest])"

lemma enter_bound_state:
  assumes "config_succeeds c nl ack (cs_lease s)"
  shows "snd (enter_bound c nl ack now s) = s\<lparr>cs_phase := BoundTop ack now, cs_lease := lease_of_ack ack\<rparr>"
  using assms apply_lease [of nl "cc_wan_interface c" ack "cs_lease s"]
  by (auto simp: config_succeeds_def enter_bound_def split: prod.split)

lemma held_config_succeeds: "config_succeeds c nl ack (lease_of_ack ack)"
  by (simp add: config_succeeds_def apply_lease_config_def lease_of_ack_def)

lemma client_binds:
  assumes "dhcproto_documented (cc_dhcproto c)"
    and "encodes (cc_dhcproto c) (isp_offer (cc_dhcproto c) xid m) po"
    and "encodes (cc_dhcproto c) (isp_ack (cc_dhcproto c) xid m) pa"
    and "config_succeeds c nl isp_lease wan_lease_default"
  shows "run_events (client_step c) [EvStart xid, arrives r po nl b0, arrives r' pa nl b] client_start =
    \<lparr>cs_phase = BoundTop isp_lease b, cs_lease = lease_of_ack isp_lease\<rparr>"
proof -
  let ?s1 = "\<lparr>cs_phase = AwaitOffer xid INITIAL_RETRY_DELAY_SECS, cs_lease = wan_lease_default\<rparr>"
  have "snd (client_step c (EvStart xid) client_start) = ?s1"
    by (simp add: client_step_def client_start_def)
  with offer_arrives [OF _ assms(1,2), of ?s1] ack_arrives [OF _ assms(1,3)] assms(4) show ?thesis
    by (simp add: enter_bound_state)
qed

lemma client_renews:
  assumes "dhcproto_documented (cc_dhcproto c)"
    and "encodes (cc_dhcproto c) (isp_ack (cc_dhcproto c) xid m) pr"
    and "30 \<le> elapsed_secs t b" and "elapsed_secs t b < 60"
  shows "run_events (client_step c) [EvBound t xid nl, EvRenew t t t nl, arrives r pr nl b']
      \<lparr>cs_phase = BoundTop isp_lease b, cs_lease = lease_of_ack isp_lease\<rparr> =
    \<lparr>cs_phase = BoundTop isp_lease b', cs_lease = lease_of_ack isp_lease\<rparr>"
proof -
  let ?s = "\<lparr>cs_phase = BoundTop isp_lease b, cs_lease = lease_of_ack isp_lease\<rparr>"
  obtain i where w: "run_events (client_step c) [EvBound t xid nl, EvRenew t t t nl] ?s =
      \<lparr>cs_phase = AwaitRenewal isp_lease b xid (Some t) i, cs_lease = lease_of_ack isp_lease\<rparr>" "0 < unat i"
    using renewal_requested [OF assms(3,4)] by blast
  have "run_events (client_step c) [EvBound t xid nl, EvRenew t t t nl, arrives r pr nl b'] ?s =
      snd (client_step c (arrives r pr nl b') (run_events (client_step c) [EvBound t xid nl, EvRenew t t t nl] ?s))"
    by simp
  also have "\<dots> = \<lparr>cs_phase = BoundTop isp_lease b', cs_lease = lease_of_ack isp_lease\<rparr>"
    unfolding w(1) using ack_arrives [OF _ assms(1,2)] w(2) by (simp add: enter_bound_state held_config_succeeds)
  finally show ?thesis .
qed

text \<open>C20: The router gets and renews its lease from the provider of the integration test, frame by
  frame. The provider answers the router's DISCOVER with one frame, which brings the router's socket an
  offer, the REQUEST the router then sends with one that brings an acknowledgement, and reports
  the WAN as set up; the router is then bound to 10.0.2.15/24 for a minute, has published it with
  10.0.2.2 as gateway and 10.0.2.3 as DNS server. From half of the lease on
  it asks for a renewal under a new transaction id; the provider acknowledges it, reports it as
  verified, and the router stays bound under the same lease.\<close>

theorem router_leases_from_test_provider:
  assumes "pnet_documented (lib_pnet E)" and "dhcproto_documented (lib_dhcproto E)"
    and "cc_dhcproto c = lib_dhcproto E"
    and "encodes (lib_dhcproto E) (isp_offer (lib_dhcproto E) xid (cc_mac c)) po"
    and "encodes (lib_dhcproto E) (isp_ack (lib_dhcproto E) xid (cc_mac c)) pa"
    and "encodes (lib_dhcproto E) (isp_ack (lib_dhcproto E) xid' (cc_mac c)) pr"
    and "sends c (EvStart xid) client_start discover"
    and "sends c (arrives r po nl b0) (run_events (client_step c) [EvStart xid] client_start) request"
    and "sends c (EvRenew t t t nl) (run_events (client_step c) [EvBound t xid' nl]
      \<lparr>cs_phase = BoundTop isp_lease b, cs_lease = lease_of_ack isp_lease\<rparr>) renewal"
    and "parse_dhcp_message (lib_pnet E) (lib_dhcproto E) f1 = Some discover"
    and "parse_dhcp_message (lib_pnet E) (lib_dhcproto E) f2 = Some request"
    and "parse_dhcp_message (lib_pnet E) (lib_dhcproto E) f3 = Some renewal"
    and "delivers (lib_pnet E) f3 67 p"
    and "t1 < from_secs 30" and "t2 < from_secs 5"
    and "config_succeeds c nl isp_lease wan_lease_default"
    and "30 \<le> elapsed_secs t b" and "elapsed_secs t b < 60"
  shows "(\<exists>frame. isp_turn E t1 (IspFrame f1) IspWaitsDiscover = Inr ([frame], [], IspWaitsRequest xid (cc_mac c)) \<and>
        delivers (lib_pnet E) frame 68 po)
    \<and> (\<exists>frame. isp_turn E t2 (IspFrame f2) (IspWaitsRequest xid (cc_mac c)) =
          Inr ([frame], [''WAN_DHCP_DONE''], IspServes (cc_mac c)) \<and> delivers (lib_pnet E) frame 68 pa)
    \<and> run_events (client_step c) [EvStart xid, arrives r po nl b0, arrives r' pa nl b] client_start =
        \<lparr>cs_phase = BoundTop isp_lease b, cs_lease = lease_of_ack isp_lease\<rparr>
    \<and> (\<exists>frame. isp_renewal E (cc_mac c) f3 = Inr ([frame], [''DHCP_RENEWAL_VERIFIED'']) \<and>
        delivers (lib_pnet E) frame 68 pr)
    \<and> run_events (client_step c) [EvBound t xid' nl, EvRenew t t t nl, arrives r'' pr nl b']
          \<lparr>cs_phase = BoundTop isp_lease b, cs_lease = lease_of_ack isp_lease\<rparr> =
        \<lparr>cs_phase = BoundTop isp_lease b', cs_lease = lease_of_ack isp_lease\<rparr>"
proof -
  let ?dp = "lib_dhcproto E" and ?s = "\<lparr>cs_phase = AwaitOffer xid 4, cs_lease = wan_lease_default\<rparr>"
  have start: "client_step c (EvStart xid) client_start =
      ([SendMessage (discover_message ?dp (cc_mac c) xid) ipv4_broadcast], ?s)"
    by (simp add: client_step_def client_start_def send_discover_action_def assms(3) INITIAL_RETRY_DELAY_SECS_def)
  have discover: "discover = discover_message ?dp (cc_mac c) xid"
    using assms(7) start by (simp add: sends_def)
  have request: "request = request_message ?dp (cc_mac c) xid ISP_CLIENT_IP (Some ISP_SERVER_IP) ipv4_unspecified"
    using assms(2-4,8) start offer_arrives [of ?s xid 4 c "cc_mac c" po r nl b0] by (simp add: sends_def)
  have renewal: "renewal = request_message ?dp (cc_mac c) xid' ISP_CLIENT_IP None ISP_CLIENT_IP"
    using renewal_requested [OF assms(17,18), of c xid' nl "lease_of_ack isp_lease"] assms(9)
    by (auto simp: assms(3) sends_def renewal_begins [OF assms(17,18)])
  show ?thesis
    using isp_answers_discover [OF assms(1,2,14) assms(10) [unfolded discover] assms(4)]
      isp_answers_request [OF assms(1,2,15) assms(11) [unfolded request] assms(5)]
      isp_answers_renewal [OF assms(1,2) assms(12) [unfolded renewal] assms(13,6)]
      client_binds [of c xid "cc_mac c" po pa nl] assms(2-6,16)
      client_renews [of c xid' "cc_mac c" pr t b nl] assms(17,18)
    by simp
qed

section \<open>It can be played\<close>

definition play_base :: dhcproto where "play_base = scripted_dhcproto (\<lambda>_. blank_message)"

definition play_script :: "u8 \<Rightarrow> dhcp_message" where
  "play_script x =
     (if x = 1 then isp_offer play_base 77 client_a
      else if x = 2 then isp_ack play_base 77 client_a
      else if x = 3 then isp_ack play_base 78 client_a
      else if x = 4 then discover_message play_base client_a 77
      else if x = 5 then request_message play_base client_a 77 ISP_CLIENT_IP (Some ISP_SERVER_IP) ipv4_unspecified
      else request_message play_base client_a 78 ISP_CLIENT_IP None ISP_CLIENT_IP)"

definition play_libs :: libs where
  "play_libs = \<lparr>lib_pnet = pnet_wire, lib_dhcproto = (scripted_dhcproto play_script)
     \<lparr>message_encode := (\<lambda>m. Inr [if message_type_of m = Some Offer then 1 else if msg_xid m = 77 then 2 else 3])\<rparr>\<rparr>"

definition play_client :: client_config where
  "play_client = \<lparr>cc_dhcproto = lib_dhcproto play_libs, cc_mac = client_a, cc_wan_interface = ''eth0''\<rparr>"

lemma play_same:
  "message_default (lib_dhcproto play_libs) = message_default play_base"
  "set_chaddr (lib_dhcproto play_libs) = set_chaddr play_base"
  by (simp_all add: play_libs_def play_base_def scripted_dhcproto_def)

lemma play_messages:
  "isp_offer (lib_dhcproto play_libs) = isp_offer play_base"
  "isp_ack (lib_dhcproto play_libs) = isp_ack play_base"
  "discover_message (lib_dhcproto play_libs) = discover_message play_base"
  "request_message (lib_dhcproto play_libs) = request_message play_base"
  by (intro ext; simp add: isp_offer_def isp_ack_def discover_message_def request_message_def play_same)+

lemma play_documented: "dhcproto_documented (lib_dhcproto play_libs)" "dhcproto_documented play_base"
  "pnet_documented (lib_pnet play_libs)"
  using scripted_dhcproto_documented
  by (simp_all add: dhcproto_documented_def play_libs_def play_base_def scripted_dhcproto_def pnet_wire_documented)

lemma play_encodes:
  "encodes (lib_dhcproto play_libs) (isp_offer (lib_dhcproto play_libs) 77 client_a) [1]"
  "encodes (lib_dhcproto play_libs) (isp_ack (lib_dhcproto play_libs) 77 client_a) [2]"
  "encodes (lib_dhcproto play_libs) (isp_ack (lib_dhcproto play_libs) 78 client_a) [3]"
proof -
  have "message_type_of (isp_offer play_base 77 client_a) = Some Offer"
    "message_type_of (isp_ack play_base xid client_a) = Some Ack" "msg_xid (isp_ack play_base xid client_a) = xid" for xid
    using play_documented(2) by (simp_all add: isp_offer_def isp_ack_def Let_def dhcproto_set_chaddr
        message_type_of_def opts_get_insert)
  then show "encodes (lib_dhcproto play_libs) (isp_offer (lib_dhcproto play_libs) 77 client_a) [1]"
    "encodes (lib_dhcproto play_libs) (isp_ack (lib_dhcproto play_libs) 77 client_a) [2]"
    "encodes (lib_dhcproto play_libs) (isp_ack (lib_dhcproto play_libs) 78 client_a) [3]"
    unfolding play_messages
    by (simp_all add: encodes_def play_libs_def scripted_dhcproto_def play_script_def)
qed

lemma parsed_at_port:
  assumes "parse_dhcp_payload pn dp frame port = Some d" and "42 \<le> length frame"
  shows "parse_dhcp_message pn dp frame = Some d" "\<exists>p. delivers pn frame port p"
  using assms by (auto simp: parse_dhcp_payload_def parse_dhcp_message_def delivers_def eth_new_def ip_new_def
      udp_new_def Let_def split: if_splits)

lemma play_parses:
  "parse_dhcp_message (lib_pnet play_libs) (lib_dhcproto play_libs) (sample_frame client_a x) = Some (play_script x)"
  "\<exists>p. delivers (lib_pnet play_libs) (sample_frame client_a x) 67 p"
proof -
  have decode: "message_decode (lib_dhcproto play_libs) = message_decode (scripted_dhcproto play_script)"
    and wire: "lib_pnet play_libs = pnet_wire"
    by (simp_all add: play_libs_def scripted_dhcproto_def)
  have "parse_dhcp_payload (lib_pnet play_libs) (lib_dhcproto play_libs) (sample_frame client_a x) 67 =
      parse_dhcp_payload pnet_wire (scripted_dhcproto play_script) (sample_frame client_a x) 67"
    unfolding parse_dhcp_payload_def decode wire ..
  then have p: "parse_dhcp_payload (lib_pnet play_libs) (lib_dhcproto play_libs) (sample_frame client_a x) 67 =
      Some (play_script x)"
    by (simp add: sample_frame_parses)
  from parsed_at_port [OF p] show
    "parse_dhcp_message (lib_pnet play_libs) (lib_dhcproto play_libs) (sample_frame client_a x) = Some (play_script x)"
    "\<exists>p. delivers (lib_pnet play_libs) (sample_frame client_a x) 67 p" by simp_all
qed

lemma play_config: "config_succeeds play_client sample_netlink isp_lease wan_lease_default"
proof -
  have "mask_to_prefix_len ISP_SUBNET_MASK = Inr 24"
    using default_mask by (simp add: ISP_SUBNET_MASK_def DEFAULT_SUBNET_MASK_def)
  then show ?thesis
    by (simp add: config_succeeds_def apply_lease_config_def wan_lease_default_def configure_wan_def
        sample_netlink_def isp_lease_def)
qed

lemma play_sends:
  "sends play_client (EvStart 77) client_start (play_script 4)"
  "sends play_client (arrives 0 [1] sample_netlink 0) (run_events (client_step play_client) [EvStart 77] client_start)
     (play_script 5)"
  "sends play_client (EvRenew (from_secs 30) (from_secs 30) (from_secs 30) sample_netlink)
     (run_events (client_step play_client) [EvBound (from_secs 30) 78 sample_netlink]
       \<lparr>cs_phase = BoundTop isp_lease 0, cs_lease = lease_of_ack isp_lease\<rparr>) (play_script 6)"
proof -
  let ?s = "\<lparr>cs_phase = AwaitOffer 77 4, cs_lease = wan_lease_default\<rparr>"
  have c: "cc_dhcproto play_client = lib_dhcproto play_libs" "cc_mac play_client = client_a"
    by (simp_all add: play_client_def)
  have start: "client_step play_client (EvStart 77) client_start =
      ([SendMessage (discover_message play_base client_a 77) ipv4_broadcast], ?s)"
    by (simp add: client_step_def client_start_def send_discover_action_def c play_messages INITIAL_RETRY_DELAY_SECS_def)
  then show "sends play_client (EvStart 77) client_start (play_script 4)"
    by (simp add: sends_def play_script_def)
  show "sends play_client (arrives 0 [1] sample_netlink 0)
      (run_events (client_step play_client) [EvStart 77] client_start) (play_script 5)"
    using start offer_arrives [of ?s 77 4 play_client client_a "[1]" 0 sample_netlink 0] play_documented(1)
      play_encodes(1) by (simp add: c sends_def play_script_def play_messages)
  have t: "elapsed_secs (from_secs 30) 0 = 30" by (simp add: elapsed_secs_def)
  show "sends play_client (EvRenew (from_secs 30) (from_secs 30) (from_secs 30) sample_netlink)
     (run_events (client_step play_client) [EvBound (from_secs 30) 78 sample_netlink]
       \<lparr>cs_phase = BoundTop isp_lease 0, cs_lease = lease_of_ack isp_lease\<rparr>) (play_script 6)"
    using renewal_requested [of "from_secs 30" 0 play_client 78 sample_netlink "lease_of_ack isp_lease"]
    by (auto simp: t renewal_begins sends_def c play_messages play_script_def)
qed

theorem router_leases_from_test_provider_witness:
  "(\<exists>frame. isp_turn play_libs 0 (IspFrame (sample_frame client_a 4)) IspWaitsDiscover =
      Inr ([frame], [], IspWaitsRequest 77 client_a)) \<and>
   (\<exists>frame. isp_renewal play_libs client_a (sample_frame client_a 6) = Inr ([frame], [''DHCP_RENEWAL_VERIFIED'']))"
proof -
  have c: "cc_dhcproto play_client = lib_dhcproto play_libs" "cc_mac play_client = client_a"
    by (simp_all add: play_client_def)
  obtain p where p: "delivers (lib_pnet play_libs) (sample_frame client_a 6) 67 p" using play_parses(2) by blast
  have t: "30 \<le> elapsed_secs (from_secs 30) 0" "elapsed_secs (from_secs 30) 0 < 60"
    by (simp_all add: elapsed_secs_def)
  have "0 < from_secs 30" "0 < from_secs 5" by (simp_all add: from_secs_def)
  from router_leases_from_test_provider [where r' = 0 and r'' = 0 and b' = 0, OF play_documented(3,1) c(1) play_encodes [folded c(2)] play_sends
      play_parses(1) play_parses(1) play_parses(1) p this play_config t]
  show ?thesis unfolding c(2) by blast
qed

end
