(* ===== verification/Lease_Keep.thy ===== *)
theory Lease_Keep
  imports Lease_Service
begin

text \<open>
  What a client on the LAN can count on over a whole run of the DHCP server: as long as it asks
  for its address again before the hour is over, the address stays its own and every request for
  it is acknowledged, whatever the other clients send and however often the socket of the server
  fails and is set up again.
\<close>

section \<open>The packet a frame is\<close>

text \<open>
  What \<open>process_incoming_packet\<close> hands to \<open>dispatch\<close>: the message, the client it is from and its
  type, if the frame passes all the checks.
\<close>

definition packet_of :: "libs \<Rightarrow> bytes \<Rightarrow> (dhcp_message \<times> mac \<times> message_type) option" where
  "packet_of E pkt =
     (case parse_dhcp_payload (lib_pnet E) (lib_dhcproto E) pkt SERVER_PORT of
        None \<Rightarrow> None
      | Some dhcp \<Rightarrow>
          if msg_opcode dhcp \<noteq> BootRequest \<or> length (msg_chaddr dhcp) < unat (msg_hlen dhcp) then None
          else (case mac_of_octets (take (unat (msg_hlen dhcp)) (msg_chaddr dhcp)) of
                  None \<Rightarrow> None
                | Some client \<Rightarrow>
                    if msg_giaddr dhcp = ipv4_unspecified \<and> eth_source (eth_view (lib_pnet E) pkt) \<noteq> client
                    then None
                    else (case message_type_of dhcp of
                            None \<Rightarrow> None
                          | Some mt \<Rightarrow> Some (dhcp, client, mt))))"

lemma parsed_is_ethernet: "parse_dhcp_payload pn dp pkt port = Some d \<Longrightarrow> eth_min pn \<le> length pkt"
  by (auto simp: parse_dhcp_payload_def eth_new_def split: if_splits)

lemma process_packet:
  assumes "process_incoming_packet E rd config n buf T = Inr (out, T')"
  shows "case packet_of E (take n buf) of
      None \<Rightarrow> out = [] \<and> T' = T
    | Some (dhcp, client, mt) \<Rightarrow> dispatch E rd config dhcp client mt T = Inr (out, T')"
  using assms parsed_is_ethernet [of "lib_pnet E" "lib_dhcproto E" "take n buf" SERVER_PORT]
  by (auto simp: process_incoming_packet_def packet_of_def slice_to_def eth_new_def Let_def
      split: if_splits option.splits)

text \<open>A frame received while the server serves, as the server reads it.\<close>

lemma received_packet:
  assumes "server_step E net (Received rd frame) s = Inr (out, s')"
    and "sv_phase s = Serving config fd buf" and "length buf = BUF_LEN"
  shows "case packet_of E (take BUF_LEN frame) of
      None \<Rightarrow> out = [] \<and> sv_leases s' = sv_leases s
    | Some (dhcp, client, mt) \<Rightarrow> dispatch E rd config dhcp client mt (sv_leases s) = Inr (out, sv_leases s')"
proof -
  let ?n = "min (length frame) (length buf)"
  have "take ?n (take ?n frame @ drop ?n buf) = take BUF_LEN frame"
    using assms(3) by (cases "length frame \<le> length buf") auto
  moreover from assms(1,2) have "process_incoming_packet E rd config ?n (take ?n frame @ drop ?n buf)
      (sv_leases s) = Inr (out, sv_leases s')"
    by (auto simp: outcome_simps Let_def)
  ultimately show ?thesis using process_packet by metis
qed

lemma packet_dispatched:
  assumes "slice_to buf n = Inr pkt" and "packet_of E pkt = Some (dhcp, client, mt)"
  shows "process_incoming_packet E rd config n buf T = dispatch E rd config dhcp client mt T"
  using assms parsed_is_ethernet [of "lib_pnet E" "lib_dhcproto E" pkt SERVER_PORT]
  by (auto simp: process_incoming_packet_def packet_of_def eth_new_def Let_def
      split: option.splits if_splits)

lemma received_dispatched:
  assumes "sv_phase s = Serving config fd buf" and "length buf = BUF_LEN"
    and "packet_of E (take BUF_LEN frame) = Some (dhcp, client, mt)"
    and "dispatch E rd config dhcp client mt (sv_leases s) = Inr (out, T')"
  shows "\<exists>buf'. length buf' = BUF_LEN \<and> server_step E net (Received rd frame) s =
    Inr (out, s\<lparr>sv_phase := Serving config fd buf', sv_leases := T'\<rparr>)"
proof -
  let ?n = "min (length frame) (length buf)"
  let ?b = "take ?n frame @ drop ?n buf"
  have len: "length ?b = BUF_LEN" and pkt: "take ?n ?b = take BUF_LEN frame"
    using assms(2) by (cases "length frame \<le> length buf"; auto)+
  have "?n \<le> length ?b" using len assms(2) by linarith
  then have "slice_to ?b ?n = Inr (take BUF_LEN frame)" unfolding pkt [symmetric] by (rule slice_to_le)
  then have "process_incoming_packet E rd config ?n ?b (sv_leases s) = Inr (out, T')"
    using packet_dispatched [OF _ assms(3)] assms(4) by metis
  then have "server_step E net (Received rd frame) s =
      Inr (out, s\<lparr>sv_phase := Serving config fd ?b, sv_leases := T'\<rparr>)"
    using assms(1) by (simp add: Let_def)
  with len show ?thesis by blast
qed

section \<open>Runs\<close>

text \<open>
  A run with what is observed of it: each event, the frames it sends, and the time it is done.
  Frames are read only while the server serves, as in \<open>run_server_loop\<close>.
\<close>

type_synonym server_trace = "(server_event \<times> bytes list \<times> instant) list"

inductive server_run :: "libs \<Rightarrow> ipv4_net \<Rightarrow> server_state \<times> instant \<Rightarrow> server_trace \<Rightarrow>
    server_state \<times> instant \<Rightarrow> bool" for E net where
  nothing: "server_run E net c [] c"
| event: "t \<le> t' \<Longrightarrow> event_between t t' ev \<Longrightarrow>
    (\<And>rd frame. ev = Received rd frame \<Longrightarrow> sv_phase s \<noteq> SettingUp) \<Longrightarrow>
    server_step E net ev s = Inr (out, s') \<Longrightarrow> server_run E net (s', t') tr c \<Longrightarrow>
    server_run E net (s, t) ((ev, out, t') # tr) c"

inductive_cases server_run_NilE: "server_run E net c [] c'"
inductive_cases server_run_ConsE: "server_run E net c (x # tr) c'"

text \<open>The client whose packet an event is, with the message and its type.\<close>

definition event_packet :: "libs \<Rightarrow> server_event \<Rightarrow> (dhcp_message \<times> mac \<times> message_type) option" where
  "event_packet E ev = (case ev of Received rd frame \<Rightarrow> packet_of E (take BUF_LEN frame) | _ \<Rightarrow> None)"

text \<open>The address option 50 of a message asks for, if it has one.\<close>

definition asks_for :: "dhcp_message \<Rightarrow> ipv4 option" where
  "asks_for dhcp = (case opts_get dhcp RequestedIpAddressCode of
     Some (RequestedIpAddress a) \<Rightarrow> Some a | _ \<Rightarrow> None)"

text \<open>
  The client behaves in an event: of its own packets there is no release, no refusal of the
  address, and no request for another one.
\<close>

definition behaves :: "libs \<Rightarrow> mac \<Rightarrow> ipv4 \<Rightarrow> server_event \<Rightarrow> bool" where
  "behaves E m a ev \<longleftrightarrow> (\<forall>dhcp mt. event_packet E ev = Some (dhcp, m, mt) \<longrightarrow>
     mt \<noteq> Release \<and> mt \<noteq> Decline \<and> (mt = Request \<longrightarrow> asks_for dhcp \<in> {None, Some a}))"

text \<open>The time its lease ends, if it was \<open>d\<close> before the event and a request is granted.\<close>

definition renewed_until :: "libs \<Rightarrow> mac \<Rightarrow> instant \<Rightarrow> server_event \<Rightarrow> instant" where
  "renewed_until E m d ev = (case ev of
     Received rd frame \<Rightarrow> (case event_packet E ev of
         Some (dhcp, client, Request) \<Rightarrow> if client = m then rd_stamp rd + lease_time else d
       | _ \<Rightarrow> d)
   | _ \<Rightarrow> d)"

text \<open>It renews in time: no event comes to its end after the lease, as last renewed, has ended.\<close>

fun renews_in_time :: "libs \<Rightarrow> mac \<Rightarrow> instant \<Rightarrow> server_trace \<Rightarrow> bool" where
  "renews_in_time E m d [] \<longleftrightarrow> True"
| "renews_in_time E m d ((ev, out, t) # tr) \<longleftrightarrow>
     t < d \<and> renews_in_time E m (renewed_until E m d ev) tr"


section \<open>A client keeps its address\<close>

abbreviation lease_until :: "ipv4 \<Rightarrow> instant \<Rightarrow> client_lease" where
  "lease_until a d \<equiv> \<lparr>lease_ip = a, lease_expiry = d\<rparr>"

lemma new_lease_until: "new_lease rd a = lease_until a (rd_stamp rd + lease_time)"
  by (simp add: new_lease_def lease_time_def LAN_LEASE_SECS_def)

text \<open>
  What is sent in answer to a request of the client is one frame, which brings it the
  acknowledgement of the address.
\<close>

definition acknowledged :: "libs \<Rightarrow> ipv4_net \<Rightarrow> mac \<Rightarrow> ipv4 \<Rightarrow> server_event \<times> bytes list \<times> instant \<Rightarrow> bool" where
  "acknowledged E net m a x \<longleftrightarrow> (case x of (ev, out, t) \<Rightarrow>
     \<forall>dhcp. event_packet E ev = Some (dhcp, m, Request) \<longrightarrow>
       (\<exists>config frame. cfg_net config = net \<and> cfg_server_ip config = net_addr net \<and> out = [frame] \<and>
          carries E config (get_dest_mac_ip (msg_broadcast dhcp) m a) (reply_message E Ack dhcp a config) frame))"

lemma table_get: "lease_table_get T m = leases_of T m"
  by (simp add: lease_table_get_def leases_of_def)

lemma requested_own:
  "leases_of T m = Some (lease_until a d) \<Longrightarrow> asks_for dhcp \<in> {None, Some a} \<Longrightarrow>
     requested_ip dhcp m T = Some a"
  by (auto simp: requested_ip_def asks_for_def table_get Let_def
      split: option.splits dhcp_option.splits)

lemma own_address_valid:
  assumes inv: "table_inv T" and live: "live_unique t (leases_of T)"
    and own: "leases_of T m = Some (lease_until a d)" "t < d" and rd: "\<And>m. t \<le> rd_entries rd m"
    and addr: "a \<noteq> cfg_server_ip config" "net_contains (cfg_net config) a"
  shows "validate_requested_ip (rd_entries rd) a m config T"
proof -
  have "lease_expiry l \<le> rd_entries rd m'" if "leases_of T m' = Some l" "m' \<noteq> m" "lease_ip l = a" for m' l
    using live own that rd [of m'] unfolding live_unique_def by (fastforce simp: not_less)
  with inv addr show ?thesis by (auto simp: validate_iff)
qed

lemma dispatch_keeps:
  assumes d: "dispatch E rd config dhcp client mt T = Inr (out, T')"
    and inv: "table_inv T" and live: "live_unique t (leases_of T)"
    and own: "leases_of T m = Some (lease_until a e)" "t' < e" and times: "t \<le> t'"
      "\<And>m. t \<le> rd_entries rd m \<and> rd_entries rd m \<le> t'"
    and addr: "a \<noteq> cfg_server_ip config" "net_contains (cfg_net config) a"
    and ok: "client = m \<Longrightarrow> mt \<noteq> Release \<and> mt \<noteq> Decline \<and> (mt = Request \<longrightarrow> asks_for dhcp \<in> {None, Some a})"
  shows "leases_of T' m = Some (lease_until a (if client = m \<and> mt = Request then rd_stamp rd + lease_time else e))"
    and "client = m \<Longrightarrow> mt = Request \<Longrightarrow> send_reply E config Ack dhcp m a = Inr out"
proof -
  have "t < e" using own(2) times(1) by simp
  then have valid: "validate_requested_ip (rd_entries rd) a m config T"
    using own_address_valid [OF inv live own(1) _ _ addr] times(2) by blast
  have request: "T' = lease_table_insert m (new_lease rd a) T \<and> send_reply E config Ack dhcp m a = Inr out"
    if "client = m" "mt = Request"
    using d valid that requested_own [OF own(1)] ok
    by (auto simp: dispatch_def handle_dhcp_request_def Let_def outcome_simps)
  then show "client = m \<Longrightarrow> mt = Request \<Longrightarrow> send_reply E config Ack dhcp m a = Inr out" by blast
  show "leases_of T' m = Some (lease_until a (if client = m \<and> mt = Request then rd_stamp rd + lease_time else e))"
  proof (cases "client = m")
    case False
    have "\<not> e \<le> rd_entries rd m" using own(2) times(2) [of m] by simp
    with lease_step_frame [OF dispatch_step [OF d] inv, of m] False own(1) show ?thesis by auto
  next
    case True
    with request inv d ok own show ?thesis
      by (cases mt) (auto simp: lt.leases_put new_lease_until dispatch_def handle_dhcp_discover_def
          table_get outcome_simps)
  qed
qed

text \<open>The acknowledgements of the address encode, into something that fits a datagram.\<close>

definition acks_encode :: "libs \<Rightarrow> ipv4 \<Rightarrow> bool" where
  "acks_encode E a \<longleftrightarrow>
     pnet_documented (lib_pnet E) \<and> (\<forall>dhcp config. sendable E (reply_message E Ack dhcp a config))"

lemma acks_encode_sent:
  assumes "acks_encode E a" and "send_reply E config Ack dhcp m a = Inr out"
  shows "\<exists>frame. out = [frame] \<and>
    carries E config (get_dest_mac_ip (msg_broadcast dhcp) m a) (reply_message E Ack dhcp a config) frame"
  using assms send_reply_ok [of E Ack dhcp a config m] by (auto simp: acks_encode_def)

lemma step_keeps:
  assumes enc: "acks_encode E a" and r: "server_reachable E net s t" and net: "net_documented net"
    and own: "leases_of (sv_leases s) m = Some (lease_until a e)" "t' < e" and "t \<le> t'"
    and ev: "event_between t t' ev" "\<And>rd frame. ev = Received rd frame \<Longrightarrow> sv_phase s \<noteq> SettingUp"
    and step: "server_step E net ev s = Inr (out, s')" and ok: "behaves E m a ev"
  shows "leases_of (sv_leases s') m = Some (lease_until a (renewed_until E m e ev))"
    and "acknowledged E net m a (ev, out, t')"
proof -
  have both: "leases_of (sv_leases s') m = Some (lease_until a (renewed_until E m e ev)) \<and>
      acknowledged E net m a (ev, out, t')"
  proof (cases ev)
    case (Received rd frame)
    with ev(2) obtain config fd buf where ph: "sv_phase s = Serving config fd buf"
      by (cases "sv_phase s") auto
    from server_reachable_phase [OF r] ph have c: "length buf = BUF_LEN" "cfg_net config = net"
      "cfg_server_ip config = net_addr net" by (simp_all add: phase_ok_def)
    have addr: "a \<noteq> cfg_server_ip config" "net_contains (cfg_net config) a"
      using server_reachable_within [OF r net] own(1) unfolding leases_within_def c by fastforce+
    note p = received_packet [OF step [unfolded Received] ph c(1)]
    show ?thesis
    proof (cases "packet_of E (take BUF_LEN frame)")
      case None
      with p own(1) show ?thesis by (simp add: Received renewed_until_def acknowledged_def event_packet_def)
    next
      case (Some x)
      obtain dhcp client mt where x: "x = (dhcp, client, mt)" by (cases x)
      with p Some have d: "dispatch E rd config dhcp client mt (sv_leases s) = Inr (out, sv_leases s')" by simp
      note k = dispatch_keeps [OF d server_reachable_inv [OF r] server_reachable_live_unique [OF r]
          own \<open>t \<le> t'\<close> _ addr]
      from ok Some x have "client = m \<Longrightarrow> mt \<noteq> Release \<and> mt \<noteq> Decline \<and>
          (mt = Request \<longrightarrow> asks_for dhcp \<in> {None, Some a})"
        by (simp add: behaves_def event_packet_def Received)
      with k ev(1) Some x c acks_encode_sent [OF enc] show ?thesis
        by (cases mt) (auto simp: Received renewed_until_def acknowledged_def event_packet_def)
    qed
  qed (use step own(1) in \<open>auto simp: renewed_until_def acknowledged_def event_packet_def Let_def
      split: server_phase.splits sum.splits prod.splits\<close>)
  from both show "leases_of (sv_leases s') m = Some (lease_until a (renewed_until E m e ev))"
    "acknowledged E net m a (ev, out, t')" by simp_all
qed

text \<open>When the lease ends after a trace, as renewed in it.\<close>

definition lease_end :: "libs \<Rightarrow> mac \<Rightarrow> instant \<Rightarrow> server_trace \<Rightarrow> instant" where
  "lease_end E m d tr = fold (\<lambda>x d. renewed_until E m d (fst x)) tr d"

lemma lease_end_simps [simp]:
  "lease_end E m d [] = d"
  "lease_end E m d (x # tr) = lease_end E m (renewed_until E m d (fst x)) tr"
  by (simp_all add: lease_end_def)

lemma run_keeps:
  assumes "server_run E net c tr c'" and enc: "acks_encode E a" and net: "net_documented net"
    and "server_reachable E net (fst c) (snd c)"
    and "leases_of (sv_leases (fst c)) m = Some (lease_until a d)"
    and "\<forall>x \<in> set tr. behaves E m a (fst x)" and "renews_in_time E m d tr"
  shows "leases_of (sv_leases (fst c')) m = Some (lease_until a (lease_end E m d tr)) \<and>
    (\<forall>x \<in> set tr. acknowledged E net m a x) \<and> server_reachable E net (fst c') (snd c')"
  using assms(1,4-7)
proof (induction arbitrary: d rule: server_run.induct)
  case (event t t' ev s out s' tr c)
  note keeps = step_keeps [OF enc _ net _ _ event.hyps(1-4), of m d]
  have now: "leases_of (sv_leases s') m = Some (lease_until a (renewed_until E m d ev))"
    "acknowledged E net m a (ev, out, t')"
    using keeps event.prems by simp_all
  have "server_reachable E net s' t'"
    using server_reachable.step [OF _ event.hyps(1,2,4)] event.prems(1) by simp
  with event.IH [of "renewed_until E m d ev"] event.prems now show ?case by simp
qed simp

text \<open>C3: A client that renews in time keeps its address. From any reachable state in which a client
  holds a lease, and through every run in which the client neither gives the address back nor
  asks for another, and its requests come at most an hour apart, the table has the address for it
  all the time, until an hour after its last request; each of its requests is answered with
  exactly one frame, which brings the acknowledgement of that address; and nobody else comes to
  hold a live lease on it. The other clients may send what they like, the clock may advance in
  any way while a packet is handled, and the socket may fail and be set up again.\<close>

theorem renewing_client_keeps_address:
  assumes "server_reachable E net s t" and "net_documented net" and "acks_encode E (lease_ip l)"
    and "leases_of (sv_leases s) m = Some l"
    and "server_run E net (s, t) tr (s', t')"
    and "\<forall>x \<in> set tr. behaves E m (lease_ip l) (fst x)"
    and "renews_in_time E m (lease_expiry l) tr"
  shows "leases_of (sv_leases s') m =
      Some \<lparr>lease_ip = lease_ip l, lease_expiry = lease_end E m (lease_expiry l) tr\<rparr>
    \<and> (\<forall>x \<in> set tr. acknowledged E net m (lease_ip l) x)
    \<and> (\<forall>m' l'. m' \<noteq> m \<and> leases_of (sv_leases s') m' = Some l' \<and> t' < lease_expiry l' \<and>
         t' < lease_end E m (lease_expiry l) tr \<longrightarrow> lease_ip l' \<noteq> lease_ip l)"
proof -
  have "leases_of (sv_leases s) m = Some (lease_until (lease_ip l) (lease_expiry l))"
    using assms(4) by simp
  from run_keeps [OF assms(5,3,2) _ _ assms(6,7)] this assms(1) have
    held: "leases_of (sv_leases s') m = Some (lease_until (lease_ip l) (lease_end E m (lease_expiry l) tr))"
    and acks: "\<forall>x \<in> set tr. acknowledged E net m (lease_ip l) x"
    and r: "server_reachable E net s' t'" by simp_all
  from server_reachable_live_unique [OF r] held have
    "\<forall>m' l'. m' \<noteq> m \<and> leases_of (sv_leases s') m' = Some l' \<and> t' < lease_expiry l' \<and>
       t' < lease_end E m (lease_expiry l) tr \<longrightarrow> lease_ip l' \<noteq> lease_ip l"
    unfolding live_unique_def by fastforce
  with held acks show ?thesis by blast
qed

lemma sample_packet:
  assumes "sample_script x = sample_message mt m a"
  shows "event_packet sample_libs (Received rd (sample_frame m x)) = Some (sample_message mt m a, m, mt)"
proof -
  have "take BUF_LEN (sample_frame m x) = sample_frame m x" by (simp add: BUF_LEN_def)
  then show ?thesis
    using assms sample_parse [of m x]
    by (simp add: event_packet_def packet_of_def sample_libs_def sample_frame_source)
qed

lemma sample_nak: "\<exists>out. dispatch sample_libs (readings_at 8) sample_config (sample_message Request client_b 2)
    client_b Request sample_table = Inr (out, sample_table)"
proof -
  have "\<not> validate_requested_ip (rd_entries (readings_at 8)) 2 client_b sample_config sample_table"
    by (auto simp: sample_validate leases_of_sample new_lease_def LAN_LEASE_SECS_def from_secs_def
        intro!: exI [of _ client_a])
  then show ?thesis
    using send_nak_ok [of sample_libs "sample_message Request client_b 2" sample_config client_b]
    by (auto simp: dispatch_def handle_dhcp_request_def)
qed

definition sample_trace :: "bytes list \<Rightarrow> bytes list \<Rightarrow> server_trace" where
  "sample_trace out out' =
     [(Received (readings_at 8) (sample_frame client_b 3), out, 8),
      (Received (readings_at 9) (sample_frame client_a 1), out', 9)]"

lemma sample_server_run:
  "\<exists>s s' out out'. server_reachable sample_libs sample_net s 7 \<and> sv_leases s = sample_table \<and>
     server_run sample_libs sample_net (s, 7) (sample_trace out out') (s', 9)"
proof -
  let ?T = "lease_table_insert client_a (new_lease (readings_at 9) 2) sample_table"
  have x: "sample_script 3 = sample_message Request client_b 2" "sample_script 1 = sample_message Request client_a 2"
    by (simp_all add: sample_script_def)
  obtain s buf where r: "server_reachable sample_libs sample_net s 7" and T: "sv_leases s = sample_table"
    and ph: "sv_phase s = Serving sample_config 5 buf"
    using sample_at_table by (auto simp: sample_at_def)
  obtain out where d: "dispatch sample_libs (readings_at 8) sample_config (sample_message Request client_b 2)
      client_b Request (sv_leases s) = Inr (out, sample_table)" using sample_nak T by auto
  let ?s = "s\<lparr>sv_phase := Serving sample_config 5 (sample_frame client_b 3 @ drop 43 buf), sv_leases := sample_table\<rparr>"
  note step = sample_received [OF r ph x(1) d]
  have r': "server_reachable sample_libs sample_net ?s 8"
    by (rule server_reachable.step [OF r _ _ step]) simp_all
  have "validate_requested_ip (rd_entries (readings_at 9)) 2 client_a sample_config sample_table"
    by (auto simp: sample_validate leases_of_sample split: if_splits)
  from sample_grant [OF this] obtain out' where
    d': "dispatch sample_libs (readings_at 9) sample_config (sample_message Request client_a 2) client_a
      Request (sv_leases ?s) = Inr (out', ?T)" by auto
  have ph': "sv_phase ?s = Serving sample_config 5 (sample_frame client_b 3 @ drop 43 buf)" by simp
  note step' = sample_received [OF r' ph' x(2) d']
  have "\<exists>s'. server_run sample_libs sample_net (s, 7) (sample_trace out out') (s', 9)"
    unfolding sample_trace_def
    by (rule exI, rule server_run.event [OF _ _ _ step server_run.event [OF _ _ _ step' server_run.nothing]])
      (simp_all add: ph)
  with r T show ?thesis by blast
qed

theorem renewing_client_keeps_address_witness:
  "\<exists>(s' :: server_state) out'. leases_of (sv_leases s') client_a = Some \<lparr>lease_ip = 2, lease_expiry = 9 + lease_time\<rparr> \<and>
     acknowledged sample_libs sample_net client_a 2
       (Received (readings_at 9) (sample_frame client_a 1), out', 9)"
proof -
  obtain s s' out out' where r: "server_reachable sample_libs sample_net s 7" and T: "sv_leases s = sample_table"
    and run: "server_run sample_libs sample_net (s, 7) (sample_trace out out') (s', 9)"
    using sample_server_run by blast
  let ?l = "new_lease (readings_at 7) 2"
  have l: "leases_of (sv_leases s) client_a = Some ?l" by (simp add: T leases_of_sample)
  have p: "event_packet sample_libs (Received rd (sample_frame client_b 3)) =
      Some (sample_message Request client_b 2, client_b, Request)"
    "event_packet sample_libs (Received rd (sample_frame client_a 1)) =
      Some (sample_message Request client_a 2, client_a, Request)" for rd
    by (simp_all add: sample_packet sample_script_def)
  have asks: "asks_for (sample_message Request client_a 2) = Some 2"
    by (simp add: asks_for_def sample_message_def opts_get_def hm_exec blank_message_def)
  have ok: "\<forall>x \<in> set (sample_trace out out'). behaves sample_libs client_a (lease_ip ?l) (fst x)"
    by (simp add: sample_trace_def behaves_def p asks new_lease_time)
  have fin: "lease_end sample_libs client_a (7 + lease_time) (sample_trace out out') = 9 + lease_time"
    by (simp add: sample_trace_def renewed_until_def p)
  have t: "renews_in_time sample_libs client_a (lease_expiry ?l) (sample_trace out out')"
    by (simp add: sample_trace_def renewed_until_def p new_lease_time lease_time_def from_secs_def)
  have enc: "acks_encode sample_libs (lease_ip ?l)" by (simp add: acks_encode_def)
  have "leases_of (sv_leases s') client_a = Some \<lparr>lease_ip = 2, lease_expiry = 9 + lease_time\<rparr> \<and>
      (\<forall>x \<in> set (sample_trace out out'). acknowledged sample_libs sample_net client_a 2 x)"
    using renewing_client_keeps_address [OF r sample_net_documented enc l run ok t]
    unfolding new_lease_time readings_at_simps fin by blast
  then show ?thesis by (auto simp: sample_trace_def)
qed

end
