(* ===== verification/Dns_Answer.thy ===== *)
theory Dns_Answer
  imports Dns_Tasks Machines
begin

text \<open>
  The course of one query that is answered: the pieces of its task in their order, from any
  reachable state of the forwarder, with nothing else in between. It is what the clients see
  when all goes well; the theorems about arbitrary interleavings are in \<open>Dns_Tasks\<close>.
\<close>

section \<open>The pieces\<close>

text \<open>
  The events of a query that misses the cache: it arrives as task \<open>t\<close>, looks the cache up, reads
  the upstream server, registers with the drawn id \<open>x\<close>, is sent, its reply comes, and it wakes.
\<close>

definition query_course ::
  "task_id \<Rightarrow> bytes \<Rightarrow> client_addr \<Rightarrow> instant \<Rightarrow> u16 \<Rightarrow> bytes \<Rightarrow> ipv4 \<Rightarrow> instant \<Rightarrow> dns_event list" where
  "query_course t q src now x resp up now' =
     [EvQuery q src, EvLookup t now, EvUpstream t, EvRegister t [x], EvSent t True, EvReply resp up,
      EvWake t now']"

text \<open>Up to the datagram that is sent upstream.\<close>

lemma query_sent:
  assumes q: "DNS_HEADER_SIZE \<le> length q" "length q \<le> RECV_BUF_SIZE" "get_cache_key parse q = Some k"
    and miss: "lookup_cache now k (ds_cache s) = (None, cache)"
    and free: "hm_len (ds_pending s) < MAX_PENDING_QUERIES" "hm_get (ds_pending s) x = None"
    and t: "t = ds_next s" and up: "up = get_upstream_dns (ds_lease s)"
  shows "run_outputs (dns_step parse) [EvQuery q src, EvLookup t now, EvUpstream t, EvRegister t [x], EvSent t True] s =
      [SendUpstream (u16_to_be_bytes x @ drop 2 q) up]"
    and "run_events (dns_step parse) [EvQuery q src, EvLookup t now, EvUpstream t, EvRegister t [x], EvSent t True] s =
      s\<lparr>ds_cache := cache, ds_pending := hm_insert x \<lparr>tx = t, upstream_ip = up\<rparr> (ds_pending s),
        ds_tasks := (ds_tasks s)(t \<mapsto> \<lparr>dt_query = q, dt_src = src, dt_phase = Waiting k up x, dt_mail = Empty\<rparr>),
        ds_next := t + 1\<rparr>"
proof -
  have short: "\<not> length q < DNS_HEADER_SIZE" "take RECV_BUF_SIZE q = q" "2 \<le> length q"
    using q by (simp_all add: DNS_HEADER_SIZE_def)
  note steps = dns_step_def task_step_def lookup_step_def register_step_def register_query_def set_phase_def
    set_task_def
  show "run_outputs (dns_step parse) [EvQuery q src, EvLookup t now, EvUpstream t, EvRegister t [x], EvSent t True] s =
      [SendUpstream (u16_to_be_bytes x @ drop 2 q) up]"
    using short q miss free t up by (simp add: steps forwarded_query_ok)
  show "run_events (dns_step parse) [EvQuery q src, EvLookup t now, EvUpstream t, EvRegister t [x], EvSent t True] s =
      s\<lparr>ds_cache := cache, ds_pending := hm_insert x \<lparr>tx = t, upstream_ip = up\<rparr> (ds_pending s),
        ds_tasks := (ds_tasks s)(t \<mapsto> \<lparr>dt_query = q, dt_src = src, dt_phase = Waiting k up x, dt_mail = Empty\<rparr>),
        ds_next := t + 1\<rparr>"
    using short q miss free t up by (simp add: steps forwarded_query_ok)
qed

text \<open>From there to the answer.\<close>

lemma reply_answered:
  assumes task: "ds_tasks s t = Some \<lparr>dt_query = q, dt_src = src, dt_phase = Waiting k up x, dt_mail = Empty\<rparr>"
    and entry: "hm_get (ds_pending s) x = Some \<lparr>tx = t, upstream_ip = up\<rparr>"
    and q: "2 \<le> length q"
    and resp: "DNS_HEADER_SIZE \<le> length resp" "length resp \<le> RECV_BUF_SIZE" "read_xid resp = x"
  shows "run_outputs (dns_step parse) [EvReply resp up, EvWake t now'] s =
      [Answer (take 2 q @ drop 2 resp) src]"
    and "run_events (dns_step parse) [EvReply resp up, EvWake t now'] s =
      s\<lparr>ds_cache := insert_cache parse now' k (take 2 q @ drop 2 resp) (ds_cache s),
        ds_pending := hm_remove x (ds_pending s), ds_tasks := (ds_tasks s)(t := None)\<rparr>"
proof -
  have short: "\<not> length resp < DNS_HEADER_SIZE" "take RECV_BUF_SIZE resp = resp" using resp by simp_all
  note steps = dns_step_def task_step_def wake_step_def reply_step_def upstream_reply_def set_phase_def
    set_task_def
  show "run_outputs (dns_step parse) [EvReply resp up, EvWake t now'] s = [Answer (take 2 q @ drop 2 resp) src]"
    using assms short by (simp add: steps restore_xid_ok Let_def)
  show "run_events (dns_step parse) [EvReply resp up, EvWake t now'] s =
      s\<lparr>ds_cache := insert_cache parse now' k (take 2 q @ drop 2 resp) (ds_cache s),
        ds_pending := hm_remove x (ds_pending s), ds_tasks := (ds_tasks s)(t := None)\<rparr>"
    using assms short by (simp add: steps restore_xid_ok Let_def)
qed

text \<open>A later query for the same question, while the entry lives, is answered from the cache.\<close>

lemma cached_answer:
  assumes ok: "hm_ok c" and cache: "ds_cache s = insert_cache parse now' k r c"
    and r: "parse r = Some p" "response_ttl p \<noteq> 0" "DNS_HEADER_SIZE \<le> length r"
    and q: "DNS_HEADER_SIZE \<le> length q" "length q \<le> RECV_BUF_SIZE" "get_cache_key parse q = Some k"
    and now: "now < now' + from_secs (unat (min 3600 (response_ttl p)))"
  shows "run_outputs (dns_step parse) [EvQuery q src, EvLookup (ds_next s) now] s = [Answer (take 2 q @ drop 2 r) src]"
proof -
  have "lookup_cache now k (ds_cache s) = (Some r, ds_cache s)"
    using r now by (simp add: lookup_get cache insert_cache_get [OF ok])
  moreover have "take RECV_BUF_SIZE q = q" "\<not> length q < DNS_HEADER_SIZE" using q by simp_all
  moreover obtain a b q' where "q = a # b # q'"
    using q(1) by (cases q; cases "tl q") (auto simp: DNS_HEADER_SIZE_def)
  moreover have "2 \<le> length r" using r(3) by (simp add: DNS_HEADER_SIZE_def)
  ultimately show ?thesis
    using q(3) by (simp add: dns_step_def task_step_def lookup_step_def write_xid_ok)
qed

section \<open>The whole course\<close>

text \<open>What it sends, and the state it ends in.\<close>

lemma query_course_run:
  assumes "dns_run parse evs s" and "DNS_HEADER_SIZE \<le> length q" and "length q \<le> RECV_BUF_SIZE"
    and "get_cache_key parse q = Some k" and "fst (lookup_cache now k (ds_cache s)) = None"
    and "hm_len (ds_pending s) < MAX_PENDING_QUERIES" and "hm_get (ds_pending s) x = None"
    and "DNS_HEADER_SIZE \<le> length resp" and "length resp \<le> RECV_BUF_SIZE" and "read_xid resp = x"
  shows "run_outputs (dns_step parse)
        (query_course (ds_next s) q src now x resp (get_upstream_dns (ds_lease s)) now') s =
      [SendUpstream (u16_to_be_bytes x @ drop 2 q) (get_upstream_dns (ds_lease s)),
       Answer (take 2 q @ drop 2 resp) src]"
    and "run_events (dns_step parse)
        (query_course (ds_next s) q src now x resp (get_upstream_dns (ds_lease s)) now') s =
      s\<lparr>ds_cache := insert_cache parse now' k (take 2 q @ drop 2 resp) (snd (lookup_cache now k (ds_cache s))),
        ds_pending := hm_remove x (hm_insert x
          \<lparr>tx = ds_next s, upstream_ip = get_upstream_dns (ds_lease s)\<rparr> (ds_pending s)),
        ds_tasks := (ds_tasks s)(ds_next s := None), ds_next := ds_next s + 1\<rparr>"
proof -
  let ?t = "ds_next s" and ?u = "get_upstream_dns (ds_lease s)" and ?r = "take 2 q @ drop 2 resp"
  let ?s1 = "s\<lparr>ds_cache := snd (lookup_cache now k (ds_cache s)),
    ds_pending := hm_insert x \<lparr>tx = ?t, upstream_ip = ?u\<rparr> (ds_pending s),
    ds_tasks := (ds_tasks s)(?t \<mapsto> \<lparr>dt_query = q, dt_src = src, dt_phase = Waiting k ?u x, dt_mail = Empty\<rparr>),
    ds_next := ?t + 1\<rparr>"
  have inv: "hm_ok (ds_pending s)"
    using dns_run_inv [OF assms(1)] by (simp add: dns_inv_def pending_ok_def)
  have miss: "lookup_cache now k (ds_cache s) = (None, snd (lookup_cache now k (ds_cache s)))"
    using assms(5) by (metis prod.collapse)
  note sent = query_sent [OF assms(2-4) miss assms(6,7) refl refl, of src]
  have two: "2 \<le> length q" "2 \<le> length resp" using assms(2,8) by (simp_all add: DNS_HEADER_SIZE_def)
  have "ds_tasks ?s1 ?t = Some \<lparr>dt_query = q, dt_src = src, dt_phase = Waiting k ?u x, dt_mail = Empty\<rparr>"
    "hm_get (ds_pending ?s1) x = Some \<lparr>tx = ?t, upstream_ip = ?u\<rparr>"
    using inv by (simp_all add: hm.get_insert)
  note returned = reply_answered [OF this two(1) assms(8-10), of parse now']
  have course: "query_course ?t q src now x resp ?u now' =
      [EvQuery q src, EvLookup ?t now, EvUpstream ?t, EvRegister ?t [x], EvSent ?t True] @
      [EvReply resp ?u, EvWake ?t now']" by (simp add: query_course_def)
  show "run_outputs (dns_step parse) (query_course ?t q src now x resp ?u now') s =
      [SendUpstream (u16_to_be_bytes x @ drop 2 q) ?u, Answer ?r src]"
    unfolding course run_outputs_append sent returned by simp
  show "run_events (dns_step parse) (query_course ?t q src now x resp ?u now') s =
      s\<lparr>ds_cache := insert_cache parse now' k ?r (snd (lookup_cache now k (ds_cache s))),
        ds_pending := hm_remove x (hm_insert x \<lparr>tx = ?t, upstream_ip = ?u\<rparr> (ds_pending s)),
        ds_tasks := (ds_tasks s)(?t := None), ds_next := ?t + 1\<rparr>"
    unfolding course run_events_simps(3) sent returned by simp
qed

text \<open>C11: A query that is answered upstream is answered to its client. In any reachable state, if the
  cache has no live entry for its question, the registry has room and the drawn id is not in use,
  then the pieces of its task send exactly two datagrams: the query under the drawn id, to the
  first DNS server of the lease (or the fallback), and, when that server's reply under this id has
  come, the reply under the client's own id, to the client. The task and its registry entry are
  then gone, and until the reply's lifetime is over the next query for the same question is
  answered with it, under its own id, and sends nothing upstream.\<close>

theorem query_is_answered:
  assumes "dns_run parse evs s" and "DNS_HEADER_SIZE \<le> length q" and "length q \<le> RECV_BUF_SIZE"
    and "get_cache_key parse q = Some k" and "fst (lookup_cache now k (ds_cache s)) = None"
    and "hm_len (ds_pending s) < MAX_PENDING_QUERIES" and "hm_get (ds_pending s) x = None"
    and "DNS_HEADER_SIZE \<le> length resp" and "length resp \<le> RECV_BUF_SIZE" and "read_xid resp = x"
    and "s' = run_events (dns_step parse)
      (query_course (ds_next s) q src now x resp (get_upstream_dns (ds_lease s)) now') s"
  shows "run_outputs (dns_step parse)
        (query_course (ds_next s) q src now x resp (get_upstream_dns (ds_lease s)) now') s =
      [SendUpstream (u16_to_be_bytes x @ drop 2 q) (get_upstream_dns (ds_lease s)),
       Answer (take 2 q @ drop 2 resp) src]
    \<and> ds_tasks s' (ds_next s) = None \<and> hm_get (ds_pending s') = hm_get (ds_pending s)
    \<and> (\<forall>p q2 src2 now2. parse (take 2 q @ drop 2 resp) = Some p \<and> response_ttl p \<noteq> 0 \<and>
         DNS_HEADER_SIZE \<le> length q2 \<and> length q2 \<le> RECV_BUF_SIZE \<and> get_cache_key parse q2 = Some k \<and>
         now2 < now' + from_secs (unat (min 3600 (response_ttl p))) \<longrightarrow>
         run_outputs (dns_step parse) [EvQuery q2 src2, EvLookup (ds_next s + 1) now2] s' =
           [Answer (take 2 q2 @ drop 2 resp) src2])"
proof -
  let ?r = "take 2 q @ drop 2 resp"
  note run = query_course_run [OF assms(1-10), of src now']
  have inv: "hm_ok (ds_cache s)" "hm_ok (ds_pending s)"
    using dns_run_inv [OF assms(1)] by (simp_all add: dns_inv_def cache_ok_def pending_ok_def)
  have two: "2 \<le> length q" "2 \<le> length resp" using assms(2,8) by (simp_all add: DNS_HEADER_SIZE_def)
  note s' = assms(11) [unfolded run(2)]
  have "hm_get (ds_pending s') = hm_get (ds_pending s)"
    using inv assms(7) by (simp add: s' hm.get_remove hm.get_insert fun_upd_idem)
  moreover have "ds_tasks s' (ds_next s) = None" by (simp add: s')
  moreover have "run_outputs (dns_step parse) [EvQuery q2 src2, EvLookup (ds_next s + 1) now2] s' =
      [Answer (take 2 q2 @ drop 2 resp) src2]"
    if "parse ?r = Some p" "response_ttl p \<noteq> 0" "DNS_HEADER_SIZE \<le> length q2" "length q2 \<le> RECV_BUF_SIZE"
      "get_cache_key parse q2 = Some k" "now2 < now' + from_secs (unat (min 3600 (response_ttl p)))"
    for p q2 src2 now2
  proof -
    have "DNS_HEADER_SIZE \<le> length ?r" using assms(8) two by (simp add: DNS_HEADER_SIZE_def)
    moreover have "drop 2 ?r = drop 2 resp" using two by simp
    moreover have "ds_next s' = ds_next s + 1" by (simp add: s')
    moreover have "ds_cache s' = insert_cache parse now' k ?r (snd (lookup_cache now k (ds_cache s)))"
      by (simp add: s')
    ultimately show ?thesis
      using cached_answer [of "snd (lookup_cache now k (ds_cache s))" s' parse now' k ?r p q2 now2 src2] that inv
      by simp
  qed
  ultimately show ?thesis using run(1) by blast
qed

theorem query_is_answered_witness:
  "\<exists>s'. run_outputs (dns_step sample_parse)
       (query_course 0 (sample_query 7 2) (1, 99) 5 300 (1 # 44 # drop 2 (sample_query 0 2)) FALLBACK_DNS_SERVER 6)
       dns_start =
     [SendUpstream (1 # 44 # drop 2 (sample_query 7 2)) FALLBACK_DNS_SERVER, Answer (sample_query 7 2) (1, 99)] \<and>
   run_outputs (dns_step sample_parse) [EvQuery (sample_query 9 2) (2, 98), EvLookup 1 7] s' =
     [Answer (sample_query 9 2) (2, 98)]"
proof -
  let ?q = "sample_query 7 2" and ?r = "1 # 44 # drop 2 (sample_query 0 2)"
  let ?s' = "run_events (dns_step sample_parse) (query_course (ds_next dns_start) ?q (1, 99) 5 300 ?r
      (get_upstream_dns (ds_lease dns_start)) 6) dns_start"
  let ?p = "\<lparr>pkt_questions = [sample_question ''b''], pkt_answers = [\<lparr>ans_ttl = 300\<rparr>, \<lparr>ans_ttl = 150\<rparr>]\<rparr>"
  have q: "DNS_HEADER_SIZE \<le> length ?q" "length ?q \<le> RECV_BUF_SIZE" "get_cache_key sample_parse ?q = Some ''b:A:IN''"
    and q2: "DNS_HEADER_SIZE \<le> length (sample_query 9 2)" "length (sample_query 9 2) \<le> RECV_BUF_SIZE"
      "get_cache_key sample_parse (sample_query 9 2) = Some ''b:A:IN''"
    by (simp_all add: sample_query_def DNS_HEADER_SIZE_def RECV_BUF_SIZE_def get_cache_key_def sample_parse_def
        sample_question_def)
  have r: "DNS_HEADER_SIZE \<le> length ?r" "length ?r \<le> RECV_BUF_SIZE" "read_xid ?r = 300"
    by (simp_all add: sample_query_def DNS_HEADER_SIZE_def RECV_BUF_SIZE_def u16_from_be_bytes_def)
  have miss: "fst (lookup_cache 5 ''b:A:IN'' (ds_cache dns_start)) = None"
    and free: "hm_len (ds_pending dns_start) < MAX_PENDING_QUERIES" "hm_get (ds_pending dns_start) 300 = None"
    by (simp_all add: dns_start_def lookup_cache_def hm_exec MAX_PENDING_QUERIES_def)
  have start: "ds_next dns_start = 0" "get_upstream_dns (ds_lease dns_start) = FALLBACK_DNS_SERVER"
    by (simp_all add: dns_start_def get_upstream_dns_def wan_lease_default_def)
  note course = query_is_answered [OF dns_run.start q miss free r refl, of "(1, 99)" 6]
  have same: "u16_to_be_bytes (300 :: u16) = [1, 44]" by (simp add: u16_to_be_bytes_def)
  have put: "take 2 ?q @ drop 2 ?r = ?q" "take 2 (sample_query 9 2) @ drop 2 ?r = sample_query 9 2"
    by (simp_all add: sample_query_def)
  have out: "run_outputs (dns_step sample_parse) (query_course (ds_next dns_start) ?q (1, 99) 5 300 ?r
      (get_upstream_dns (ds_lease dns_start)) 6) dns_start =
    [SendUpstream (u16_to_be_bytes 300 @ drop 2 ?q) (get_upstream_dns (ds_lease dns_start)),
     Answer (take 2 ?q @ drop 2 ?r) (1, 99)]" using course by blast
  have "sample_parse (take 2 ?q @ drop 2 ?r) = Some ?p"
    by (simp add: sample_query_def sample_parse_def)
  moreover have "response_ttl ?p \<noteq> 0" "7 < 6 + from_secs (unat (min 3600 (response_ttl ?p)))"
    by (simp_all add: response_ttl_def from_secs_def min_def)
  ultimately have "run_outputs (dns_step sample_parse) [EvQuery (sample_query 9 2) (2, 98), EvLookup (ds_next dns_start + 1) 7] ?s' =
      [Answer (take 2 (sample_query 9 2) @ drop 2 ?r) (2, 98)]"
    using course q2 by blast
  with out show ?thesis unfolding start put same by (intro exI [of _ ?s']) (simp add: start)
qed

end
