(* ===== verification/Test_Network.thy ===== *)
theory Test_Network
  imports Test_Provider Lease_Keep Dns_Answer
begin

text \<open>
  The rest of the integration test \<open>tests/wan_dhcp_test.rs\<close> that speaks UDP: the client it plays
  on the LAN, which gets a lease from the router and asks it for a name, and the branches of its
  provider that answer DNS and NTP. The router's DHCP server and DNS forwarder run against them.
  What carries a frame to a UDP socket and a datagram into a frame is the kernel, which is not
  modelled; where it matters, the fields a frame has are a hypothesis.
\<close>

section \<open>The client on the LAN\<close>

definition LAN_CLIENT_MAC :: mac where "LAN_CLIENT_MAC = MacAddr 0x00 0xaa 0xbb 0xcc 0xdd 0xee"

text \<open>The address the test expects the router to have on the LAN, written out at each use.\<close>

definition LAN_ROUTER_IP :: ipv4 where "LAN_ROUTER_IP = ipv4_new 192 168 1 1"

definition lan_discover :: "dhcproto \<Rightarrow> u32 \<Rightarrow> mac \<Rightarrow> dhcp_message" where
  "lan_discover dp xid client_mac =
     (let disc = message_default dp;
          disc = disc\<lparr>msg_opcode := BootRequest\<rparr>;
          disc = disc\<lparr>msg_xid := xid\<rparr>;
          disc = set_chaddr dp (mac_octets client_mac) disc;
          disc = opts_insert (MessageType Discover) disc
      in opts_insert (ParameterRequestList [SubnetMaskCode, RouterCode, DomainNameServerCode]) disc)"

definition lan_request :: "dhcproto \<Rightarrow> u32 \<Rightarrow> mac \<Rightarrow> ipv4 \<Rightarrow> ipv4 \<Rightarrow> dhcp_message" where
  "lan_request dp xid client_mac requested server_ip =
     (let req = message_default dp;
          req = req\<lparr>msg_opcode := BootRequest\<rparr>;
          req = req\<lparr>msg_xid := xid\<rparr>;
          req = set_chaddr dp (mac_octets client_mac) req;
          req = opts_insert (MessageType Request) req;
          req = opts_insert (RequestedIpAddress requested) req
      in opts_insert (ServerIdentifier server_ip) req)"

definition lan_frame :: "libs \<Rightarrow> dhcp_message \<Rightarrow> bytes outcome" where
  "lan_frame E msg =
     obind (build_dhcp (lib_dhcproto E) msg) (\<lambda>payload.
       build_raw_packet (lib_pnet E) LAN_CLIENT_MAC mac_broadcast (ipv4_new 0 0 0 0) ipv4_broadcast 68 67 payload)"

text \<open>\<open>recv_dhcp_packet\<close> over the frames that come: the first that is a DHCP message.\<close>

fun recv_dhcp_packet :: "pnet \<Rightarrow> dhcproto \<Rightarrow> bytes list \<Rightarrow> dhcp_message option" where
  "recv_dhcp_packet pn dp [] = None"
| "recv_dhcp_packet pn dp (frame # frames) =
     (case parse_dhcp_message pn dp frame of
        Some dhcp \<Rightarrow> Some dhcp
      | None \<Rightarrow> recv_dhcp_packet pn dp frames)"

section \<open>It gets a lease\<close>

lemma lan_messages:
  assumes "dhcproto_documented dp"
  shows "msg_opcode (lan_discover dp xid m) = BootRequest" "msg_xid (lan_discover dp xid m) = xid"
    "msg_chaddr (lan_discover dp xid m) = mac_octets m" "msg_hlen (lan_discover dp xid m) = 6"
    "message_type_of (lan_discover dp xid m) = Some Discover"
    "msg_opcode (lan_request dp xid m a srv) = BootRequest" "msg_xid (lan_request dp xid m a srv) = xid"
    "msg_chaddr (lan_request dp xid m a srv) = mac_octets m" "msg_hlen (lan_request dp xid m a srv) = 6"
    "message_type_of (lan_request dp xid m a srv) = Some Request"
    "requested_ip (lan_request dp xid m a srv) m' T = Some a"
  using assms by (simp_all add: lan_discover_def lan_request_def Let_def dhcproto_set_chaddr
      message_type_of_def requested_ip_def opts_get_insert)

text \<open>A frame of the client is the packet the server dispatches.\<close>

lemma lan_frame_packet:
  assumes pn: "pnet_documented (lib_pnet E)" and enc: "encodes (lib_dhcproto E) msg payload"
    and small: "length payload \<le> 2006"
    and msg: "msg_opcode msg = BootRequest" "msg_chaddr msg = mac_octets LAN_CLIENT_MAC" "msg_hlen msg = 6"
      "message_type_of msg = Some mt"
  shows "\<exists>frame. lan_frame E msg = Inr frame \<and>
    packet_of E (take BUF_LEN frame) = Some (msg, LAN_CLIENT_MAC, mt)"
proof -
  have "length payload \<le> 65507" using small by simp
  from build_raw_packet_ok [OF pn this] obtain frame where
    f: "build_raw_packet (lib_pnet E) LAN_CLIENT_MAC mac_broadcast (ipv4_new 0 0 0 0) ipv4_broadcast 68 67 payload =
      Inr frame" "length frame = 42 + length payload"
      "eth_view (lib_pnet E) frame = \<lparr>eth_destination = mac_broadcast, eth_source = LAN_CLIENT_MAC,
         eth_ethertype = ethertype_ipv4\<rparr>"
    and ip: "carries_ip (lib_pnet E) (ipv4_new 0 0 0 0) ipv4_broadcast 68 67 payload (eth_payload (lib_pnet E) frame)"
    by blast
  have "take BUF_LEN frame = frame" using f(2) small by (simp add: BUF_LEN_def)
  moreover have "parse_dhcp_payload (lib_pnet E) (lib_dhcproto E) frame SERVER_PORT = Some msg"
    using parse_carried [OF pn _ _ ip] f enc by (simp add: SERVER_PORT_def encodes_def)
  ultimately have "packet_of E (take BUF_LEN frame) = Some (msg, LAN_CLIENT_MAC, mt)"
    using msg f(3) by (simp add: packet_of_def)
  moreover have "lan_frame E msg = Inr frame"
    using enc f(1) by (simp add: lan_frame_def build_dhcp_def encodes_def)
  ultimately show ?thesis by blast
qed

text \<open>What the server sends, the client reads.\<close>

lemma lan_reply_read:
  assumes pn: "pnet_documented (lib_pnet E)" and enc: "encodes (lib_dhcproto E) (reply_message E mt d a config) payload"
  shows "\<exists>frame. send_reply E config mt d client a = Inr [frame] \<and>
    recv_dhcp_packet (lib_pnet E) (lib_dhcproto E) [frame] = Some (reply_message E mt d a config)"
proof -
  let ?dest = "get_dest_mac_ip (msg_broadcast d) client a"
  have "length payload \<le> 65507" using enc by (simp add: encodes_def)
  from build_raw_packet_ok [OF pn this] obtain frame where
    f: "build_raw_packet (lib_pnet E) (cfg_server_mac config) (fst ?dest) (cfg_server_ip config) (snd ?dest)
        SERVER_PORT CLIENT_PORT payload = Inr frame" "length frame = 42 + length payload"
      "eth_view (lib_pnet E) frame = \<lparr>eth_destination = fst ?dest, eth_source = cfg_server_mac config,
         eth_ethertype = ethertype_ipv4\<rparr>"
    and ip: "carries_ip (lib_pnet E) (cfg_server_ip config) (snd ?dest) SERVER_PORT CLIENT_PORT payload
        (eth_payload (lib_pnet E) frame)" by blast
  have "parse_dhcp_payload (lib_pnet E) (lib_dhcproto E) frame CLIENT_PORT = Some (reply_message E mt d a config)"
    using parse_carried [OF pn _ _ ip] f enc by (simp add: encodes_def)
  then have "recv_dhcp_packet (lib_pnet E) (lib_dhcproto E) [frame] = Some (reply_message E mt d a config)"
    using parsed_at_port(1) f(2) by simp
  moreover have "send_reply E config mt d client a = Inr [frame]"
    using enc f(1) by (cases ?dest) (simp add: send_reply_def build_dhcp_reply_payload_def encodes_def)
  ultimately show ?thesis by blast
qed

text \<open>The answer to a first DISCOVER, and to a REQUEST for what it offered.\<close>

lemma discover_first_offer:
  assumes "leases_of T m = None"
    and "next_available_ip (rd_entries rd) (cfg_net config) (cfg_server_ip config) T = (Some a, U)"
    and "send_reply E config Offer dhcp m a = Inr out"
  shows "dispatch E rd config dhcp m Discover T = Inr (out, lease_table_insert m (new_lease rd a) U)"
  using assms by (simp add: dispatch_def handle_dhcp_discover_def table_get)

lemma offered_is_valid:
  assumes inv: "table_inv T" and free: "next_available_ip (rd_entries rd) net (net_addr net) T = (Some a, U)"
    and config: "cfg_net config = net" "cfg_server_ip config = net_addr net" and net: "net_documented net"
  shows "validate_requested_ip clk a m config (lease_table_insert m (new_lease rd a) U)"
proof -
  have U: "table_inv U" "leases_of U = evicted (rd_entries rd) (leases_of T)"
    using lt.inv_fresh [OF inv, of "rd_entries rd" net "net_addr net"]
      lt.leases_fresh [OF inv, of "rd_entries rd" net "net_addr net"] free by simp_all
  have a: "a \<in> set (net_hosts net)" "a \<noteq> net_addr net" "a \<notin> leased_ips (leases_of U)"
    using lt.fresh_SomeD [OF inv, of "rd_entries rd" net "net_addr net" a] free by simp_all
  have "net_contains net a" using net a(1) by (simp add: net_documented_def list_all_iff)
  then show ?thesis
    using a U by (auto simp: validate_iff lt.inv_put lt.leases_put config leased_ips_iff split: if_splits)
qed

lemma request_acknowledged:
  assumes "requested_ip dhcp m T = Some a" and "validate_requested_ip (rd_entries rd) a m config T"
    and "send_reply E config Ack dhcp m a = Inr out"
  shows "dispatch E rd config dhcp m Request T = Inr (out, lease_table_insert m (new_lease rd a) T)"
  using assms by (simp add: dispatch_def handle_dhcp_request_def)

text \<open>C21: The LAN client of the integration test gets a lease from the router. While the DHCP server
  serves and has no lease for the client, its DISCOVER frame is answered with one frame, in which
  the client reads the offer of the first free host under its transaction id, and its REQUEST
  frame for that host with one frame, in which it reads the acknowledgement: the same host, the
  router as gateway and as DNS server, for an hour. The table then holds that lease.\<close>

theorem lan_client_leases_from_router:
  assumes "pnet_documented (lib_pnet E)" and "dhcproto_documented (lib_dhcproto E)" and "net_documented net"
    and "server_reachable E net s t" and "sv_phase s = Serving config fd buf"
    and "leases_of (sv_leases s) LAN_CLIENT_MAC = None"
    and "fst (next_available_ip (rd_entries rd) net (net_addr net) (sv_leases s)) = Some a"
    and "encodes (lib_dhcproto E) (lan_discover (lib_dhcproto E) xid LAN_CLIENT_MAC) pd" and "length pd \<le> 2006"
    and "encodes (lib_dhcproto E) (lan_request (lib_dhcproto E) xid LAN_CLIENT_MAC a LAN_ROUTER_IP) pq"
    and "length pq \<le> 2006"
    and "encodes (lib_dhcproto E)
      (reply_message E Offer (lan_discover (lib_dhcproto E) xid LAN_CLIENT_MAC) a config) po"
    and "encodes (lib_dhcproto E)
      (reply_message E Ack (lan_request (lib_dhcproto E) xid LAN_CLIENT_MAC a LAN_ROUTER_IP) a config) pa"
  shows "\<exists>f1 r1 s1 f2 r2 s2 offer ack.
      lan_frame E (lan_discover (lib_dhcproto E) xid LAN_CLIENT_MAC) = Inr f1
    \<and> server_step E net (Received rd f1) s = Inr ([r1], s1)
    \<and> recv_dhcp_packet (lib_pnet E) (lib_dhcproto E) [r1] = Some offer
    \<and> message_type_of offer = Some Offer \<and> msg_xid offer = xid \<and> msg_yiaddr offer = a
    \<and> lan_frame E (lan_request (lib_dhcproto E) xid LAN_CLIENT_MAC (msg_yiaddr offer) LAN_ROUTER_IP) = Inr f2
    \<and> server_step E net (Received rd' f2) s1 = Inr ([r2], s2)
    \<and> recv_dhcp_packet (lib_pnet E) (lib_dhcproto E) [r2] = Some ack
    \<and> message_type_of ack = Some Ack \<and> msg_xid ack = xid \<and> msg_yiaddr ack = a
    \<and> opts_get ack RouterCode = Some (Router [net_addr net])
    \<and> opts_get ack DomainNameServerCode = Some (DomainNameServer [net_addr net])
    \<and> leases_of (sv_leases s2) LAN_CLIENT_MAC =
        Some \<lparr>lease_ip = a, lease_expiry = rd_stamp rd' + from_secs 3600\<rparr>"
proof -
  let ?dp = "lib_dhcproto E" and ?m = LAN_CLIENT_MAC
  let ?D = "lan_discover ?dp xid ?m" and ?R = "lan_request ?dp xid ?m a LAN_ROUTER_IP"
  note msgs = lan_messages [OF assms(2)]
  from server_reachable_phase [OF assms(4)] assms(5) have c: "length buf = BUF_LEN" "cfg_net config = net"
    "cfg_server_ip config = net_addr net" by (simp_all add: phase_ok_def)
  obtain U where free: "next_available_ip (rd_entries rd) net (net_addr net) (sv_leases s) = (Some a, U)"
    using assms(7) by (metis prod.collapse)
  obtain f1 where f1: "lan_frame E ?D = Inr f1" "packet_of E (take BUF_LEN f1) = Some (?D, ?m, Discover)"
    using lan_frame_packet [OF assms(1,8,9)] msgs by metis
  obtain f2 where f2: "lan_frame E ?R = Inr f2" "packet_of E (take BUF_LEN f2) = Some (?R, ?m, Request)"
    using lan_frame_packet [OF assms(1,10,11)] msgs by metis
  obtain r1 where r1: "send_reply E config Offer ?D ?m a = Inr [r1]"
    "recv_dhcp_packet (lib_pnet E) ?dp [r1] = Some (reply_message E Offer ?D a config)"
    using lan_reply_read [OF assms(1,12)] by blast
  obtain r2 where r2: "send_reply E config Ack ?R ?m a = Inr [r2]"
    "recv_dhcp_packet (lib_pnet E) ?dp [r2] = Some (reply_message E Ack ?R a config)"
    using lan_reply_read [OF assms(1,13)] by blast
  let ?T1 = "lease_table_insert ?m (new_lease rd a) U"
  have "dispatch E rd config ?D ?m Discover (sv_leases s) = Inr ([r1], ?T1)"
    using discover_first_offer assms(6) free r1(1) c by metis
  from received_dispatched [OF assms(5) c(1) f1(2) this] obtain b1 where
    b1: "length b1 = BUF_LEN" "server_step E net (Received rd f1) s =
      Inr ([r1], s\<lparr>sv_phase := Serving config fd b1, sv_leases := ?T1\<rparr>)" by blast
  let ?s1 = "s\<lparr>sv_phase := Serving config fd b1, sv_leases := ?T1\<rparr>"
  have ph1: "sv_phase ?s1 = Serving config fd b1" by simp
  have inv: "table_inv (sv_leases s)" by (rule server_reachable_inv [OF assms(4)])
  have "validate_requested_ip (rd_entries rd') a ?m config ?T1"
    by (rule offered_is_valid [OF inv free c(2,3) assms(3)])
  from request_acknowledged [OF msgs(11) this r2(1)]
  have "dispatch E rd' config ?R ?m Request (sv_leases ?s1) = Inr ([r2], lease_table_insert ?m (new_lease rd' a) ?T1)"
    by simp
  from received_dispatched [OF ph1 b1(1) f2(2) this] obtain b2 where
    b2: "server_step E net (Received rd' f2) ?s1 =
      Inr ([r2], ?s1\<lparr>sv_phase := Serving config fd b2, sv_leases := lease_table_insert ?m (new_lease rd' a) ?T1\<rparr>)"
    by blast
  have "table_inv U" using lt.inv_fresh [OF inv, of "rd_entries rd" net "net_addr net"] free by simp
  then have held: "leases_of (lease_table_insert ?m (new_lease rd' a) ?T1) ?m =
      Some \<lparr>lease_ip = a, lease_expiry = rd_stamp rd' + from_secs 3600\<rparr>"
    by (simp add: lt.leases_put lt.inv_put new_lease_def LAN_LEASE_SECS_def)
  let ?offer = "reply_message E Offer ?D a config" and ?ack = "reply_message E Ack ?R a config"
  have reply: "message_type_of (reply_message E mt d a config) = Some mt"
    "msg_xid (reply_message E mt d a config) = msg_xid d" "msg_yiaddr (reply_message E mt d a config) = a"
    "opts_get (reply_message E mt d a config) RouterCode = Some (Router [net_addr net])"
    "opts_get (reply_message E mt d a config) DomainNameServerCode = Some (DomainNameServer [net_addr net])"
    if "length (msg_chaddr d) \<le> 16" for mt d
    using assms(2) that by (simp_all add: reply_message_def Let_def dhcproto_set_chaddr message_type_of_def
        opts_get_insert c)
  have short: "length (msg_chaddr ?D) \<le> 16" "length (msg_chaddr ?R) \<le> 16" by (simp_all add: msgs)
  let ?s2 = "?s1\<lparr>sv_phase := Serving config fd b2, sv_leases := lease_table_insert ?m (new_lease rd' a) ?T1\<rparr>"
  have "leases_of (sv_leases ?s2) ?m = Some \<lparr>lease_ip = a, lease_expiry = rd_stamp rd' + from_secs 3600\<rparr>"
    using held by simp
  moreover have "lan_frame E (lan_request ?dp xid ?m (msg_yiaddr ?offer) LAN_ROUTER_IP) = Inr f2"
    unfolding reply(3) [OF short(1)] by (rule f2(1))
  moreover have "msg_xid ?offer = xid" "msg_xid ?ack = xid"
    unfolding reply(2) [OF short(1)] reply(2) [OF short(2)] by (rule msgs)+
  ultimately show ?thesis
    using f1(1) b1(2) r1(2) r2(2) b2 reply(1,3) [OF short(1)] reply(1,3-5) [OF short(2)] by blast
qed

definition lan_base :: libs where
  "lan_base = \<lparr>lib_pnet = pnet_wire, lib_dhcproto = play_base\<rparr>"

definition lan_script :: "u8 \<Rightarrow> dhcp_message" where
  "lan_script x =
     (let d = lan_discover play_base 77 LAN_CLIENT_MAC;
          r = lan_request play_base 77 LAN_CLIENT_MAC 2 LAN_ROUTER_IP
      in if x = 1 then d
         else if x = 2 then reply_message lan_base Offer d 2 sample_config
         else if x = 3 then r
         else reply_message lan_base Ack r 2 sample_config)"

definition lan_libs :: libs where
  "lan_libs = \<lparr>lib_pnet = pnet_wire, lib_dhcproto = (scripted_dhcproto lan_script)
     \<lparr>message_encode := (\<lambda>m. Inr [case message_type_of m of
        Some Discover \<Rightarrow> 1 | Some Offer \<Rightarrow> 2 | Some Request \<Rightarrow> 3 | _ \<Rightarrow> 4])\<rparr>\<rparr>"

lemma lan_same:
  "lan_discover (lib_dhcproto lan_libs) = lan_discover play_base"
  "lan_request (lib_dhcproto lan_libs) = lan_request play_base"
  "reply_message lan_libs = reply_message lan_base"
  by (intro ext; simp add: lan_discover_def lan_request_def reply_message_def lan_libs_def lan_base_def
      play_base_def scripted_dhcproto_def)+

lemma lan_documented: "dhcproto_documented (lib_dhcproto lan_libs)" "pnet_documented (lib_pnet lan_libs)"
  "dhcproto_documented (lib_dhcproto lan_base)"
  using scripted_dhcproto_documented [of lan_script] play_documented(2)
  by (simp_all add: dhcproto_documented_def lan_libs_def scripted_dhcproto_def pnet_wire_documented lan_base_def)

lemma lan_encodes:
  "encodes (lib_dhcproto lan_libs) (lan_script 1) [1]" "encodes (lib_dhcproto lan_libs) (lan_script 2) [2]"
  "encodes (lib_dhcproto lan_libs) (lan_script 3) [3]" "encodes (lib_dhcproto lan_libs) (lan_script 4) [4]"
proof -
  have reply: "message_type_of (reply_message lan_base mt d a c) = Some mt" if "length (msg_chaddr d) \<le> 16" for mt d a c
    using lan_documented(3) that
    by (simp add: reply_message_def Let_def dhcproto_set_chaddr message_type_of_def opts_get_insert)
  note msgs = lan_messages [OF play_documented(2)]
  have "message_type_of (lan_script 1) = Some Discover" "message_type_of (lan_script 2) = Some Offer"
    "message_type_of (lan_script 3) = Some Request" "message_type_of (lan_script 4) = Some Ack"
    by (simp_all add: lan_script_def Let_def msgs reply)
  then show "encodes (lib_dhcproto lan_libs) (lan_script 1) [1]" "encodes (lib_dhcproto lan_libs) (lan_script 2) [2]"
    "encodes (lib_dhcproto lan_libs) (lan_script 3) [3]" "encodes (lib_dhcproto lan_libs) (lan_script 4) [4]"
    by (simp_all add: encodes_def lan_libs_def scripted_dhcproto_def)
qed

lemma lan_serving:
  "server_reachable lan_libs sample_net \<lparr>sv_phase = Serving sample_config 5 (replicate BUF_LEN 0),
     sv_leases = lease_table_new, sv_open_fds = {5}\<rparr> 7"
proof -
  have "server_step lan_libs sample_net (Setup (Inr (MacAddr 2 0 0 0 0 9)) (Inr 5) (Inr ()))
      \<lparr>sv_phase = SettingUp, sv_leases = lease_table_new, sv_open_fds = {}\<rparr> =
    Inr ([], \<lparr>sv_phase = Serving sample_config 5 (replicate BUF_LEN 0), sv_leases = lease_table_new,
      sv_open_fds = {5}\<rparr>)"
    by (simp add: setup_server_socket_def sample_config_def sample_net_def)
  from server_reachable.step [OF server_reachable.start _ _ this, of 7 7] show ?thesis by simp
qed

theorem lan_client_leases_from_router_witness:
  "\<exists>f1 r1 s1 f2 r2 s2 ack.
     server_step lan_libs sample_net (Received (readings_at 8) f1)
       \<lparr>sv_phase = Serving sample_config 5 (replicate BUF_LEN 0), sv_leases = lease_table_new, sv_open_fds = {5}\<rparr> =
       Inr ([r1], s1) \<and>
     server_step lan_libs sample_net (Received (readings_at 9) f2) s1 = Inr ([r2], s2) \<and>
     recv_dhcp_packet (lib_pnet lan_libs) (lib_dhcproto lan_libs) [r2] = Some ack \<and> msg_yiaddr ack = 2 \<and>
     leases_of (sv_leases s2) LAN_CLIENT_MAC = Some \<lparr>lease_ip = 2, lease_expiry = 9 + from_secs 3600\<rparr>"
proof -
  let ?s = "\<lparr>sv_phase = Serving sample_config 5 (replicate BUF_LEN 0), sv_leases = lease_table_new,
    sv_open_fds = {5}\<rparr>"
  let ?dp = "lib_dhcproto lan_libs"
  have ph: "sv_phase ?s = Serving sample_config 5 (replicate BUF_LEN 0)" by simp
  have none: "leases_of (sv_leases ?s) LAN_CLIENT_MAC = None"
    by (simp add: leases_of_def lease_table_new_def hm.get_empty)
  have free: "fst (next_available_ip (rd_entries (readings_at 8)) sample_net (net_addr sample_net) (sv_leases ?s)) = Some 2"
    by (simp add: next_available_ip_def evict_expired_def is_ip_available_def sample_net_def lease_table_new_def
        hm_exec)
  have scripts: "lan_script 1 = lan_discover ?dp 77 LAN_CLIENT_MAC"
    "lan_script 3 = lan_request ?dp 77 LAN_CLIENT_MAC 2 LAN_ROUTER_IP"
    "lan_script 2 = reply_message lan_libs Offer (lan_discover ?dp 77 LAN_CLIENT_MAC) 2 sample_config"
    "lan_script 4 = reply_message lan_libs Ack (lan_request ?dp 77 LAN_CLIENT_MAC 2 LAN_ROUTER_IP) 2 sample_config"
    by (simp_all add: lan_script_def lan_same Let_def)
  have short: "length [1 :: u8] \<le> 2006" "length [3 :: u8] \<le> 2006" by simp_all
  from lan_client_leases_from_router [OF lan_documented(2,1) sample_net_documented lan_serving ph none free
      lan_encodes(1) [unfolded scripts(1)] short(1) lan_encodes(3) [unfolded scripts(2)] short(2)
      lan_encodes(2) [unfolded scripts(3)] lan_encodes(4) [unfolded scripts(4)], of "readings_at 9"]
  show ?thesis unfolding readings_at_simps by blast
qed

section \<open>UDP frames\<close>

text \<open>The UDP block of \<open>build_udp_packet\<close>: that of \<open>build_raw_packet\<close>, and a checksum of 0.\<close>

definition write_udp_unchecked :: "pnet \<Rightarrow> u16 \<Rightarrow> u16 \<Rightarrow> bytes \<Rightarrow> bytes \<Rightarrow> bytes outcome" where
  "write_udp_unchecked pn src_port dest_port payload b =
     obind (write_udp pn src_port dest_port payload b) (\<lambda>udp.
       Inr (udp_set pn (\<lambda>h. h\<lparr>udp_checksum := 0\<rparr>) udp))"

definition build_udp_packet ::
  "pnet \<Rightarrow> mac \<Rightarrow> mac \<Rightarrow> ipv4 \<Rightarrow> ipv4 \<Rightarrow> u16 \<Rightarrow> u16 \<Rightarrow> bytes \<Rightarrow> bytes outcome" where
  "build_udp_packet pn src_mac dest_mac src_ip dest_ip src_port dest_port payload =
     build_packet pn (write_udp_unchecked pn src_port dest_port payload) src_mac dest_mac src_ip dest_ip payload"

type_synonym udp_fields = "ipv4 \<times> ipv4 \<times> u16 \<times> u16 \<times> bytes"

definition parse_udp_packet :: "pnet \<Rightarrow> bytes \<Rightarrow> string + udp_fields option" where
  "parse_udp_packet pn frame =
     (if length frame < 42 then Inr None
      else (case eth_new pn frame of None \<Rightarrow> Inl ''Malformed Ethernet frame'' | Some eth \<Rightarrow>
      if eth_ethertype (eth_view pn eth) \<noteq> ethertype_ipv4 then Inr None
      else (case ip_new pn (eth_payload pn eth) of None \<Rightarrow> Inl ''Malformed IPv4 packet'' | Some ip \<Rightarrow>
      if ip_protocol (ip_view pn ip) \<noteq> protocol_udp then Inr None
      else (case udp_new pn (ip_payload pn ip) of None \<Rightarrow> Inl ''Malformed UDP packet'' | Some udp \<Rightarrow>
      Inr (Some (ip_source (ip_view pn ip), ip_destination (ip_view pn ip),
        udp_source (udp_view pn udp), udp_destination (udp_view pn udp), udp_payload pn udp))))))"

text \<open>\<open>.ok().flatten()\<close>\<close>

definition ok_flatten :: "'e + 'a option \<Rightarrow> 'a option" where
  "ok_flatten r = (case r of Inl e \<Rightarrow> None | Inr x \<Rightarrow> x)"

lemma write_udp_unchecked_ok:
  assumes "pnet_documented pn" and "length b = 8 + length payload"
  shows "\<exists>u. write_udp_unchecked pn src_port dest_port payload b = Inr u \<and>
    carries_udp pn src_port dest_port payload u"
proof -
  from write_udp_ok [OF assms] obtain u where u: "write_udp pn src_port dest_port payload b = Inr u"
    "carries_udp pn src_port dest_port payload u" by blast
  then have "8 \<le> length u" by (simp add: carries_udp_def)
  with u assms(1) show ?thesis by (simp add: write_udp_unchecked_def carries_udp_def wire_simps)
qed

text \<open>A frame the test builds is read back by the test.\<close>

lemma build_udp_packet_read:
  assumes pn: "pnet_documented pn" and "length payload \<le> 65507"
  shows "\<exists>frame. build_udp_packet pn src_mac dest_mac src_ip dest_ip src_port dest_port payload = Inr frame \<and>
    parse_udp_packet pn frame = Inr (Some (src_ip, dest_ip, src_port, dest_port, payload))"
proof -
  from build_packet_ok [where udp_block = "write_udp_unchecked pn src_port dest_port payload",
      OF assms write_udp_unchecked_ok [OF pn]] obtain frame where
    "build_packet pn (write_udp_unchecked pn src_port dest_port payload) src_mac dest_mac src_ip dest_ip payload =
      Inr frame" "length frame = 42 + length payload"
    "eth_view pn frame = \<lparr>eth_destination = dest_mac, eth_source = src_mac, eth_ethertype = ethertype_ipv4\<rparr>"
    "carries_ip pn src_ip dest_ip src_port dest_port payload (eth_payload pn frame)" by blast
  with pn show ?thesis
    by (simp add: build_udp_packet_def parse_udp_packet_def eth_new_def ip_new_def udp_new_def
        carries_ip_def carries_udp_def)
qed

section \<open>The provider's DNS and NTP\<close>

definition DNS_QUERY :: bytes where
  "DNS_QUERY = [0x1a, 0x1a, 0x01, 0x00, 0x00, 0x01, 0x00, 0x00, 0x00, 0x00, 0x00, 0x00,
     0x06, 103, 111, 111, 103, 108, 101, 0x03, 99, 111, 109, 0x00, 0x00, 0x01, 0x00, 0x01]"

definition DNS_RESPONSE :: bytes where
  "DNS_RESPONSE = [0x1a, 0x1a, 0x81, 0x80, 0x00, 0x01, 0x00, 0x01, 0x00, 0x00, 0x00, 0x00,
     0x06, 103, 111, 111, 103, 108, 101, 0x03, 99, 111, 109, 0x00, 0x00, 0x01, 0x00, 0x01,
     0xc0, 0x0c, 0x00, 0x01, 0x00, 0x01, 0x00, 0x00, 0x00, 0x3c, 0x00, 0x04, 0x08, 0x08, 0x08, 0x08]"

text \<open>
  A branch of the event loop answers \<open>None\<close> if it is not taken, or the frames sent and what is
  told to the test.
\<close>

definition isp_dns :: "pnet \<Rightarrow> mac \<Rightarrow> bytes \<Rightarrow> (bytes list \<times> string list) outcome option" where
  "isp_dns pn client_mac frame =
     (case ok_flatten (parse_udp_packet pn frame) of
        None \<Rightarrow> None
      | Some (src_ip, dest_ip, src_port, dest_port, payload) \<Rightarrow>
          if dest_ip = ISP_DNS_SERVER \<and> dest_port = 53
          then Some (let told = (if src_ip = ISP_CLIENT_IP \<and> length payload \<ge> 2 \<and> drop 2 payload = drop 2 DNS_QUERY
                                 then [''DNS_VERIFIED''] else [])
                     in obind (if length payload \<ge> 2
                               then obind (index_set DNS_RESPONSE 0 (payload ! 0)) (\<lambda>r. index_set r 1 (payload ! 1))
                               else Inr DNS_RESPONSE) (\<lambda>response_payload.
                        obind (build_udp_packet pn ISP_SERVER_MAC client_mac dest_ip src_ip dest_port src_port
                          response_payload) (\<lambda>dns_reply. Inr ([dns_reply], told))))
          else None)"

text \<open>The answer to an NTP request at \<open>now\<close> seconds since the epoch.\<close>

definition ntp_response :: "nat \<Rightarrow> bytes \<Rightarrow> bytes" where
  "ntp_response now payload =
     (let resp = replicate 48 0;
          resp = resp[0 := 0x24];
          resp = resp[1 := 0x01];
          resp = (if length payload \<ge> 48 then take 24 resp @ take 8 (drop 40 payload) @ drop 32 resp else resp);
          ntp_secs = now + 2208988800;
          secs_bytes = u32_to_be_bytes (of_nat ntp_secs);
          resp = resp[40 := secs_bytes ! 0];
          resp = resp[41 := secs_bytes ! 1];
          resp = resp[42 := secs_bytes ! 2]
      in resp[43 := secs_bytes ! 3])"

definition isp_ntp :: "pnet \<Rightarrow> nat \<Rightarrow> mac \<Rightarrow> bytes \<Rightarrow> (bytes list \<times> string list) outcome option" where
  "isp_ntp pn now client_mac frame =
     (case ok_flatten (parse_udp_packet pn frame) of
        None \<Rightarrow> None
      | Some (src_ip, dest_ip, src_port, dest_port, payload) \<Rightarrow>
          if dest_port = 123
          then Some (obind (build_udp_packet pn ISP_SERVER_MAC client_mac dest_ip src_ip dest_port src_port
                 (ntp_response now payload)) (\<lambda>ntp_reply. Inr ([ntp_reply], [''NTP_VERIFIED''])))
          else None)"

text \<open>
  One turn of the loop on a frame that is neither ARP nor ICMP: the branches C, E and D in the
  order of the code. Sending a frame succeeds.
\<close>

definition isp_serves :: "libs \<Rightarrow> nat \<Rightarrow> mac \<Rightarrow> bytes \<Rightarrow> (bytes list \<times> string list) outcome" where
  "isp_serves E now client_mac frame =
     (case isp_dns (lib_pnet E) client_mac frame of
        Some r \<Rightarrow> r
      | None \<Rightarrow> (case isp_ntp (lib_pnet E) now client_mac frame of
          Some r \<Rightarrow> r
        | None \<Rightarrow> isp_renewal E client_mac frame))"

lemma isp_answers_query:
  assumes pn: "pnet_documented (lib_pnet E)"
    and f: "parse_udp_packet (lib_pnet E) f =
      Inr (Some (ISP_CLIENT_IP, ISP_DNS_SERVER, port, 53, a # b # drop 2 DNS_QUERY))"
  shows "\<exists>reply. isp_serves E now m f = Inr ([reply], [''DNS_VERIFIED'']) \<and>
    parse_udp_packet (lib_pnet E) reply =
      Inr (Some (ISP_DNS_SERVER, ISP_CLIENT_IP, 53, port, a # b # drop 2 DNS_RESPONSE))"
proof -
  let ?r = "a # b # drop 2 DNS_RESPONSE"
  have r: "obind (index_set DNS_RESPONSE 0 a) (\<lambda>r. index_set r 1 b) = Inr ?r" "length ?r \<le> 65507"
    by (simp_all add: DNS_RESPONSE_def)
  from build_udp_packet_read [OF pn r(2), of ISP_SERVER_MAC m ISP_DNS_SERVER ISP_CLIENT_IP 53 port]
  obtain reply where "build_udp_packet (lib_pnet E) ISP_SERVER_MAC m ISP_DNS_SERVER ISP_CLIENT_IP 53 port ?r = Inr reply"
    "parse_udp_packet (lib_pnet E) reply = Inr (Some (ISP_DNS_SERVER, ISP_CLIENT_IP, 53, port, ?r))" by blast
  with f r(1) show ?thesis by (simp add: isp_serves_def isp_dns_def ok_flatten_def)
qed

section \<open>A name is looked up through the router\<close>

text \<open>C12: A DNS query crosses the router and its answer comes back. The frame the test's LAN client
  sends carries its query to port 53 of the router. When the forwarder, bound to the provider's
  lease, handles it with an empty cache entry and room in the registry, it sends the query on to
  10.0.2.3 under a drawn id; the provider, when that reaches it in a frame from the router's WAN
  address, recognises the query and answers under that id; and when that answer reaches the
  forwarder, the client's port gets exactly the response the test expects, under the id the
  client chose, and the forwarder is rid of the query.\<close>

theorem dns_query_crosses_router:
  assumes "pnet_documented (lib_pnet E)" and "dns_run parse evs s" and "ds_lease s = lease_of_ack isp_lease"
    and "get_cache_key parse DNS_QUERY = Some k" and "fst (lookup_cache now k (ds_cache s)) = None"
    and "hm_len (ds_pending s) < MAX_PENDING_QUERIES" and "hm_get (ds_pending s) x = None"
    and "parse_udp_packet (lib_pnet E) f = Inr (Some (ISP_CLIENT_IP, ISP_DNS_SERVER, port, 53,
           u16_to_be_bytes x @ drop 2 DNS_QUERY))"
  shows "\<exists>query reply resp.
      build_udp_packet (lib_pnet E) LAN_CLIENT_MAC router_mac leased LAN_ROUTER_IP 12345 53 DNS_QUERY = Inr query
    \<and> parse_udp_packet (lib_pnet E) query = Inr (Some (leased, LAN_ROUTER_IP, 12345, 53, DNS_QUERY))
    \<and> isp_serves E secs m f = Inr ([reply], [''DNS_VERIFIED''])
    \<and> parse_udp_packet (lib_pnet E) reply = Inr (Some (ISP_DNS_SERVER, ISP_CLIENT_IP, 53, port, resp))
    \<and> run_outputs (dns_step parse)
        (query_course (ds_next s) DNS_QUERY (leased, 12345) now x resp ISP_DNS_SERVER now') s =
      [SendUpstream (u16_to_be_bytes x @ drop 2 DNS_QUERY) ISP_DNS_SERVER, Answer DNS_RESPONSE (leased, 12345)]
    \<and> ds_tasks (run_events (dns_step parse)
        (query_course (ds_next s) DNS_QUERY (leased, 12345) now x resp ISP_DNS_SERVER now') s) (ds_next s) = None"
proof -
  obtain a b where ab: "u16_to_be_bytes x = [a, b]" by (simp add: u16_to_be_bytes_def)
  let ?resp = "a # b # drop 2 DNS_RESPONSE"
  have q: "DNS_HEADER_SIZE \<le> length DNS_QUERY" "length DNS_QUERY \<le> RECV_BUF_SIZE" "length DNS_QUERY \<le> 65507"
    by (simp_all add: DNS_QUERY_def DNS_HEADER_SIZE_def RECV_BUF_SIZE_def)
  have r: "DNS_HEADER_SIZE \<le> length ?resp" "length ?resp \<le> RECV_BUF_SIZE" "read_xid ?resp = x"
    using ab by (auto simp: DNS_RESPONSE_def DNS_HEADER_SIZE_def RECV_BUF_SIZE_def u16_to_be_bytes_def)
  have up: "get_upstream_dns (ds_lease s) = ISP_DNS_SERVER"
    by (simp add: assms(3) get_upstream_dns_def lease_of_ack_def isp_lease_def)
  have answer: "take 2 DNS_QUERY @ drop 2 ?resp = DNS_RESPONSE"
    by (simp add: DNS_QUERY_def DNS_RESPONSE_def)
  obtain query where
    "build_udp_packet (lib_pnet E) LAN_CLIENT_MAC router_mac leased LAN_ROUTER_IP 12345 53 DNS_QUERY = Inr query"
    "parse_udp_packet (lib_pnet E) query = Inr (Some (leased, LAN_ROUTER_IP, 12345, 53, DNS_QUERY))"
    using build_udp_packet_read [OF assms(1) q(3)] by blast
  moreover obtain reply where "isp_serves E secs m f = Inr ([reply], [''DNS_VERIFIED''])"
    "parse_udp_packet (lib_pnet E) reply = Inr (Some (ISP_DNS_SERVER, ISP_CLIENT_IP, 53, port, ?resp))"
    using isp_answers_query [OF assms(1), of f port a b] assms(8) by (auto simp: ab)
  moreover note run = query_course_run [OF assms(2) q(1,2) assms(4-7) r, of "(leased, 12345)" now',
      unfolded up answer]
  ultimately show ?thesis
    by (intro exI [of _ query] exI [of _ reply] exI [of _ ?resp] conjI) (simp_all add: ab run)
qed

text \<open>The client's frame as the kernel forwards it.\<close>

theorem dns_query_crosses_router_witness:
  "\<exists>f reply resp. isp_serves lan_libs 0 client_a f = Inr ([reply], [''DNS_VERIFIED'']) \<and>
     run_outputs (dns_step sample_parse)
       (query_course 0 DNS_QUERY (ipv4_new 192 168 1 2, 12345) 5 300 resp ISP_DNS_SERVER 6)
       (dns_start\<lparr>ds_lease := lease_of_ack isp_lease\<rparr>) =
     [SendUpstream ([1, 44] @ drop 2 DNS_QUERY) ISP_DNS_SERVER, Answer DNS_RESPONSE (ipv4_new 192 168 1 2, 12345)]"
proof -
  let ?s = "dns_start\<lparr>ds_lease := lease_of_ack isp_lease\<rparr>"
  have run: "dns_run sample_parse [EvLease (lease_of_ack isp_lease)] ?s"
    by (rule dns_run.step [OF dns_run.start]) (simp add: dns_step_def)
  have key: "get_cache_key sample_parse DNS_QUERY = Some ''b:A:IN''"
    by (simp add: get_cache_key_def sample_parse_def sample_question_def DNS_QUERY_def)
  have miss: "fst (lookup_cache 5 ''b:A:IN'' (ds_cache ?s)) = None"
    and free: "hm_len (ds_pending ?s) < MAX_PENDING_QUERIES" "hm_get (ds_pending ?s) 300 = None"
    by (simp_all add: dns_start_def lookup_cache_def hm_exec MAX_PENDING_QUERIES_def)
  have id: "u16_to_be_bytes (300 :: u16) = [1, 44]" by (simp add: u16_to_be_bytes_def)
  have "length ([1, 44] @ drop 2 DNS_QUERY) \<le> 65507" by (simp add: DNS_QUERY_def)
  from build_udp_packet_read [OF lan_documented(2) this, of client_a client_b ISP_CLIENT_IP ISP_DNS_SERVER 40000 53]
  obtain f where f: "parse_udp_packet (lib_pnet lan_libs) f = Inr (Some (ISP_CLIENT_IP, ISP_DNS_SERVER, 40000, 53,
      u16_to_be_bytes 300 @ drop 2 DNS_QUERY))" by (auto simp: id)
  have "ds_next ?s = 0" by (simp add: dns_start_def)
  with dns_query_crosses_router [OF lan_documented(2) run _ key miss free f, of client_b "ipv4_new 192 168 1 2" 0 client_a 6]
  show ?thesis by (auto simp: id)
qed

section \<open>A frame that stops the provider\<close>

text \<open>The last branch unwraps what the others check: an IPv4 frame too short for its header makes
  the provider panic instead of being skipped.\<close>

theorem runt_frame_stops_provider:
  assumes "pnet_documented (lib_pnet E)" and "14 \<le> length f" and "length f < 34"
    and "eth_ethertype (eth_view (lib_pnet E) f) = ethertype_ipv4"
  shows "isp_serves E now m f = Inl UnwrapOnNone"
proof -
  have "length (eth_payload (lib_pnet E) f) < 20" using assms(1-3) by (simp add: wire_simps)
  with assms show ?thesis
    by (simp add: isp_serves_def isp_dns_def isp_ntp_def ok_flatten_def parse_udp_packet_def isp_renewal_def
        eth_new_def ip_new_def unwrap_def)
qed

theorem runt_frame_stops_provider_witness:
  "isp_serves lan_libs 0 client_a (take 20 (sample_frame client_a 1)) = Inl UnwrapOnNone"
proof -
  have "eth_ethertype (eth_view (lib_pnet lan_libs) (take 20 (sample_frame client_a 1))) = ethertype_ipv4"
    by (simp add: lan_libs_def pnet_wire_def wire_eth_view_def sample_frame_def mac_broadcast_def client_a_def
        u16_at_def u16_from_be_bytes_def ethertype_ipv4_def)
  then show ?thesis
    by (intro runt_frame_stops_provider [OF lan_documented(2)]) simp_all
qed

end
