(* ===== verification/Map_Order.thy ===== *)
theory Map_Order
  imports Dhcp_Server "HOL-Library.Multiset" "HOL-Library.List_Lexorder"
begin

text \<open>
  A \<open>HashMap\<close> has no order the program may rely on; the model holds one as a list of entries. This
  theory shows that nothing the DHCP server does depends on which list it is: tables whose entries
  are permuted stay so, and the frames sent are the same. MAC addresses are ordered by their
  octets, as \<open>derive(Ord)\<close> orders \<open>pnet::util::MacAddr\<close>, which gives each table one canonical list.
\<close>

section \<open>The order of MAC addresses\<close>

instantiation mac :: linorder
begin

definition less_eq_mac :: "mac \<Rightarrow> mac \<Rightarrow> bool" where
  "less_eq_mac m m' \<longleftrightarrow> mac_octets m \<le> mac_octets m'"

definition less_mac :: "mac \<Rightarrow> mac \<Rightarrow> bool" where
  "less_mac m m' \<longleftrightarrow> mac_octets m < mac_octets m'"

instance
proof
  fix m m' m'' :: mac
  show "m < m' \<longleftrightarrow> m \<le> m' \<and> \<not> m' \<le> m"
    unfolding less_eq_mac_def less_mac_def by (rule less_le_not_le)
  show "m \<le> m" by (simp add: less_eq_mac_def)
  show "m \<le> m' \<Longrightarrow> m' \<le> m'' \<Longrightarrow> m \<le> m''" unfolding less_eq_mac_def by (rule order_trans)
  show "m \<le> m' \<or> m' \<le> m" unfolding less_eq_mac_def by (rule linear)
  assume "m \<le> m'" "m' \<le> m"
  then have "mac_octets m = mac_octets m'" unfolding less_eq_mac_def by (rule order_antisym)
  then show "m = m'" by (metis mac_of_octets_octets option.inject)
qed

end

section \<open>Canonical maps\<close>

definition canonical :: "(mac, 'v) hmap \<Rightarrow> (mac, 'v) hmap" where
  "canonical m = sort_key fst m"

lemma mset_canonical [simp]: "mset (canonical m) = mset m"
  by (simp add: canonical_def)

lemma set_canonical [simp]: "set (canonical m) = set m"
  by (simp add: canonical_def)

lemma hm_ok_mset: "mset m = mset m' \<Longrightarrow> hm_ok m \<longleftrightarrow> hm_ok m'"
  unfolding hm_ok_def by (metis mset_map mset_eq_imp_distinct_iff)

lemma hm_ok_canonical [simp]: "hm_ok (canonical m) \<longleftrightarrow> hm_ok m"
  by (rule hm_ok_mset) simp

lemma hm_get_set_eq:
  assumes "hm_ok m" and "hm_ok m'" and "set m = set m'"
  shows "hm_get m = hm_get m'"
proof
  fix k
  from hm.iter_get [OF assms(1)] hm.iter_get [OF assms(2)] assms(3)
  have "\<And>v. hm_get m k = Some v \<longleftrightarrow> hm_get m' k = Some v" by auto
  then show "hm_get m k = hm_get m' k" by (metis not_Some_eq)
qed

lemma hm_get_canonical: "hm_ok m \<Longrightarrow> hm_get (canonical m) = hm_get m"
  by (rule hm_get_set_eq) simp_all

text \<open>Maps with the same entries have the same canonical list, and conversely.\<close>

lemma canonical_eq_iff:
  assumes "hm_ok m" and "hm_ok m'"
  shows "canonical m = canonical m' \<longleftrightarrow> hm_get m = hm_get m'"
proof
  assume "canonical m = canonical m'"
  with assms show "hm_get m = hm_get m'" by (metis hm_get_canonical)
next
  assume eq: "hm_get m = hm_get m'"
  have "set m = set m'" using hm.iter_get [OF assms(1)] hm.iter_get [OF assms(2)] eq by simp
  moreover have "distinct m" "distinct m'" using assms by (auto simp: hm_ok_def distinct_map)
  ultimately have "mset m = mset m'" by (simp add: set_eq_iff_mset_eq_distinct)
  then have "mset m = mset (canonical m')" by simp
  moreover have "inj_on fst (set m)" using assms(1) by (simp add: hm_ok_def distinct_map)
  moreover have "sorted (map fst (canonical m'))" by (simp add: canonical_def)
  ultimately show "canonical m = canonical m'"
    unfolding canonical_def [of m] by (rule sort_key_inj_key_eq)
qed

section \<open>Tables with the same entries\<close>

definition same_table :: "lease_table \<Rightarrow> lease_table \<Rightarrow> bool" where
  "same_table T U \<longleftrightarrow> table_inv T \<and> table_inv U \<and> leases_of T = leases_of U \<and> allocated_ips T = allocated_ips U"

lemma same_tableD:
  assumes "same_table T U"
  shows "table_inv T" "table_inv U" "leases_of T = leases_of U" "allocated_ips T = allocated_ips U"
    "lease_table_get T = lease_table_get U"
  using assms by (simp_all add: same_table_def lease_table_get_def leases_of_def fun_eq_iff)

lemma same_table_insert:
  "same_table T U \<Longrightarrow> same_table (lease_table_insert m l T) (lease_table_insert m l U)"
  by (auto simp: same_table_def lt.inv_put lt.leases_put) 
    (auto simp: lease_table_insert_def leases_of_def Let_def fun_eq_iff split: option.splits)

lemma same_table_remove:
  "same_table T U \<Longrightarrow> same_table (snd (lease_table_remove m T)) (snd (lease_table_remove m U))"
  by (auto simp: same_table_def lt.inv_take_out lt.leases_take_out)
    (auto simp: lease_table_remove_def leases_of_def fun_eq_iff split: option.splits)

lemma same_table_taken:
  "same_table T U \<Longrightarrow> is_ip_taken_by_other clk T a m = is_ip_taken_by_other clk U a m"
  by (simp add: same_table_def lt.taken_iff)

lemma same_table_next:
  assumes "same_table T U"
  shows "fst (next_available_ip clk net a T) = fst (next_available_ip clk net a U)"
    and "same_table (snd (next_available_ip clk net a T)) (snd (next_available_ip clk net a U))"
  using same_tableD [OF assms]
  by (simp_all add: next_available_ip_eq same_table_def lt.fresh_eq table_inv_evict allocated_evict
      leases_of_evict)

section \<open>The server does not see the order\<close>

fun same_result :: "('a \<times> lease_table) outcome \<Rightarrow> ('a \<times> lease_table) outcome \<Rightarrow> bool" where
  "same_result (Inl e) (Inl e') \<longleftrightarrow> e = e'"
| "same_result (Inr (out, T)) (Inr (out', U)) \<longleftrightarrow> out = out' \<and> same_table T U"
| "same_result _ _ \<longleftrightarrow> False"

lemma same_result_sent:
  "same_table T U \<Longrightarrow> same_result (obind x (\<lambda>out. Inr (out, T))) (obind x (\<lambda>out. Inr (out, U)))"
  by (cases x) simp_all

lemma same_discover:
  assumes "same_table T U"
  shows "same_result (handle_dhcp_discover E rd config dhcp m T) (handle_dhcp_discover E rd config dhcp m U)"
proof (cases "lease_table_get U m")
  case (Some l)
  with same_tableD(5) [OF assms] show ?thesis
    by (simp add: handle_dhcp_discover_def same_result_sent [OF assms])
next
  case None
  let ?next = "next_available_ip (rd_entries rd) (cfg_net config) (cfg_server_ip config)"
  obtain x T' where T': "?next T = (x, T')" by (cases "?next T")
  then obtain U' where U': "?next U = (x, U')" and same: "same_table T' U'"
    using same_table_next [OF assms, of "rd_entries rd" "cfg_net config" "cfg_server_ip config"]
    by (cases "?next U") simp
  from None same_tableD(5) [OF assms] T' U' show ?thesis
    by (cases x) (simp_all add: handle_dhcp_discover_def same same_result_sent same_table_insert)
qed

lemma same_request:
  assumes "same_table T U"
  shows "same_result (handle_dhcp_request E rd config dhcp m T) (handle_dhcp_request E rd config dhcp m U)"
proof -
  have "requested_ip dhcp m T = requested_ip dhcp m U"
    unfolding requested_ip_def same_tableD(5) [OF assms] ..
  moreover have "validate_requested_ip clk a m config T = validate_requested_ip clk a m config U" for clk a
    by (simp add: validate_requested_ip_def same_table_taken [OF assms])
  ultimately show ?thesis
    using assms by (simp add: handle_dhcp_request_def Let_def same_result_sent same_table_insert
        split: option.split)
qed

lemma same_dispatch:
  "same_table T U \<Longrightarrow> same_result (dispatch E rd config dhcp m mt T) (dispatch E rd config dhcp m mt U)"
  by (cases mt) (simp_all add: dispatch_def handle_dhcp_decline_def handle_dhcp_release_def same_discover
      same_request same_table_remove)

lemma same_process:
  assumes "same_table T U"
  shows "same_result (process_incoming_packet E rd config n buf T) (process_incoming_packet E rd config n buf U)"
  unfolding process_incoming_packet_def
  by (cases "slice_to buf n") (auto simp: assms same_dispatch Let_def obind_def
      split: option.split sum.split)

text \<open>States that differ in the lists of their tables only.\<close>

definition same_state :: "server_state \<Rightarrow> server_state \<Rightarrow> bool" where
  "same_state s u \<longleftrightarrow> sv_phase s = sv_phase u \<and> sv_open_fds s = sv_open_fds u \<and>
     same_table (sv_leases s) (sv_leases u)"

lemma same_step:
  assumes "same_state s u"
  shows "(case (server_step E net ev s, server_step E net ev u) of
      (Inr (out, s'), Inr (out', u')) \<Rightarrow> out = out' \<and> same_state s' u'
    | (Inl e, Inl e') \<Rightarrow> e = e' | _ \<Rightarrow> False)"
proof (cases ev)
  case (Received rd frame)
  show ?thesis
  proof (cases "sv_phase u")
    case (Serving config fd buf)
    let ?n = "min (length frame) (length buf)" and ?b = "take (min (length frame) (length buf)) frame @
        drop (min (length frame) (length buf)) buf"
    have "same_result (process_incoming_packet E rd config ?n ?b (sv_leases s))
        (process_incoming_packet E rd config ?n ?b (sv_leases u))"
      using assms by (simp add: same_state_def same_process)
    then show ?thesis
      using assms Serving Received
      by (cases rule: same_result.elims(2)) (simp_all add: same_state_def Let_def)
  qed (use assms Received in \<open>simp add: same_state_def\<close>)
qed (use assms in \<open>auto simp: same_state_def Let_def split: server_phase.split sum.split prod.split\<close>)

section \<open>Runs\<close>

text \<open>A run of the server: the frames each event sends, unless it panics.\<close>

fun serve_all :: "libs \<Rightarrow> ipv4_net \<Rightarrow> server_event list \<Rightarrow> server_state \<Rightarrow>
    (bytes list list \<times> server_state) outcome" where
  "serve_all E net [] s = Inr ([], s)"
| "serve_all E net (ev # evs) s =
     obind (server_step E net ev s) (\<lambda>(out, s').
       obind (serve_all E net evs s') (\<lambda>(outs, s''). Inr (out # outs, s'')))"

definition reordered :: "(mac, client_lease) hmap \<Rightarrow> server_state \<Rightarrow> server_state" where
  "reordered xs s = s\<lparr>sv_leases := (sv_leases s)\<lparr>by_mac := xs\<rparr>\<rparr>"

definition canonical_state :: "server_state \<Rightarrow> server_state" where
  "canonical_state s = reordered (canonical (by_mac (sv_leases s))) s"

lemma same_state_canonical: "same_state s u \<Longrightarrow> canonical_state s = canonical_state u"
proof -
  assume same: "same_state s u"
  then have "canonical (by_mac (sv_leases s)) = canonical (by_mac (sv_leases u))"
    by (intro canonical_eq_iff [THEN iffD2])
      (simp_all add: same_state_def same_table_def table_inv_ok leases_of_def)
  with same show ?thesis
    by (simp add: canonical_state_def reordered_def same_state_def same_table_def)
qed

lemma same_state_reordered:
  assumes "table_inv (sv_leases s)" and "mset xs = mset (by_mac (sv_leases s))"
  shows "same_state (reordered xs s) s"
proof -
  have ok: "hm_ok (by_mac (sv_leases s))" using assms(1) by (rule table_inv_ok)
  then have "hm_ok xs" using hm_ok_mset [OF assms(2)] by simp
  moreover have "hm_get xs = hm_get (by_mac (sv_leases s))"
    by (rule hm_get_set_eq [OF calculation ok mset_eq_setD [OF assms(2)]])
  ultimately show ?thesis
    using assms(1) by (simp add: same_state_def reordered_def same_table_def table_inv_def leases_of_def)
qed

text \<open>What is observed of a run: the frames, and the state with its table in canonical order.\<close>

definition observed :: "('a \<times> server_state) outcome \<Rightarrow> ('a \<times> server_state) outcome" where
  "observed r = obind r (\<lambda>(out, s). Inr (out, canonical_state s))"

lemma observed_cons: "observed (obind r (\<lambda>(outs, s). Inr (out # outs, s))) =
    obind (observed r) (\<lambda>(outs, s). Inr (out # outs, s))"
  by (cases r) (auto simp: observed_def)

lemma same_runs: "same_state s u \<Longrightarrow> observed (serve_all E net evs s) = observed (serve_all E net evs u)"
proof (induction evs arbitrary: s u)
  case Nil
  then show ?case by (simp add: observed_def same_state_canonical)
next
  case (Cons ev evs)
  show ?case
  proof (cases "server_step E net ev s")
    case (Inl e)
    with same_step [OF Cons.prems, of E net ev] show ?thesis
      by (cases "server_step E net ev u") (auto simp: observed_def split: prod.splits)
  next
    case (Inr x)
    then obtain out s' u' where steps: "server_step E net ev s = Inr (out, s')"
      "server_step E net ev u = Inr (out, u')" and same: "same_state s' u'"
      using same_step [OF Cons.prems, of E net ev]
      by (cases x; cases "server_step E net ev u") auto
    from Cons.IH [OF same] show ?thesis by (simp add: steps observed_cons)
  qed
qed

text \<open>C27: The order of the hash map of leases is never seen. Take a reachable state and put the
  entries of the map in any other order: over every sequence of events the server sends the same
  frames in the same order, panics in the same place if at all, and ends with the same map, the
  same index of addresses and the same sockets.\<close>

theorem map_order_is_irrelevant:
  assumes "server_reachable E net s t" and "mset xs = mset (by_mac (sv_leases s))"
  shows "observed (serve_all E net evs (reordered xs s)) = observed (serve_all E net evs s)"
  using same_state_reordered [OF server_reachable_inv [OF assms(1)] assms(2)] by (rule same_runs)

theorem map_order_is_irrelevant_witness:
  "\<exists>s. sv_leases s = lease_table_insert client_b (new_lease (readings_at 8) 3) sample_table \<and>
     rev (by_mac (sv_leases s)) \<noteq> by_mac (sv_leases s) \<and>
     observed (serve_all sample_libs sample_net [Received (readings_at 9) (sample_frame client_a 5)]
       (reordered (rev (by_mac (sv_leases s))) s)) =
     observed (serve_all sample_libs sample_net [Received (readings_at 9) (sample_frame client_a 5)] s)"
proof -
  let ?T = "lease_table_insert client_b (new_lease (readings_at 8) 3) sample_table"
  obtain s where at: "sample_at s 7 sample_table" using sample_at_table by blast
  have "validate_requested_ip (rd_entries (readings_at 8)) 3 client_b sample_config sample_table"
    by (simp add: sample_validate leases_of_sample new_lease_def)
  from sample_grant [OF this] obtain out where
    "dispatch sample_libs (readings_at 8) sample_config (sample_message Request client_b 3) client_b
       Request sample_table = Inr (out, ?T)" by blast
  from sample_at_step [OF at _ this, of 2] obtain s' where "sample_at s' 8 ?T"
    by (auto simp: sample_script_def)
  then have r: "server_reachable sample_libs sample_net s' 8" and T: "sv_leases s' = ?T"
    by (simp_all add: sample_at_def)
  have "rev (by_mac ?T) \<noteq> by_mac ?T"
    by (simp add: sample_table_def lease_table_insert_def lease_table_new_def Let_def hm_exec)
  moreover have "observed (serve_all sample_libs sample_net [Received (readings_at 9) (sample_frame client_a 5)]
      (reordered (rev (by_mac (sv_leases s'))) s')) =
    observed (serve_all sample_libs sample_net [Received (readings_at 9) (sample_frame client_a 5)] s')"
    by (rule map_order_is_irrelevant [OF r]) simp
  ultimately show ?thesis using T by metis
qed

end
