(* ===== verification/Spec2Isabelle.thy ===== *)
theory Spec2Isabelle
  imports Dhcp_Server Server_Socket Router Wan_Interface Client_Socket Message_Types Dns_Service
    Kmod Config Sntp_Client Network Init_Tasks Netfilter Log_Prefix
    Lease_Pool Dns_Freshness Time_Source Unit_Tests Test_Network Map_Order
begin

text \<open>
  A verification development of \<^bold>\<open>rustyrouter\<close>, an init process that turns a machine with two
  interfaces into a home router. All paths are those of the repository.

  \<^bold>\<open>The program.\<close> \<open>src/main.rs\<close> mounts the file systems, loads kernel modules (\<open>src/kmod.rs\<close>),
  reads its configuration (\<open>src/config.rs\<close>), sets up the interfaces (\<open>src/network.rs\<close>) and the
  firewall, and then runs its services as tasks: a DHCP client on the WAN interface, which
  publishes the lease it gets (\<open>WanLease\<close>, behind a mutex); a DHCP server on the LAN interface;
  a DNS forwarder, which sends queries to the first DNS server of the published lease; and an
  SNTP client, which waits for the lease to have an address.

  \<^bold>\<open>The theories.\<close> First the ground:
  \<^item> \<open>Prelude\<close>: the machine types, panics as values of a sum, big-endian codecs, and hash maps
    behind the locale \<open>hash_map_laws\<close>. \<open>Rust_Text\<close>: splitting, trimming, lines and file names as
    in Rust's standard library. \<open>Backoff\<close>: the locale \<open>capped_backoff\<close> of retry delays that
    double up to a cap, interpreted for the DHCP client (64 seconds) and the SNTP client (900).
  \<^item> \<open>Machines\<close>: endless loops as machines that take events. The locale \<open>machine_invariant\<close>
    carries an invariant through runs; \<open>progress_machine\<close> adds a rank that a helpful event
    lowers, which gives "under fair events the goal is reached" and, where a helpful event
    exists in every state, a bounded run to it; \<open>finishing_machine\<close> a rank that never rises.
    They are interpreted for the DNS tasks and for the DHCP client's negotiation. \<open>simulation\<close> is
    the refinement of one step relation by another, interpreted for the DHCP server.
  \<^item> \<open>Raw_Socket\<close>: the helpers of \<open>src/services/utils.rs\<close> for packet sockets
    (\<open>get_interface_mac\<close>, \<open>open_raw_socket\<close>, the reading and sending loops), with the calls that
    create and close descriptors in the result. \<open>Log_Prefix\<close>: the time stamp of a log line.

  The DHCP server on the LAN:
  \<^item> \<open>Lease_Table\<close>: \<open>LeaseTable\<close> of \<open>src/services/dhcp_server.rs\<close>, one definition per method. Its
    specification is the map from hardware addresses to leases; the locale \<open>lease_store\<close> states
    what the server relies on and is interpreted on the table. Lemmas: each operation refines
    the map operation, the invariant of the index, allocation in host order.
  \<^item> \<open>Dhcp_Message\<close>, \<open>Packet\<close>, \<open>Reference_Libs\<close>: DHCP messages as the sources see them,
    \<open>build_raw_packet\<close> (\<open>src/packet.rs\<close>) and \<open>parse_dhcp_payload\<close> (\<open>src/services/utils.rs\<close>) over
    the views of the crate \<open>pnet\<close>. The crates \<open>pnet\<close> and \<open>dhcproto\<close> are parameter records with
    their documented behaviour as named hypotheses (\<open>pnet_documented\<close>, \<open>dhcproto_documented\<close>),
    and \<open>Reference_Libs\<close> gives concrete instances that satisfy them.
  \<^item> \<open>Dhcp_Server\<close>: the handlers, \<open>process_incoming_packet\<close>, and \<open>start_dhcp_server\<close> with its inner
    loop as the state machine \<open>server_step\<close>, whose events are the results of socket set-up and
    reads with the clock readings made while a packet is handled. Lemmas: no two live leases on
    one address in any reachable state, leases in the subnet, one descriptor open, which
    requests are granted, what an offer or acknowledgement contains, absence of panics.
  \<^item> \<open>Server_Socket\<close>: the calls and reads behind those events; a set-up and a read loop are each
    one step of the machine. \<open>Message_Types\<close>: the messages of server and client are well-typed,
    and on a typed message no lookup misses an option.
  \<^item> \<open>Lease_Service\<close>, \<open>Lease_Pool\<close>: the server implements a plain lease service, and hands its
    addresses out in host order. \<open>Lease_Keep\<close>: a client that renews in time keeps its address over
    every run, whatever the others send. \<open>Map_Order\<close>: the order in which a hash map is listed
    changes nothing the server sends.

  The DHCP client on the WAN:
  \<^item> \<open>Dhcp_Client\<close>: the pure functions of \<open>src/services/dhcp_client.rs\<close> (delays, jitter, renewal
    times, masks, messages, parsing, the wait loops over their turns). \<open>Dhcp_Client_Run\<close>:
    \<open>DhcpClient::run\<close> as the state machine \<open>client_step\<close>, one phase per point where the code
    awaits, with the netlink requests it makes. \<open>Client_Socket\<close>: \<open>make_client_socket\<close> and the
    texts of the errors. \<open>Wan_Lease\<close> has the shared lease and netlink.
  \<^item> \<open>Dhcp_Client_Live\<close>: a client that is answered comes to hold a lease. \<open>Wan_Interface\<close>: the
    requests carried out by a kernel (\<open>nl_documented\<close>): the addresses and the default routes of the
    interface are those of the published lease, in every run in which the kernel cooperates.

  The other services and the start-up:
  \<^item> \<open>Dns_Forwarder\<close>: the functions of \<open>src/services/dns_forwarder.rs\<close> on cache and registry.
    \<open>Dns_Tasks\<close>: the tasks of the forwarder. A query task is cut at every lock and await, and an
    event is one such piece of any task, a datagram from a client or on the upstream socket, the
    cleanup or a new lease; \<open>dns_run\<close> is any sequence of events. Its invariant accounts for each
    cache entry, registry entry and channel by the events that caused it. \<open>Dns_Liveness\<close>: every
    task ends and gives its registry entry back. \<open>Dns_Freshness\<close>: what comes from the cache was
    stored within its time to live. \<open>Dns_Answer\<close>: a query, what is sent upstream for it, the reply
    and the answer from the cache, as one run of a task. \<open>Dns_Service\<close>: binding the sockets, and the loops
    around the tasks with their socket errors.
  \<^item> \<open>Kmod\<close>: \<open>src/kmod.rs\<close>, with the file system, the decompressors and the kernel as the parameter
    \<open>kmod_env\<close>. \<open>Config\<close>: \<open>RouterConfig::parse\<close>. \<open>Network\<close>: \<open>src/network.rs\<close>. \<open>Sntp_Client\<close>: the
    loop of \<open>src/services/sntp_client.rs\<close>, \<open>sync_time\<close>, and \<open>resolve_dns_a_record\<close>.
  \<^item> \<open>Init\<close>: the boot sequence of \<open>src/main.rs\<close> as the list of its actions, with the mounts and
    the panic hook of \<open>src/system.rs\<close>. \<open>Init_Tasks\<close>: the reaper's loop (\<open>src/reaper.rs\<close>), the signal
    monitor (\<open>src/signal.rs\<close>) and the power button monitor. \<open>Netfilter\<close>: the rules of
    \<open>src/netfilter.rs\<close> as data, and what they accept if the kernel runs their expressions as
    documented (\<open>nft_documented\<close>).
  \<^item> \<open>Router\<close>: the DHCP client and the DNS forwarder run together over the lease they share, as
    \<open>run_as_init\<close> starts them; each run of the whole projects to a run of either, and the servers
    the forwarder uses are traced back to the acknowledgements the client received. \<open>Time_Source\<close>
    adds the SNTP client, cut into the look at the lease and the synchronisation, and traces the
    time the clock is set to the same way.
  \<^item> \<open>System_Ops\<close>: the trait \<open>SystemOps\<close> with \<open>RealSystem\<close> over the calls of the crate \<open>nix\<close> and
    \<open>MockSystem\<close>, the functions that are generic in it, and the contract \<open>system_contract\<close> both
    implement; over \<open>RealSystem\<close> the generic functions do what \<open>Init\<close> says.
    \<open>Dhcp_Server_Tests\<close>, \<open>Unit_Tests\<close>: the 26 unit tests of the sources, one definition per test, with
    what they read from outside as arguments; they hold in the model. \<open>Test_Provider\<close>: the DHCP
    side of the provider that \<open>tests/wan_dhcp_test.rs\<close> plays, and the router's client run against
    it, frame by frame. \<open>Test_Network\<close>: the client that test plays on the LAN and the provider's
    DNS and NTP branches, with the router's DHCP server and DNS forwarder between them.
  \<^item> This theory: further properties that span components. The client and the server of the router
    run a whole exchange, and the lease it gives is the one the forwarder uses; and one setting
    that two components read differently.

  \<^bold>\<open>Effects, errors, loops.\<close> A function that changes state answers the new state; what it sends or
  requests is in its result. An error is the left value of a sum or \<open>None\<close>; a panic is a value
  of \<open>panic\<close>. Clock readings, random numbers and answers of the kernel are arguments, one per
  reading where the code reads repeatedly. Loops that end are recursive functions; a loop that
  waits is a function of the list of its turns and answers \<open>None\<close> while they do not end it, and
  that it ends is a theorem of its own; endless loops are step relations. No fuel is used: the
  one bound is that of \<open>forwarder_drains\<close>, six pieces for each query, one for each phase of a
  task. Machine integers are words of their width; durations are natural numbers of nanoseconds.
  Liveness is stated of endless schedules of events (\<open>trajectory\<close>), with what the runtime, the
  timers or the server must do again and again as the hypothesis.

  \<^bold>\<open>What the theorems also show.\<close> Some state limits of the program: the index of the lease table
  can lose the address of a live lease; a stored lease is offered again even if it has expired; a
  failed interface configuration is not tried again for the same lease; a renewal may listen up
  to 59 seconds past the lease; a cached DNS answer is sent with the times to live it came with;
  the request phase never gives up by itself; a spoofed datagram with the right transaction id
  cancels a DNS query, and a late clean-up can cancel another one's; a restart of the DHCP
  server may deregister another task's new socket; a LAN address without prefix length leaves
  the LAN without DHCP; packets routed between the interfaces meet no filter; an IPv4 frame too
  short for its header stops the provider of the integration test.

  \<^bold>\<open>Not modelled.\<close> What the log lines say; the NTP exchange itself (crate \<open>rsntp\<close>) and the other
  crates, which are parameters; and of the integration test \<open>tests/wan_dhcp_test.rs\<close> what
  is not DHCP, DNS or NTP: the virtual machine it starts, the sockets that connect it, and the
  ARP and ICMP traffic it plays.
\<close>

section \<open>Client and server of this router\<close>

lemma reply_identifies_server:
  assumes "dhcproto_documented (lib_dhcproto E)" and "length (msg_chaddr d) \<le> 16"
  shows "get_server_identifier (reply_message E mt d a config) = Some (cfg_server_ip config)"
    and "message_type_of (reply_message E mt d a config) = Some mt"
    and "msg_xid (reply_message E mt d a config) = msg_xid d"
    and "msg_yiaddr (reply_message E mt d a config) = a"
    and "parse_lease_options (reply_message E mt d a config) =
      \<lparr>lo_mask = cfg_subnet_mask config, lo_gateway = Some (cfg_server_ip config),
       lo_dns_servers = [cfg_server_ip config], lo_lease_secs = 3600\<rparr>"
  using assms by (simp_all add: reply_message_def Let_def dhcproto_set_chaddr message_type_of_def
      get_server_identifier_def parse_lease_options_def opts_get_insert LAN_LEASE_SECS_def)

text \<open>The messages of one exchange survive the wire.\<close>

definition transmits :: "libs \<Rightarrow> message_type \<Rightarrow> dhcp_message \<Rightarrow> ipv4 \<Rightarrow> server_config \<Rightarrow> bytes \<Rightarrow> bool" where
  "transmits E mt d a config payload \<longleftrightarrow>
     build_dhcp_reply_payload E mt d a config = Inr payload \<and>
     message_decode (lib_dhcproto E) payload = Some (reply_message E mt d a config)"


definition exchange_reply :: "message_type \<Rightarrow> dhcp_message" where
  "exchange_reply mt =
     (let dp = lib_dhcproto sample_libs;
          d = (if mt = Offer then discover_message dp client_a 77
               else request_message dp client_a 77 2 (Some (cfg_server_ip sample_config)) ipv4_unspecified)
      in reply_message sample_libs mt d 2 sample_config)"

definition exchange_libs :: libs where
  "exchange_libs = \<lparr>lib_pnet = pnet_wire,
     lib_dhcproto = (lib_dhcproto sample_libs)\<lparr>
       message_encode := (\<lambda>d. Inr (if message_type_of d = Some Offer then [1] else [2])),
       message_decode := (\<lambda>b. if b = [1] then Some (exchange_reply Offer)
                             else if b = [2] then Some (exchange_reply Ack) else None)\<rparr>\<rparr>"

lemma exchange_libs_documented: "dhcproto_documented (lib_dhcproto exchange_libs)"
  using sample_libs_dhcproto by (simp add: exchange_libs_def dhcproto_documented_def)

lemma exchange_transmits:
  "transmits exchange_libs Offer (discover_message (lib_dhcproto exchange_libs) client_a 77) 2
     sample_config [1]"
  "transmits exchange_libs Ack (request_message (lib_dhcproto exchange_libs) client_a 77 2
     (Some (cfg_server_ip sample_config)) ipv4_unspecified) 2 sample_config [2]"
proof -
  have len: "length (msg_chaddr (discover_message (lib_dhcproto exchange_libs) client_a 77)) \<le> 16"
    "length (msg_chaddr (request_message (lib_dhcproto exchange_libs) client_a 77 2
       (Some (cfg_server_ip sample_config)) ipv4_unspecified)) \<le> 16"
    using exchange_libs_documented
    by (simp_all add: discover_message_def request_message_def Let_def dhcproto_set_chaddr)
  have same: "reply_message exchange_libs mt d a c = reply_message sample_libs mt d a c"
    "discover_message (lib_dhcproto exchange_libs) m x = discover_message (lib_dhcproto sample_libs) m x"
    "request_message (lib_dhcproto exchange_libs) m x r sv ci =
       request_message (lib_dhcproto sample_libs) m x r sv ci" for mt d a c m x r sv ci
    by (simp_all add: reply_message_def discover_message_def request_message_def exchange_libs_def)
  have reply: "reply_message exchange_libs Offer
      (discover_message (lib_dhcproto exchange_libs) client_a 77) 2 sample_config = exchange_reply Offer"
    "reply_message exchange_libs Ack (request_message (lib_dhcproto exchange_libs) client_a 77 2
       (Some (cfg_server_ip sample_config)) ipv4_unspecified) 2 sample_config = exchange_reply Ack"
    unfolding same by (simp_all add: exchange_reply_def)
  note types = reply_identifies_server(2) [OF exchange_libs_documented len(1), of Offer 2 sample_config]
    reply_identifies_server(2) [OF exchange_libs_documented len(2), of Ack 2 sample_config]
  show "transmits exchange_libs Offer (discover_message (lib_dhcproto exchange_libs) client_a 77) 2
     sample_config [1]"
    using types unfolding transmits_def build_dhcp_reply_payload_def reply
    by (simp add: exchange_libs_def)
  show "transmits exchange_libs Ack (request_message (lib_dhcproto exchange_libs) client_a 77 2
     (Some (cfg_server_ip sample_config)) ipv4_unspecified) 2 sample_config [2]"
    using types unfolding transmits_def build_dhcp_reply_payload_def reply
    by (simp add: exchange_libs_def)
qed


section \<open>One setting, two readers\<close>

text \<open>A LAN address without a prefix length, the form the specification's first example
  has, splits the router: the interface gets the address with a prefix of 24 bits, but the DHCP
  server, whose parser wants the prefix, does not start, so the LAN has no DHCP service.\<close>

theorem lan_ip_without_prefix:
  assumes "\<forall>s. CHR ''/'' \<notin> set s \<longrightarrow> parse_net s = None"
    and "CHR ''/'' \<notin> set lan_ip" and "parse_ipv4 lan_ip = Some a"
    and "nk_forward k = None" and "nk_connect k = None" and "nk_link k lan = Inr (Some i)"
    and "\<forall>r. nk_change k r = None"
  shows "NetAddAddress i (V4 a) 24 \<in> set (fst (configure_network parse_ipv6 k wan lan lan_ip))
    \<and> start_dhcp_server parse_net lan_ip = None"
  using configure_network_lan [OF assms(4-7) parse_cidr_no_slash [OF assms(2,3)]] assms(1,2)
  by (simp add: start_dhcp_server_def)

definition sample_net_kernel :: net_kernel where
  "sample_net_kernel = \<lparr>nk_forward = None, nk_connect = None, nk_link = (\<lambda>_. Inr (Some 3)),
     nk_change = (\<lambda>_. None)\<rparr>"

theorem lan_ip_without_prefix_witness:
  "NetAddAddress 3 (V4 (ipv4_new 192 168 1 1)) 24 \<in>
     set (fst (configure_network (\<lambda>_. None) sample_net_kernel ''eth0'' ''eth1'' ''192.168.1.1''))"
proof -
  have "parse_ipv4 ''192.168.1.1'' = Some (ipv4_new 192 168 1 1)"
    by (simp add: parse_ipv4_def parse_octet_def digit_value_def)
  then show ?thesis
    using lan_ip_without_prefix [of "\<lambda>s. if CHR ''/'' \<in> set s then Some sample_net else None"
        "''192.168.1.1''" "ipv4_new 192 168 1 1" sample_net_kernel "''eth1''" 3]
    by (simp add: sample_net_kernel_def)
qed

end
